(* ===== verification/Prelude.thy ===== *)
theory Prelude
  imports Main "HOL-Library.Word" "HOL-Library.Monad_Syntax"
begin

text \<open>
  Shared material of the development: the machine integer types of the C code, facts on the
  power-of-two masks and the little-endian byte images that the ring buffer and the samples use,
  and the fixed-size pointer arrays of the event and event-set tables.

  A computation that may fault (a NULL dereference, a use after free, an access outside an
  array, a division by zero) has a result of type \<open>'a option\<close>, composed with the monadic
  \<open>do\<close> of the option type: \<open>None\<close> is the fault. An error code that the code returns is an
  ordinary value inside \<open>Some\<close>.
\<close>

unbundle bit_operations_syntax

named_theorems word_norm \<open>facts that move word terms of the model to natural numbers\<close>

named_theorems len_simps \<open>lengths of the byte images of the model\<close>

type_synonym u8 = "8 word"
type_synonym u32 = "32 word"
type_synonym u64 = "64 word"

text \<open>\<open>int\<close> and \<open>long long\<close> are the same words, read with \<open>sint\<close> where the code compares them.\<close>

type_synonym i32 = "32 word"
type_synonym i64 = "64 word"

abbreviation nonneg :: "i32 \<Rightarrow> bool" where
  "nonneg i \<equiv> 0 \<le> sint i"

section \<open>Masks of a power of two\<close>

lemma unat_and_mask [word_norm]: "unat (x AND mask n) = unat x mod 2 ^ n"
proof -
  have "unat (x AND mask n) = unat (take_bit n x)" by (simp only: take_bit_eq_mask)
  also have "\<dots> = take_bit n (unat x)" by (simp only: unsigned_take_bit_eq)
  also have "\<dots> = unat x mod 2 ^ n" by (rule take_bit_eq_mod)
  finally show ?thesis .
qed

lemma unat_neq: "x \<noteq> y \<Longrightarrow> unat x \<noteq> unat y"
  by (auto dest: unsigned_word_eqI)

lemma word_unat_eqI: "unat v = unat w \<Longrightarrow> v = w"
  by (rule unsigned_word_eqI)

lemma unat_ucast:
  "unat (ucast (w :: 'a::len word) :: 'b::len word) = unat w mod 2 ^ LENGTH('b)"
  by (simp only: unsigned_ucast_eq take_bit_eq_mod)

lemma exp_minus_1_mask: "(2 :: 'a::len word) ^ n - 1 = mask n"
  by (simp add: mask_eq_exp_minus_1)

lemma word_eq_exp_if_unat:
  assumes "unat (x :: 'a::len word) = 2 ^ n"
  shows "x = 2 ^ n"
proof -
  have "x = word_of_nat (unat x)" by simp
  also have "\<dots> = 2 ^ n" by (simp only: assms of_nat_power of_nat_numeral)
  finally show ?thesis .
qed

lemma unat_diff_mod_exp:
  fixes h t :: "'a::len word"
  assumes "m \<le> LENGTH('a)" and "unat t \<le> 2 ^ m"
  shows "unat (h - t) mod 2 ^ m = (unat h + 2 ^ m - unat t) mod 2 ^ m"
proof -
  have d: "(2::int) ^ m dvd 2 ^ LENGTH('a)"
    using assms(1) by (rule le_imp_power_dvd)
  have "int (unat (h - t) mod 2 ^ m) = uint (h - t) mod 2 ^ m"
    by (simp add: zmod_int)
  also have "\<dots> = (uint h - uint t) mod 2 ^ m"
    using d by (simp add: uint_word_ariths mod_mod_cancel)
  also have "\<dots> = (uint h + 2 ^ m - uint t) mod 2 ^ m"
    by (metis add_diff_eq diff_add_eq mod_add_self2)
  also have "\<dots> = int ((unat h + 2 ^ m - unat t) mod 2 ^ m)"
    using assms(2) by (simp add: zmod_int of_nat_diff)
  finally show ?thesis by linarith
qed

lemma unat_add_mod_exp:
  fixes h t :: "'a::len word"
  assumes "m \<le> LENGTH('a)"
  shows "unat (h + t) mod 2 ^ m = (unat h + unat t) mod 2 ^ m"
  using assms by (simp add: unat_word_ariths mod_mod_cancel le_imp_power_dvd)

section \<open>Positions of a ring\<close>

text \<open>Two positions less than one turn apart occupy different cells.\<close>

lemma mod_neq_of_less:
  fixes p q S :: nat
  assumes "p < q" and "q < p + S"
  shows "p mod S \<noteq> q mod S"
proof
  assume "p mod S = q mod S"
  then have "S dvd q - p" using assms(1) by (metis mod_eq_dvd_iff_nat less_imp_le)
  moreover have "0 < q - p" "q - p < S" using assms by auto
  ultimately show False by (auto dest: dvd_imp_le)
qed

lemma add_mod_of_same_block:
  fixes p n S B :: nat
  assumes "B dvd S" and "p mod B + n < B"
  shows "(p + n) mod S = p mod S + n"
proof (cases "S = 0")
  case False
  from assms(1) obtain k where S: "S = B * k" by (auto simp: dvd_def)
  have pm: "p mod S mod B = p mod B" using assms(1) by (simp add: mod_mod_cancel)
  have "p mod S < S" using False by simp
  then have "p mod S div B < k" using S False by (simp add: less_mult_imp_div_less mult.commute)
  then have "(p mod S div B + 1) * B \<le> k * B" by (intro mult_le_mono1) simp
  moreover have "p mod S = (p mod S div B) * B + p mod B" using pm by (metis div_mult_mod_eq)
  ultimately have "p mod S + n < S" using assms(2) S by (simp add: algebra_simps)
  then show ?thesis by (metis mod_add_left_eq mod_less)
qed simp

section \<open>Little-endian images\<close>

fun le_bytes :: "nat \<Rightarrow> 'a::len word \<Rightarrow> u8 list" where
  "le_bytes 0 w = []"
| "le_bytes (Suc n) w = ucast w # le_bytes n (drop_bit 8 w)"

fun le_word :: "u8 list \<Rightarrow> 'a::len word" where
  "le_word [] = 0"
| "le_word (b # bs) = ucast b OR push_bit 8 (le_word bs)"

lemma length_le_bytes [simp, len_simps]: "length (le_bytes n w) = n"
  by (induction n arbitrary: w) auto

lemma le_word_le_bytes: "le_word (le_bytes n w) = take_bit (8 * n) (w :: 'a::len word)"
proof (induction n arbitrary: w)
  case (Suc n)
  show ?case
    by (rule bit_word_eqI)
       (auto simp: Suc bit_simps not_less)
qed simp

lemma le_word_32 [simp]: "le_word (le_bytes 4 w) = (w :: u32)"
  by (simp add: le_word_le_bytes take_bit_word_eq_self)

lemma le_word_64 [simp]: "le_word (le_bytes 8 w) = (w :: u64)"
  by (simp add: le_word_le_bytes take_bit_word_eq_self)

section \<open>Arrays of pointers\<close>

text \<open>
  An allocated array of pointers; a slot is \<open>None\<close> for NULL. A load or a store outside the array
  is a fault.
\<close>

type_synonym 'a slots = "'a option list"

definition slot_load :: "'a slots \<Rightarrow> nat \<Rightarrow> 'a option option" where
  "slot_load xs i = (if i < length xs then Some (xs ! i) else None)"

definition slot_store :: "'a slots \<Rightarrow> nat \<Rightarrow> 'a option \<Rightarrow> 'a slots option" where
  "slot_store xs i v = (if i < length xs then Some (xs[i := v]) else None)"

text \<open>The entries of an array whose first \<open>n\<close> slots are in use, and the array being well formed.\<close>

definition slots_entries :: "'a slots \<Rightarrow> nat \<Rightarrow> 'a list" where
  "slots_entries xs n = map the (take n xs)"

definition slots_inv :: "nat \<Rightarrow> 'a slots \<Rightarrow> nat \<Rightarrow> bool" where
  "slots_inv cap xs n \<longleftrightarrow>
     length xs = cap \<and> n \<le> cap \<and> (\<forall>i < cap. xs ! i \<noteq> None \<longleftrightarrow> i < n)"

lemma slots_inv_replicate: "slots_inv cap (replicate cap None) 0"
  by (simp add: slots_inv_def)

lemma length_slots_entries: "slots_inv cap xs n \<Longrightarrow> length (slots_entries xs n) = n"
  by (simp add: slots_inv_def slots_entries_def)

lemma slot_load_entries:
  "slots_inv cap xs n \<Longrightarrow> i < n \<Longrightarrow> slot_load xs i = Some (Some (slots_entries xs n ! i))"
  by (auto simp: slots_inv_def slots_entries_def slot_load_def)

lemma slot_store_append:
  assumes "slots_inv cap xs n" and "n < cap"
  shows "\<exists>xs'. slot_store xs n (Some v) = Some xs' \<and> slots_inv cap xs' (Suc n) \<and>
           slots_entries xs' (Suc n) = slots_entries xs n @ [v]"
proof -
  have "slots_inv cap (xs[n := Some v]) (Suc n)"
    using assms by (auto simp: slots_inv_def nth_list_update)
  moreover have "slots_entries (xs[n := Some v]) (Suc n) = slots_entries xs n @ [v]"
    using assms by (simp add: slots_inv_def slots_entries_def take_Suc_conv_app_nth)
  ultimately show ?thesis
    using assms by (auto simp: slot_store_def slots_inv_def)
qed

text \<open>The loop that sets the slots \<open>i\<close> to \<open>n - 1\<close> of an array to NULL.\<close>

function slots_clear :: "nat \<Rightarrow> nat \<Rightarrow> 'a slots \<Rightarrow> 'a slots option" where
  "slots_clear i n xs =
     (if i < n then slot_store xs i None \<bind> slots_clear (Suc i) n else Some xs)"
  by pat_completeness auto
termination
  by (relation "measure (\<lambda>(i, n, xs). n - i)") auto

declare slots_clear.simps [simp del]

lemma slots_clear_all:
  "n \<le> length xs \<Longrightarrow> i \<le> n \<Longrightarrow>
     slots_clear i n xs = Some (take i xs @ replicate (n - i) None @ drop n xs)"
proof (induction i n xs rule: slots_clear.induct)
  case (1 i n xs)
  show ?case
  proof (cases "i < n")
    case True
    with 1 have "slots_clear (Suc i) n (xs[i := None]) =
        Some (take (Suc i) (xs[i := None]) @ replicate (n - Suc i) None @ drop n (xs[i := None]))"
      by (simp add: slot_store_def)
    moreover have "n - i = Suc (n - Suc i)" using True by simp
    ultimately show ?thesis using True 1(2)
      by (subst slots_clear.simps)
         (simp add: slot_store_def take_Suc_conv_app_nth)
  next
    case False
    with 1(3) show ?thesis by (subst slots_clear.simps) simp
  qed
qed

section \<open>Running a list of operations\<close>

fun fold_opt :: "('a \<Rightarrow> 's \<Rightarrow> 's option) \<Rightarrow> 'a list \<Rightarrow> 's \<Rightarrow> 's option" where
  "fold_opt f [] s = Some s"
| "fold_opt f (x # xs) s = f x s \<bind> fold_opt f xs"

lemma fold_opt_inv:
  assumes "\<And>x s. x \<in> set xs \<Longrightarrow> P s \<Longrightarrow> \<exists>s'. f x s = Some s' \<and> P s'" and "P s"
  shows "\<exists>s'. fold_opt f xs s = Some s' \<and> P s'"
  using assms
proof (induction xs arbitrary: s)
  case (Cons x xs)
  then obtain s1 where s1: "f x s = Some s1" "P s1" by (metis list.set_intros(1))
  moreover from Cons.IH [OF _ s1(2)] Cons.prems(1)
  have "\<exists>s'. fold_opt f xs s1 = Some s' \<and> P s'" by simp
  ultimately show ?case by simp
qed simp

lemma sint_small:
  assumes "unat x < 2 ^ 31"
  shows "sint (x :: 32 word) = int (unat x)"
proof -
  have u: "uint x = int (unat x)" by simp
  have "int (unat x) < int (2 ^ 31)" using assms by (simp only: of_nat_less_iff)
  then have "int (unat x) < 2 ^ 31" by (simp only: of_nat_power of_nat_numeral)
  moreover have "- (2 ^ 31) \<le> int (unat x)" by (rule order_trans [of _ 0]) simp_all
  ultimately have "signed_take_bit 31 (int (unat x)) = int (unat x)"
    by (intro signed_take_bit_int_eq_self)
  then show ?thesis unfolding sint_uint u by simp
qed

end
