(* ===== verification/Id_Table.thy ===== *)
theory Id_Table
  imports Prelude
begin

text \<open>
  The contract that the event table and the event-set table share: an append-only table of bounded
  capacity whose entries are named by the order in which they were added. A client holds ids and
  never removes entries (\<open>smon_del_event\<close> and \<open>smon_del_evset\<close> do nothing), so an id once given
  stays good.
\<close>

locale id_table =
  fixes cap :: nat
    and inv :: "'t \<Rightarrow> bool"
    and entries :: "'t \<Rightarrow> 'a list"
    and lookup :: "u32 \<Rightarrow> 't \<Rightarrow> 'a option option"
    and check :: "u32 \<Rightarrow> 't \<Rightarrow> int"
    and add :: "bool \<Rightarrow> 'a \<Rightarrow> 't \<Rightarrow> (int \<times> 't) option"
    and safe :: "'a \<Rightarrow> bool"
    and accepts :: "'a \<Rightarrow> bool"
  assumes cap_word: "cap < 2 ^ 32"
    and entries_cap: "inv t \<Longrightarrow> length (entries t) \<le> cap"
    and lookup_entries: "inv t \<Longrightarrow>
          lookup i t = Some (if unat i < length (entries t) then Some (entries t ! unat i) else None)"
    and check_entries: "inv t \<Longrightarrow> check i t = 0 \<longleftrightarrow> unat i < length (entries t)"
    and add_spec: "inv t \<Longrightarrow> safe x \<Longrightarrow>
          \<exists>r t'. add a x t = Some (r, t') \<and> inv t' \<and>
                 entries t' = (if r = 0 then entries t @ [x] else entries t) \<and>
                 (r = 0 \<longleftrightarrow> a \<and> accepts x \<and> length (entries t) < cap)"
begin

lemma addE:
  assumes "add a x t = Some (r, t')" and "inv t" and "safe x"
  obtains "inv t'" and "entries t' = (if r = 0 then entries t @ [x] else entries t)"
    and "r = 0 \<longleftrightarrow> a \<and> accepts x \<and> length (entries t) < cap"
  using add_spec [OF assms(2,3), of a] assms(1) by auto

lemma add_no_fault: "inv t \<Longrightarrow> safe x \<Longrightarrow> add a x t \<noteq> None"
  using add_spec [of t x a] by auto

lemma add_inv: "inv t \<Longrightarrow> safe x \<Longrightarrow> add a x t = Some (r, t') \<Longrightarrow> inv t'"
  by (auto elim: addE)

lemma check_lookup: "inv t \<Longrightarrow> check i t = 0 \<longleftrightarrow> lookup i t \<noteq> Some None"
  by (simp add: check_entries lookup_entries)

lemma lookup_no_fault: "inv t \<Longrightarrow> lookup i t \<noteq> None"
  by (simp add: lookup_entries)

lemma lookup_new:
  assumes "add a x t = Some (0, t')" and "inv t" and "safe x"
  shows "lookup (of_nat (length (entries t))) t' = Some (Some x)"
proof -
  from assms obtain t: "inv t'" "entries t' = entries t @ [x]" "length (entries t) < cap"
    by (auto elim: addE)
  moreover have "unat (of_nat (length (entries t)) :: u32) = length (entries t)"
    using cap_word t(3) by (simp add: unat_of_nat)
  ultimately show ?thesis by (simp add: lookup_entries)
qed

lemma lookup_stable:
  assumes "add a x t = Some (r, t')" and "inv t" and "safe x" and "lookup i t = Some (Some y)"
  shows "lookup i t' = Some (Some y)"
proof -
  from assms have "unat i < length (entries t)" "entries t ! unat i = y"
    by (auto simp: lookup_entries split: if_splits)
  with assms show ?thesis by (auto elim!: addE simp: lookup_entries nth_append)
qed

lemma check_stable:
  "add a x t = Some (r, t') \<Longrightarrow> inv t \<Longrightarrow> safe x \<Longrightarrow> check i t = 0 \<Longrightarrow> check i t' = 0"
  by (auto elim!: addE simp: check_entries)

lemma add_rejected:
  assumes "inv t" and "safe x" and "\<not> (a \<and> accepts x \<and> length (entries t) < cap)"
  obtains r t' where "add a x t = Some (r, t')" "r \<noteq> 0" "entries t' = entries t"
  using add_spec [OF assms(1,2), of a] assms(3) by auto

end

end
