(* ===== verification/Event.thy ===== *)
theory Event
  imports Id_Table
begin

text \<open>
  \<^verbatim>\<open>driver/event.c\<close>: the table of performance events, with the event record of
  \<^verbatim>\<open>driver/smon.h\<close>. Whether \<^verbatim>\<open>kmalloc\<close> succeeds is the argument \<open>alloc\<close> of the
  operations that allocate.
\<close>

section \<open>The event record and the error codes\<close>

definition SMENOMEM :: int where "SMENOMEM = 1"
definition SMEMAXEV :: int where "SMEMAXEV = 2"
definition SMENOEVT :: int where "SMENOEVT = 3"
definition SMEMAXES :: int where "SMEMAXES = 4"
definition SMENOEVS :: int where "SMENOEVS = 5"
definition SMEIOCTL :: int where "SMEIOCTL = 6"

lemmas sme_defs = SMENOMEM_def SMEMAXEV_def SMENOEVT_def SMEMAXES_def SMENOEVS_def SMEIOCTL_def

definition MAX_EVENTS :: u32 where "MAX_EVENTS = 64"

record smon_event =
  ev_tag :: string
  perfevtsel :: i64

text \<open>The bit fields of the union, by offset and width.\<close>

definition bit_field :: "nat \<Rightarrow> nat \<Rightarrow> i64 \<Rightarrow> i64" where
  "bit_field off width w = drop_bit off w AND mask width"

definition ev_evsel :: "smon_event \<Rightarrow> i64" where "ev_evsel e = bit_field 0 8 (perfevtsel e)"
definition ev_umask :: "smon_event \<Rightarrow> i64" where "ev_umask e = bit_field 8 8 (perfevtsel e)"
definition ev_usr :: "smon_event \<Rightarrow> i64" where "ev_usr e = bit_field 16 1 (perfevtsel e)"
definition ev_os :: "smon_event \<Rightarrow> i64" where "ev_os e = bit_field 17 1 (perfevtsel e)"
definition ev_en :: "smon_event \<Rightarrow> i64" where "ev_en e = bit_field 22 1 (perfevtsel e)"

section \<open>The table\<close>

text \<open>\<open>events\<close> is \<open>None\<close> while the pointer \<^verbatim>\<open>events\<close> is NULL.\<close>

record event_table =
  events :: "smon_event slots option"
  n_events :: u32

definition event_table0 :: event_table where
  "event_table0 = \<lparr>events = None, n_events = 0\<rparr>"

definition smon_event_init :: "bool \<Rightarrow> event_table \<Rightarrow> int \<times> event_table" where
  "smon_event_init alloc t =
     (if \<not> alloc then (- SMENOMEM, t\<lparr>events := None\<rparr>)
      else (0, t\<lparr>events := Some (replicate (unat MAX_EVENTS) None)\<rparr>))"

definition smon_event_exit :: "event_table \<Rightarrow> (int \<times> event_table) option" where
  "smon_event_exit t =
     (case events t of
        None \<Rightarrow> (if n_events t = 0 then Some (0, \<lparr>events = None, n_events = 0\<rparr>) else None)
      | Some arr \<Rightarrow>
          do {
            _ \<leftarrow> slots_clear 0 (unat (n_events t)) arr;
            Some (0, \<lparr>events = None, n_events = 0\<rparr>)
          })"

definition smon_set_event :: "bool \<Rightarrow> smon_event \<Rightarrow> event_table \<Rightarrow> (int \<times> event_table) option" where
  "smon_set_event alloc event t =
     (if n_events t = MAX_EVENTS then Some (- SMEMAXEV, t)
      else if \<not> alloc then Some (- SMENOMEM, t)
      else do {
        arr \<leftarrow> events t;
        arr' \<leftarrow> slot_store arr (unat (n_events t)) (Some event);
        Some (0, t\<lparr>events := Some arr', n_events := n_events t + 1\<rparr>)
      })"

text \<open>The inner \<open>None\<close> is the NULL that the function returns.\<close>

definition smon_get_event :: "u32 \<Rightarrow> event_table \<Rightarrow> smon_event option option" where
  "smon_get_event eid t =
     (if eid \<ge> n_events t \<or> eid < 0 then Some None
      else do { arr \<leftarrow> events t; slot_load arr (unat eid) })"

definition smon_check_event :: "u32 \<Rightarrow> event_table \<Rightarrow> int" where
  "smon_check_event eid t = (if eid < n_events t \<and> eid \<ge> 0 then 0 else - SMENOEVT)"

definition smon_del_event :: "u32 \<Rightarrow> event_table \<Rightarrow> int \<times> event_table" where
  "smon_del_event eid t = (0, t)"

section \<open>Invariant and the table's contract\<close>

definition event_inv :: "event_table \<Rightarrow> bool" where
  "event_inv t \<longleftrightarrow>
     (case events t of None \<Rightarrow> False | Some arr \<Rightarrow> slots_inv 64 arr (unat (n_events t)))"

definition event_entries :: "event_table \<Rightarrow> smon_event list" where
  "event_entries t =
     (case events t of None \<Rightarrow> [] | Some arr \<Rightarrow> slots_entries arr (unat (n_events t)))"

lemma event_invE:
  assumes "event_inv t"
  obtains arr where "events t = Some arr" "slots_inv 64 arr (unat (n_events t))"
    "unat (n_events t) \<le> 64" "event_entries t = slots_entries arr (unat (n_events t))"
    "length (event_entries t) = unat (n_events t)"
  using assms
  by (auto simp: event_inv_def event_entries_def slots_inv_def length_slots_entries
      split: option.splits)

lemma event_init_inv:
  "n_events t = 0 \<Longrightarrow> smon_event_init True t = (r, t') \<Longrightarrow>
     r = 0 \<and> event_inv t' \<and> event_entries t' = []"
  by (auto simp: smon_event_init_def event_inv_def event_entries_def slots_inv_def
      slots_entries_def MAX_EVENTS_def)

lemma event_set_spec:
  assumes "event_inv t"
  shows "\<exists>r t'. smon_set_event a x t = Some (r, t') \<and> event_inv t' \<and>
           event_entries t' = (if r = 0 then event_entries t @ [x] else event_entries t) \<and>
           (r = 0 \<longleftrightarrow> a \<and> True \<and> length (event_entries t) < 64)"
proof -
  from assms obtain arr where arr: "events t = Some arr" "slots_inv 64 arr (unat (n_events t))"
    "unat (n_events t) \<le> 64" "event_entries t = slots_entries arr (unat (n_events t))"
    "length (event_entries t) = unat (n_events t)" by (rule event_invE)
  show ?thesis
  proof (cases "n_events t = MAX_EVENTS \<or> \<not> a")
    case True
    with assms arr show ?thesis
      by (auto simp: smon_set_event_def sme_defs MAX_EVENTS_def)
  next
    case False
    with arr(3) have lt: "unat (n_events t) < 64"
      using unat_neq [of "n_events t" 64] by (auto simp: MAX_EVENTS_def)
    then have suc: "unat (n_events t + 1) = Suc (unat (n_events t))"
      by (simp add: unat_word_ariths)
    from slot_store_append [OF arr(2) lt, of x] obtain arr' where arr':
      "slot_store arr (unat (n_events t)) (Some x) = Some arr'"
      "slots_inv 64 arr' (Suc (unat (n_events t)))"
      "slots_entries arr' (Suc (unat (n_events t))) = slots_entries arr (unat (n_events t)) @ [x]"
      by blast
    with False arr lt suc show ?thesis
      by (simp add: smon_set_event_def event_inv_def event_entries_def length_slots_entries)
  qed
qed

lemma event_get_spec:
  assumes "event_inv t"
  shows "smon_get_event i t =
           Some (if unat i < length (event_entries t) then Some (event_entries t ! unat i) else None)"
  using assms
  by (elim event_invE) (auto simp: smon_get_event_def word_le_nat_alt slot_load_entries)

interpretation ev: id_table 64 event_inv event_entries smon_get_event smon_check_event
    smon_set_event "\<lambda>_. True" "\<lambda>_. True"
proof (unfold_locales, goal_cases)
  case 2 then show ?case by (auto elim: event_invE)
next
  case 3 then show ?case by (rule event_get_spec)
next
  case (4 t i) then show ?case
    by (elim event_invE) (simp add: smon_check_event_def sme_defs word_less_nat_alt)
next
  case 5 then show ?case by (intro event_set_spec)
qed simp

lemma event_exit_spec:
  assumes "event_inv t"
  shows "smon_event_exit t = Some (0, event_table0)"
  using assms
  by (elim event_invE) (auto simp: smon_event_exit_def event_table0_def slots_inv_def slots_clear_all)

end
