(* ===== verification/Evset.thy ===== *)
theory Evset
  imports Event
begin

text \<open>
  \<^verbatim>\<open>driver/evset.c\<close>: the table of event-sets. Registering an event-set looks its events up in
  the event table through the contract \<open>id_table\<close>; the event-set table provides the same
  contract to its own clients.
\<close>

definition MAX_EVSETS :: u32 where "MAX_EVSETS = 64"
definition MAX_FX_CTRS :: nat where "MAX_FX_CTRS = 3"
definition MAX_GP_CTRS :: nat where "MAX_GP_CTRS = 4"

text \<open>\<open>evids\<close> is the array of \<open>MAX_GP_CTRS\<close> event ids, negative where no event is configured.\<close>

record smon_evset =
  es_tag :: string
  evids :: "i32 list"
  fixed_ctrl :: i64
  global_ctrl :: i64

record evset_table =
  evsets :: "smon_evset slots option"
  n_evsets :: u32

definition evset_table0 :: evset_table where
  "evset_table0 = \<lparr>evsets = None, n_evsets = 0\<rparr>"

definition smon_evset_init :: "bool \<Rightarrow> evset_table \<Rightarrow> int \<times> evset_table" where
  "smon_evset_init alloc t =
     (if \<not> alloc then (- SMENOMEM, t\<lparr>evsets := None\<rparr>)
      else (0, t\<lparr>evsets := Some (replicate (unat MAX_EVSETS) None)\<rparr>))"

definition smon_evset_exit :: "evset_table \<Rightarrow> (int \<times> evset_table) option" where
  "smon_evset_exit t =
     (case evsets t of
        None \<Rightarrow> (if n_evsets t = 0 then Some (0, \<lparr>evsets = None, n_evsets = 0\<rparr>) else None)
      | Some arr \<Rightarrow>
          do {
            _ \<leftarrow> slots_clear 0 (unat (n_evsets t)) arr;
            Some (0, \<lparr>evsets = None, n_evsets = 0\<rparr>)
          })"

text \<open>The loop over \<open>new->evids\<close>: false is the jump to \<^verbatim>\<open>wrong_event\<close>.\<close>

fun evids_exist :: "event_table \<Rightarrow> i32 list \<Rightarrow> bool option" where
  "evids_exist et [] = Some True"
| "evids_exist et (e # es) =
     (if sint e < 0 then evids_exist et es
      else do {
        p \<leftarrow> smon_get_event e et;
        if p = None then Some False else evids_exist et es
      })"

definition smon_set_evset ::
  "bool \<Rightarrow> smon_evset \<Rightarrow> event_table \<Rightarrow> evset_table \<Rightarrow> (int \<times> evset_table) option" where
  "smon_set_evset alloc evset et t =
     (if n_evsets t = MAX_EVSETS then Some (- SMEMAXES, t)
      else if \<not> alloc then Some (- SMENOMEM, t)
      else do {
        good \<leftarrow> evids_exist et (evids evset);
        if \<not> good then Some (- SMENOEVT, t)
        else do {
          arr \<leftarrow> evsets t;
          arr' \<leftarrow> slot_store arr (unat (n_evsets t)) (Some evset);
          Some (0, t\<lparr>evsets := Some arr', n_evsets := n_evsets t + 1\<rparr>)
        }
      })"

definition smon_get_evset :: "u32 \<Rightarrow> evset_table \<Rightarrow> smon_evset option option" where
  "smon_get_evset esid t =
     (if esid \<ge> n_evsets t then Some None
      else do { arr \<leftarrow> evsets t; slot_load arr (unat esid) })"

definition smon_check_evset :: "u32 \<Rightarrow> evset_table \<Rightarrow> int" where
  "smon_check_evset esid t = (if esid < n_evsets t then 0 else - SMENOEVS)"

definition smon_del_evset :: "u32 \<Rightarrow> evset_table \<Rightarrow> int \<times> evset_table" where
  "smon_del_evset esid t = (0, t)"

section \<open>Invariant and the table's contract\<close>

definition evset_inv :: "evset_table \<Rightarrow> bool" where
  "evset_inv t \<longleftrightarrow>
     (case evsets t of None \<Rightarrow> False | Some arr \<Rightarrow> slots_inv 64 arr (unat (n_evsets t)))"

definition evset_entries :: "evset_table \<Rightarrow> smon_evset list" where
  "evset_entries t =
     (case evsets t of None \<Rightarrow> [] | Some arr \<Rightarrow> slots_entries arr (unat (n_evsets t)))"

text \<open>Every configured event of the event-set is registered.\<close>

definition evset_refs_ok :: "event_table \<Rightarrow> smon_evset \<Rightarrow> bool" where
  "evset_refs_ok et s \<longleftrightarrow>
     (\<forall>e \<in> set (evids s). nonneg e \<longrightarrow> unat e < length (event_entries et))"

lemma evset_invE:
  assumes "evset_inv t"
  obtains arr where "evsets t = Some arr" "slots_inv 64 arr (unat (n_evsets t))"
    "unat (n_evsets t) \<le> 64" "evset_entries t = slots_entries arr (unat (n_evsets t))"
    "length (evset_entries t) = unat (n_evsets t)"
  using assms
  by (auto simp: evset_inv_def evset_entries_def slots_inv_def length_slots_entries
      split: option.splits)

lemma evset_init_inv:
  "n_evsets t = 0 \<Longrightarrow> smon_evset_init True t = (r, t') \<Longrightarrow>
     r = 0 \<and> evset_inv t' \<and> evset_entries t' = []"
  by (auto simp: smon_evset_init_def evset_inv_def evset_entries_def slots_inv_def
      slots_entries_def MAX_EVSETS_def)

lemma evids_exist_spec:
  assumes "event_inv et"
  shows "evids_exist et es =
           Some (\<forall>e \<in> set es. nonneg e \<longrightarrow> unat e < length (event_entries et))"
  using assms by (induction es) (auto simp: event_get_spec not_less)

lemma evset_set_spec:
  assumes "evset_inv t" and "event_inv et"
  shows "\<exists>r t'. smon_set_evset a x et t = Some (r, t') \<and> evset_inv t' \<and>
           evset_entries t' = (if r = 0 then evset_entries t @ [x] else evset_entries t) \<and>
           (r = 0 \<longleftrightarrow> a \<and> evset_refs_ok et x \<and> length (evset_entries t) < 64)"
proof -
  from assms(1) obtain arr where arr: "evsets t = Some arr" "slots_inv 64 arr (unat (n_evsets t))"
    "unat (n_evsets t) \<le> 64" "evset_entries t = slots_entries arr (unat (n_evsets t))"
    "length (evset_entries t) = unat (n_evsets t)" by (rule evset_invE)
  have ev: "evids_exist et (evids x) = Some (evset_refs_ok et x)"
    using assms(2) by (simp add: evids_exist_spec evset_refs_ok_def)
  show ?thesis
  proof (cases "n_evsets t = MAX_EVSETS \<or> \<not> a \<or> \<not> evset_refs_ok et x")
    case True
    with assms arr ev show ?thesis
      by (auto simp: smon_set_evset_def sme_defs MAX_EVSETS_def)
  next
    case False
    with arr(3) have lt: "unat (n_evsets t) < 64"
      using unat_neq [of "n_evsets t" 64] by (auto simp: MAX_EVSETS_def)
    then have suc: "unat (n_evsets t + 1) = Suc (unat (n_evsets t))"
      by (simp add: unat_word_ariths)
    from slot_store_append [OF arr(2) lt, of x] obtain arr' where arr':
      "slot_store arr (unat (n_evsets t)) (Some x) = Some arr'"
      "slots_inv 64 arr' (Suc (unat (n_evsets t)))"
      "slots_entries arr' (Suc (unat (n_evsets t))) = slots_entries arr (unat (n_evsets t)) @ [x]"
      by blast
    with False arr lt suc ev show ?thesis
      by (simp add: smon_set_evset_def evset_inv_def evset_entries_def length_slots_entries)
  qed
qed

lemma evset_get_spec:
  assumes "evset_inv t"
  shows "smon_get_evset i t =
           Some (if unat i < length (evset_entries t) then Some (evset_entries t ! unat i) else None)"
  using assms
  by (elim evset_invE) (auto simp: smon_get_evset_def word_le_nat_alt slot_load_entries)

interpretation es: id_table 64 evset_inv evset_entries smon_get_evset smon_check_evset
    "\<lambda>a x t. smon_set_evset a x et t" "\<lambda>_. event_inv et" "evset_refs_ok et" for et
proof (unfold_locales, goal_cases)
  case 2 then show ?case by (auto elim: evset_invE)
next
  case 3 then show ?case by (rule evset_get_spec)
next
  case (4 t i) then show ?case
    by (elim evset_invE) (simp add: smon_check_evset_def sme_defs word_less_nat_alt)
next
  case 5 then show ?case by (intro evset_set_spec)
qed simp

lemma evset_exit_spec:
  assumes "evset_inv t"
  shows "smon_evset_exit t = Some (0, evset_table0)"
  using assms
  by (elim evset_invE) (auto simp: smon_evset_exit_def evset_table0_def slots_inv_def slots_clear_all)

section \<open>The two tables together\<close>

text \<open>
  The configuration of the module: both tables, changed only by the two registration ioctls. A
  registration is one step whatever it returns.
\<close>

record smon_config =
  ev_tab :: event_table
  es_tab :: evset_table

inductive config_step :: "smon_config \<Rightarrow> smon_config \<Rightarrow> bool" where
  set_event: "smon_set_event a e (ev_tab c) = Some (r, t) \<Longrightarrow>
     config_step c (c\<lparr>ev_tab := t\<rparr>)"
| set_evset: "smon_set_evset a s (ev_tab c) (es_tab c) = Some (r, t) \<Longrightarrow>
     config_step c (c\<lparr>es_tab := t\<rparr>)"

inductive_cases config_stepE: "config_step c c'"

definition config_inv :: "smon_config \<Rightarrow> bool" where
  "config_inv c \<longleftrightarrow> event_inv (ev_tab c) \<and> evset_inv (es_tab c) \<and>
     (\<forall>s \<in> set (evset_entries (es_tab c)). evset_refs_ok (ev_tab c) s)"

lemma evset_refs_ok_mono:
  "evset_refs_ok et s \<Longrightarrow> length (event_entries et) \<le> length (event_entries et') \<Longrightarrow>
     evset_refs_ok et' s"
  by (auto simp: evset_refs_ok_def)

lemma config_step_inv:
  assumes "config_step c c'" and "config_inv c"
  shows "config_inv c'"
  using assms
proof cases
  case (set_event a e r t)
  with assms(2) have "event_inv t" "length (event_entries (ev_tab c)) \<le> length (event_entries t)"
    by (auto simp: config_inv_def elim!: ev.addE)
  with assms(2) set_event show ?thesis
    by (auto simp: config_inv_def intro: evset_refs_ok_mono)
next
  case (set_evset a s r t)
  with assms(2) show ?thesis
    by (auto simp: config_inv_def elim!: es.addE split: if_splits)
qed

inductive config_reach :: "smon_config \<Rightarrow> bool" where
  config_start: "smon_event_init True event_table0 = (r, et) \<Longrightarrow>
     smon_evset_init True evset_table0 = (r', st) \<Longrightarrow>
     config_reach \<lparr>ev_tab = et, es_tab = st\<rparr>"
| config_next: "config_reach c \<Longrightarrow> config_step c c' \<Longrightarrow> config_reach c'"

lemma config_reach_inv: "config_reach c \<Longrightarrow> config_inv c"
proof (induction rule: config_reach.induct)
  case (config_start r et r' st)
  then show ?case
    using event_init_inv [of event_table0 r et] evset_init_inv [of evset_table0 r' st]
    by (auto simp: config_inv_def event_table0_def evset_table0_def)
next
  case (config_next c c')
  then show ?case by (blast intro: config_step_inv)
qed

end
