(* ===== verification/Envir.thy ===== *)
theory Envir
  imports Evset
begin

text \<open>
  \<^verbatim>\<open>driver/envir.c\<close>: the monitoring environment of a task, its reference count, its option
  flags and the round-robin choice of the next event-set.
\<close>

definition MUX_EVSETS :: nat where "MUX_EVSETS = 32"
definition DEFAULT_SAMPLE_TIME :: u32 where "DEFAULT_SAMPLE_TIME = 10"

definition ENVOP_INH :: u32 where "ENVOP_INH = 1"
definition ENVOP_EXE :: u32 where "ENVOP_EXE = 2"
definition ENVOP_RAP :: u32 where "ENVOP_RAP = 4"
definition ENVOP_CPU :: u32 where "ENVOP_CPU = 8"
definition ENVOP_FORK :: u32 where "ENVOP_FORK = 16"
definition ENVOP_SCHED :: u32 where "ENVOP_SCHED = 32"
definition ENVOP_STAT :: u32 where "ENVOP_STAT = 64"

lemmas envop_defs = ENVOP_INH_def ENVOP_EXE_def ENVOP_RAP_def ENVOP_CPU_def ENVOP_FORK_def
  ENVOP_SCHED_def ENVOP_STAT_def

text \<open>\<open>envir_count\<close> is the atomic reference count that only the kernel's copy has.\<close>

record smon_envir =
  esids :: "i32 list"
  n_esids :: u32
  sample_time :: u32
  batch_size :: u32
  options :: u32
  envir_count :: u32

definition envir_option_inherit :: "smon_envir \<Rightarrow> bool" where
  "envir_option_inherit e \<longleftrightarrow> options e AND ENVOP_INH \<noteq> 0"
definition envir_option_exec :: "smon_envir \<Rightarrow> bool" where
  "envir_option_exec e \<longleftrightarrow> options e AND ENVOP_EXE \<noteq> 0"
definition envir_option_rapl :: "smon_envir \<Rightarrow> bool" where
  "envir_option_rapl e \<longleftrightarrow> options e AND ENVOP_RAP \<noteq> 0"
definition envir_option_cpu :: "smon_envir \<Rightarrow> bool" where
  "envir_option_cpu e \<longleftrightarrow> options e AND ENVOP_CPU \<noteq> 0"
definition envir_option_fork :: "smon_envir \<Rightarrow> bool" where
  "envir_option_fork e \<longleftrightarrow> options e AND ENVOP_FORK \<noteq> 0"
definition envir_option_sched :: "smon_envir \<Rightarrow> bool" where
  "envir_option_sched e \<longleftrightarrow> options e AND ENVOP_SCHED \<noteq> 0"
definition envir_option_stat :: "smon_envir \<Rightarrow> bool" where
  "envir_option_stat e \<longleftrightarrow> options e AND ENVOP_STAT \<noteq> 0"

lemmas envir_option_defs = envir_option_inherit_def envir_option_exec_def envir_option_rapl_def
  envir_option_cpu_def envir_option_fork_def envir_option_sched_def envir_option_stat_def

text \<open>\<open>None\<close> is the NULL returned when \<^verbatim>\<open>kzalloc\<close> fails.\<close>

definition smon_create_envir :: "bool \<Rightarrow> smon_envir \<Rightarrow> smon_envir option" where
  "smon_create_envir alloc envir =
     (if \<not> alloc then None
      else
        let new = \<lparr>esids = esids envir, n_esids = n_esids envir,
                   sample_time = (if sample_time envir > 0 then sample_time envir
                                  else DEFAULT_SAMPLE_TIME),
                   batch_size = batch_size envir, options = options envir, envir_count = 0\<rparr>;
            new = (if envir_option_stat new
                   then new\<lparr>n_esids := 1,
                            options := options new AND NOT ENVOP_RAP AND NOT ENVOP_CPU
                                         AND NOT ENVOP_FORK AND NOT ENVOP_SCHED\<rparr>
                   else new)
        in Some (new\<lparr>envir_count := 1\<rparr>))"

definition smon_get_envir :: "smon_envir \<Rightarrow> smon_envir" where
  "smon_get_envir e = e\<lparr>envir_count := envir_count e + 1\<rparr>"

text \<open>\<open>None\<close>: the count reached zero and \<^verbatim>\<open>smon_destroy_envir\<close> freed the environment.\<close>

definition smon_release_envir :: "smon_envir \<Rightarrow> smon_envir option" where
  "smon_release_envir e =
     (let c = envir_count e - 1 in if c = 0 then None else Some (e\<lparr>envir_count := c\<rparr>))"

text \<open>
  Reading \<^verbatim>\<open>envir->esids[id]\<close>: the array has \<open>MUX_EVSETS\<close> elements, and the code does not
  compare \<open>n_esids\<close> with that bound. A read outside the array is a fault.
\<close>

definition envir_esid :: "smon_envir \<Rightarrow> i32 \<Rightarrow> i32 option" where
  "envir_esid e i = (if unat i < length (esids e) then Some (esids e ! unat i) else None)"

text \<open>The comparison of the \<open>int\<close> with the unsigned \<open>n_esids\<close> is unsigned.\<close>

definition smon_envir_get_evset ::
  "smon_envir \<Rightarrow> i32 \<Rightarrow> evset_table \<Rightarrow> smon_evset option option" where
  "smon_envir_get_evset e i t =
     (if i \<ge> n_esids e then Some None
      else do { s \<leftarrow> envir_esid e i; smon_get_evset s t })"

text \<open>The remainder by zero is a fault of the processor.\<close>

definition smon_envir_next_evset :: "smon_envir \<Rightarrow> i32 \<Rightarrow> i32 option" where
  "smon_envir_next_evset e i = (if n_esids e = 0 then None else Some ((i + 1) mod n_esids e))"

section \<open>Well-formed environments\<close>

definition envir_wf :: "smon_envir \<Rightarrow> bool" where
  "envir_wf e \<longleftrightarrow> length (esids e) = MUX_EVSETS \<and> 0 < unat (n_esids e) \<and>
     unat (n_esids e) \<le> MUX_EVSETS"

text \<open>The event-sets of the environment are registered.\<close>

definition envir_refs_ok :: "evset_table \<Rightarrow> smon_envir \<Rightarrow> bool" where
  "envir_refs_ok t e \<longleftrightarrow>
     (\<forall>i < unat (n_esids e). unat (esids e ! i) < length (evset_entries t))"

lemma create_envir_fields:
  assumes "smon_create_envir a e = Some e'"
  shows "envir_count e' = 1" "esids e' = esids e" "batch_size e' = batch_size e"
    "sample_time e' \<noteq> 0"
    "n_esids e' = (if envir_option_stat e then 1 else n_esids e)"
    "options e' = (if envir_option_stat e
       then options e AND NOT ENVOP_RAP AND NOT ENVOP_CPU AND NOT ENVOP_FORK AND NOT ENVOP_SCHED
       else options e)"
  using assms
  by (auto simp: smon_create_envir_def Let_def envir_option_stat_def DEFAULT_SAMPLE_TIME_def
      word_neq_0_conv split: if_splits)

lemma create_envir_wf:
  assumes "smon_create_envir a e = Some e'" and "envir_wf e"
  shows "envir_wf e'"
  using assms(2) create_envir_fields [OF assms(1)]
  by (auto simp: envir_wf_def MUX_EVSETS_def)

lemma create_envir_refs_ok:
  assumes "smon_create_envir a e = Some e'" and "envir_wf e" and "envir_refs_ok t e"
  shows "envir_refs_ok t e'"
  using assms(2,3) create_envir_fields [OF assms(1)]
  by (auto simp: envir_wf_def envir_refs_ok_def)

lemma and_not_bit_0:
  fixes x :: u32
  shows "(x AND NOT m) AND m = 0"
  by (simp add: bit_eq_iff bit_simps)

lemma create_envir_stat:
  assumes "smon_create_envir a e = Some e'" and "envir_option_stat e"
  shows "envir_option_stat e' \<and> n_esids e' = 1 \<and> \<not> envir_option_rapl e' \<and>
    \<not> envir_option_cpu e' \<and> \<not> envir_option_fork e' \<and> \<not> envir_option_sched e' \<and>
    envir_option_inherit e' = envir_option_inherit e \<and>
    envir_option_exec e' = envir_option_exec e"
proof -
  note f = create_envir_fields [OF assms(1)]
  have o: "options e' = options e AND NOT 4 AND NOT 8 AND NOT 16 AND NOT 32"
    using f(6) assms(2) by (simp add: envop_defs)
  have keep: "options e' AND m = options e AND m" if "m = 1 \<or> m = 2 \<or> m = 64" for m
    unfolding o using that by (elim disjE) (simp_all add: and.assoc)
  have drop: "options e' AND m = 0" if "m = 4 \<or> m = 8 \<or> m = 16 \<or> m = 32" for m
    unfolding o using that by (elim disjE) (simp_all add: and.assoc)
  show ?thesis
    using f(5) assms(2) keep [of 1] keep [of 2] keep [of 64] drop [of 4] drop [of 8] drop [of 16]
      drop [of 32]
    by (simp add: envir_option_defs envop_defs)
qed

lemma next_evset_in_range:
  assumes "envir_wf e"
  obtains j where "smon_envir_next_evset e i = Some j" "unat j < unat (n_esids e)"
proof -
  have "n_esids e \<noteq> 0" using assms by (auto simp: envir_wf_def)
  moreover from this have "unat ((i + 1) mod n_esids e) < unat (n_esids e)"
    by (simp add: unat_mod unat_gt_0)
  ultimately show thesis using that by (simp add: smon_envir_next_evset_def)
qed

lemma envir_get_evset_spec:
  assumes "envir_wf e" and "envir_refs_ok t e" and "evset_inv t" and "unat i < unat (n_esids e)"
  obtains s where "smon_envir_get_evset e i t = Some (Some s)"
    "envir_esid e i = Some (esids e ! unat i)"
    "smon_get_evset (esids e ! unat i) t = Some (Some s)" "s \<in> set (evset_entries t)"
  using assms that [of "evset_entries t ! unat (esids e ! unat i)"]
  by (auto simp: smon_envir_get_evset_def envir_esid_def envir_wf_def envir_refs_ok_def
      evset_get_spec word_le_nat_alt not_le)

text \<open>Advancing \<open>k\<close> times from the first event-set.\<close>

fun evset_after :: "smon_envir \<Rightarrow> nat \<Rightarrow> i32 option" where
  "evset_after e 0 = Some 0"
| "evset_after e (Suc k) = evset_after e k \<bind> smon_envir_next_evset e"

lemma evset_after_round_robin:
  assumes "envir_wf e"
  shows "\<exists>j. evset_after e k = Some j \<and> unat j = k mod unat (n_esids e)"
proof (induction k)
  case (Suc k)
  then obtain j where j: "evset_after e k = Some j" "unat j = k mod unat (n_esids e)" by blast
  have n: "0 < unat (n_esids e)" "unat (n_esids e) \<le> 32"
    using assms by (auto simp: envir_wf_def MUX_EVSETS_def)
  then have "k mod unat (n_esids e) < 32"
    by (meson less_le_trans mod_less_divisor)
  with j(2) have "unat (j + 1) = Suc (unat j)" by (simp add: unat_word_ariths)
  with n j show ?case
    by (auto simp: smon_envir_next_evset_def unat_mod mod_Suc_eq)
qed simp

end
