(* ===== verification/Msr.thy ===== *)
theory Msr
  imports Prelude
begin

text \<open>
  \<^verbatim>\<open>driver/msr.c\<close>: access to the model-specific registers and the time-stamp counter. The
  processor is a record: the register file of every CPU, the CPU that executes, and the values
  that successive executions of the \<^verbatim>\<open>rdtsc\<close> instruction return, which are the hardware's
  choice.
\<close>

record smon_mach =
  regs :: "u32 \<Rightarrow> i32 \<Rightarrow> u64"
  cpu_id :: u32
  tsc_src :: "nat \<Rightarrow> u64"
  tsc_n :: nat

text \<open>The instructions: the register is split into, or made of, \<open>edx:eax\<close>.\<close>

definition rdmsr :: "i32 \<Rightarrow> smon_mach \<Rightarrow> u32 \<times> u32" where
  "rdmsr num m = (let v = regs m (cpu_id m) num in (ucast v, ucast (drop_bit 32 v)))"

definition wrmsr :: "i32 \<Rightarrow> u32 \<Rightarrow> u32 \<Rightarrow> smon_mach \<Rightarrow> smon_mach" where
  "wrmsr num lo hi m =
     m\<lparr>regs := (regs m)(cpu_id m := (regs m (cpu_id m))(num := ucast lo OR push_bit 32 (ucast hi)))\<rparr>"

definition rdtsc_insn :: "smon_mach \<Rightarrow> (u32 \<times> u32) \<times> smon_mach" where
  "rdtsc_insn m =
     (let v = tsc_src m (tsc_n m)
      in ((ucast v, ucast (drop_bit 32 v)), m\<lparr>tsc_n := Suc (tsc_n m)\<rparr>))"

definition msr_read :: "i32 \<Rightarrow> smon_mach \<Rightarrow> i64" where
  "msr_read num m = (let (lo, hi) = rdmsr num m in ucast lo OR push_bit 32 (ucast hi))"

definition msr_write :: "i32 \<Rightarrow> i64 \<Rightarrow> smon_mach \<Rightarrow> smon_mach" where
  "msr_write num val m =
     (let hi = ucast (signed_drop_bit 32 val); lo = ucast (val AND 0x00000000FFFFFFFF)
      in wrmsr num lo hi m)"

definition msr_rdtsc :: "smon_mach \<Rightarrow> i64 \<times> smon_mach" where
  "msr_rdtsc m = (let ((a, d), m') = rdtsc_insn m in (push_bit 32 (ucast d) OR ucast a, m'))"

definition MSR_PLATFORM_INFO :: i32 where "MSR_PLATFORM_INFO = 0xCE"

definition msr_tsc_frequency :: "smon_mach \<Rightarrow> u32" where
  "msr_tsc_frequency m = ucast (drop_bit 8 (msr_read MSR_PLATFORM_INFO m) AND 0xFF)"

section \<open>The halves are put together as they were\<close>

lemma join_split_64: "ucast (ucast (v :: u64) :: u32) OR push_bit 32 (ucast (ucast (drop_bit 32 v) :: u32)) = v"
  by (rule bit_word_eqI) (auto simp: bit_simps)

lemma low_half_64: "(ucast ((v :: u64) AND 0x00000000FFFFFFFF) :: u32) = ucast v"
proof -
  have "v AND 0x00000000FFFFFFFF = take_bit 32 v"
    by (simp add: take_bit_eq_mask mask_eq_exp_minus_1)
  moreover have "(ucast (take_bit 32 v) :: u32) = ucast v"
    by (rule bit_word_eqI) (auto simp: bit_simps)
  ultimately show ?thesis by metis
qed

lemma high_half_64: "(ucast (signed_drop_bit 32 (v :: u64)) :: u32) = ucast (drop_bit 32 v)"
  by (rule bit_word_eqI) (auto simp: bit_simps)

lemma msr_read_regs: "msr_read num m = regs m (cpu_id m) num"
  by (simp add: msr_read_def rdmsr_def Let_def join_split_64)

lemma msr_write_regs:
  "msr_write num val m = m\<lparr>regs := (regs m)(cpu_id m := (regs m (cpu_id m))(num := val))\<rparr>"
  by (simp add: msr_write_def wrmsr_def Let_def low_half_64 high_half_64 join_split_64)

lemma msr_rdtsc_eq: "msr_rdtsc m = (tsc_src m (tsc_n m), m\<lparr>tsc_n := Suc (tsc_n m)\<rparr>)"
  by (simp add: msr_rdtsc_def rdtsc_insn_def Let_def or.commute [of "push_bit 32 _"] join_split_64)

lemma msr_read_write:
  "msr_read n (msr_write k v m) = (if n = k then v else msr_read n m)"
  by (simp add: msr_read_regs msr_write_regs)

lemma msr_write_frame [simp]:
  "cpu_id (msr_write k v m) = cpu_id m"
  "tsc_src (msr_write k v m) = tsc_src m"
  "tsc_n (msr_write k v m) = tsc_n m"
  by (simp_all add: msr_write_regs)

lemma msr_rdtsc_frame [simp]:
  "regs (snd (msr_rdtsc m)) = regs m"
  "cpu_id (snd (msr_rdtsc m)) = cpu_id m"
  by (simp_all add: msr_rdtsc_eq)

text \<open>A write touches one register of the executing CPU only.\<close>

lemma msr_write_other_cpu:
  "c \<noteq> cpu_id m \<Longrightarrow> regs (msr_write k v m) c = regs m c"
  by (simp add: msr_write_regs)

end
