(* ===== verification/Rapl.thy ===== *)
theory Rapl
  imports Msr
begin

text \<open>
  \<^verbatim>\<open>driver/rapl.c\<close>: the energy counters and their units.
\<close>

definition MSR_RAPL_POWER_UNIT :: i32 where "MSR_RAPL_POWER_UNIT = 0x606"
definition MSR_PKG_ENERGY_STATUS :: i32 where "MSR_PKG_ENERGY_STATUS = 0x611"
definition MSR_PP0_ENERGY_STATUS :: i32 where "MSR_PP0_ENERGY_STATUS = 0x639"
definition MSR_PP1_ENERGY_STATUS :: i32 where "MSR_PP1_ENERGY_STATUS = 0x641"

record smon_rapl =
  pkg :: i64
  pp0 :: i64
  pp1 :: i64

text \<open>
  The units part of the information sample. The shifted constant is an \<^verbatim>\<open>int\<close> that is then
  widened with its sign.
\<close>

record rapl_units =
  power_units :: i64
  energy_units :: i64
  time_units :: i64

definition int_shift_1 :: "nat \<Rightarrow> i64" where
  "int_shift_1 n = scast (push_bit n (1 :: i32))"

definition smon_rapl_get_info :: "smon_mach \<Rightarrow> rapl_units" where
  "smon_rapl_get_info m =
     (let units_info = msr_read MSR_RAPL_POWER_UNIT m
      in \<lparr>power_units = int_shift_1 (unat (units_info AND 0xf)),
          energy_units = int_shift_1 (unat (signed_drop_bit 8 units_info AND 0x1f)),
          time_units = int_shift_1 (unat (signed_drop_bit 16 units_info AND 0xf))\<rparr>)"

definition smon_rapl_read :: "smon_mach \<Rightarrow> smon_rapl" where
  "smon_rapl_read m =
     \<lparr>pkg = msr_read MSR_PKG_ENERGY_STATUS m,
      pp0 = msr_read MSR_PP0_ENERGY_STATUS m,
      pp1 = msr_read MSR_PP1_ENERGY_STATUS m\<rparr>"

definition smon_rapl_sub :: "smon_rapl \<Rightarrow> smon_rapl \<Rightarrow> smon_rapl" where
  "smon_rapl_sub a b = \<lparr>pkg = pkg a - pkg b, pp0 = pp0 a - pp0 b, pp1 = pp1 a - pp1 b\<rparr>"

section \<open>Units\<close>

lemma sint_int_shift_1:
  assumes "n < 31"
  shows "sint (int_shift_1 n) = 2 ^ n"
proof -
  have "list_all (\<lambda>n. sint (int_shift_1 n) = 2 ^ n) [0..<31]" by code_simp
  then show ?thesis using assms by (simp add: list_all_iff)
qed

lemma int_shift_1_31: "sint (int_shift_1 31) = - (2 ^ 31)"
  by (simp add: int_shift_1_def)

lemma unit_exponent_bound: "unat ((x :: u64) AND 0xf) < 16" "unat ((x :: u64) AND 0x1f) < 32"
proof -
  have "(0xf :: u64) = mask 4" "(0x1f :: u64) = mask 5" by (simp_all add: mask_eq_exp_minus_1)
  then have "unat (x AND 0xf) = unat x mod 2 ^ 4" "unat (x AND 0x1f) = unat x mod 2 ^ 5"
    by (metis unat_and_mask)+
  then show "unat (x AND 0xf) < 16" "unat (x AND 0x1f) < 32" by simp_all
qed

lemma rapl_sub_add:
  "pkg (smon_rapl_sub a b) + pkg b = pkg a" "pp0 (smon_rapl_sub a b) + pp0 b = pp0 a"
  "pp1 (smon_rapl_sub a b) + pp1 b = pp1 a"
  by (simp_all add: smon_rapl_sub_def)

end
