(* ===== verification/Ring_Buffer.thy ===== *)
theory Ring_Buffer
  imports Prelude
begin

text \<open>
  \<^verbatim>\<open>driver/rb.c\<close>: the ring buffer that carries the samples from the kernel to the
  monitoring program. The data pages are a function from page and offset to bytes; a copy that
  would leave a data page is a fault. Interrupt work queued to wake the reader is the flag
  \<open>rb_irq\<close>. The macros compute on \<^verbatim>\<open>unsigned int\<close>; those that mix in the
  \<^verbatim>\<open>unsigned long\<close> constant \<^verbatim>\<open>PAGE_SIZE\<close> are truncated to it when stored,
  and their values stay below \<open>2\<^sup>3\<^sup>2\<close> for the sizes \<^verbatim>\<open>smon_create_rb\<close> admits.
\<close>

section \<open>Sample types\<close>

definition SAMPLE_TYPE_PMC :: u32 where "SAMPLE_TYPE_PMC = 1"
definition SAMPLE_TYPE_RAPL :: u32 where "SAMPLE_TYPE_RAPL = 2"
definition SAMPLE_TYPE_CPU :: u32 where "SAMPLE_TYPE_CPU = 3"
definition SAMPLE_TYPE_SCHED :: u32 where "SAMPLE_TYPE_SCHED = 4"
definition SAMPLE_TYPE_FORK :: u32 where "SAMPLE_TYPE_FORK = 5"
definition SAMPLE_TYPE_INFO :: u32 where "SAMPLE_TYPE_INFO = 6"
definition SAMPLE_TYPE_PAD :: u32 where "SAMPLE_TYPE_PAD = 7"
definition SAMPLE_TYPE_EOF :: u32 where "SAMPLE_TYPE_EOF = 8"

lemmas sample_type_defs = SAMPLE_TYPE_PMC_def SAMPLE_TYPE_RAPL_def SAMPLE_TYPE_CPU_def
  SAMPLE_TYPE_SCHED_def SAMPLE_TYPE_FORK_def SAMPLE_TYPE_INFO_def SAMPLE_TYPE_PAD_def
  SAMPLE_TYPE_EOF_def

text \<open>The sizes of the sample structs on a 64-bit machine, alignment padding included.\<close>

definition header_size :: nat where "header_size = 4"
definition sizeof_pmc :: nat where "sizeof_pmc = 96"
definition sizeof_rapl :: nat where "sizeof_rapl = 40"
definition sizeof_cpu :: nat where "sizeof_cpu = 24"
definition sizeof_sched :: nat where "sizeof_sched = 24"
definition sizeof_fork :: nat where "sizeof_fork = 16"
definition sizeof_info :: nat where "sizeof_info = 56"

lemmas sizeof_defs = sizeof_pmc_def sizeof_rapl_def sizeof_cpu_def sizeof_sched_def
  sizeof_fork_def sizeof_info_def

text \<open>The switch of \<^verbatim>\<open>smon_rb_write\<close>; \<open>None\<close> is the default case.\<close>

definition sample_size_of :: "u32 \<Rightarrow> nat option" where
  "sample_size_of ty =
     (if ty = SAMPLE_TYPE_PMC then Some sizeof_pmc
      else if ty = SAMPLE_TYPE_RAPL then Some sizeof_rapl
      else if ty = SAMPLE_TYPE_CPU then Some sizeof_cpu
      else if ty = SAMPLE_TYPE_SCHED then Some sizeof_sched
      else if ty = SAMPLE_TYPE_FORK then Some sizeof_fork
      else if ty = SAMPLE_TYPE_INFO then Some sizeof_info
      else if ty = SAMPLE_TYPE_EOF then Some 0
      else None)"

section \<open>The buffer and its macros\<close>

record smon_ring_buffer =
  rb_n_pages :: u32
  rb_size :: u32
  rb_data :: "nat \<Rightarrow> nat \<Rightarrow> u8"
  rb_head :: u32
  rb_tail :: u32
  rb_items :: u32
  rb_batch :: u32
  rb_active :: u32
  rb_irq :: bool

definition PAGE_SHIFT :: nat where "PAGE_SHIFT = 12"
definition PAGE_SIZE :: u32 where "PAGE_SIZE = 4096"
definition SMON_MAX_PAGES :: u32 where "SMON_MAX_PAGES = 1024"
definition RB_DEFAULT_BATCH :: u32 where "RB_DEFAULT_BATCH = 1"

definition RB_PAGEMASK :: "smon_ring_buffer \<Rightarrow> u32" where
  "RB_PAGEMASK rb = rb_n_pages rb - 1"

definition HEAD_PAGE :: "u32 \<Rightarrow> u32" where
  "HEAD_PAGE head = drop_bit PAGE_SHIFT head"

definition HEAD_OFFSET :: "u32 \<Rightarrow> u32" where
  "HEAD_OFFSET head = head AND (PAGE_SIZE - 1)"

definition RB_COUNT_of :: "u32 \<Rightarrow> u32 \<Rightarrow> u32 \<Rightarrow> u32" where
  "RB_COUNT_of head tail sz = (head - tail) AND (sz - 1)"

definition RB_COUNT :: "smon_ring_buffer \<Rightarrow> u32" where
  "RB_COUNT rb = RB_COUNT_of (rb_head rb) (rb_tail rb) (rb_size rb)"

definition RB_SPACE_of :: "u32 \<Rightarrow> u32 \<Rightarrow> u32 \<Rightarrow> u32" where
  "RB_SPACE_of head tail sz = RB_COUNT_of tail (head + 1) sz"

definition RB_SPACE :: "smon_ring_buffer \<Rightarrow> u32" where
  "RB_SPACE rb = RB_SPACE_of (rb_head rb) (rb_tail rb) (rb_size rb)"

definition RB_PAGE_SPACE :: "smon_ring_buffer \<Rightarrow> u32" where
  "RB_PAGE_SPACE rb = PAGE_SIZE - HEAD_OFFSET (rb_head rb)"

definition RB_NEXT_PAGE :: "smon_ring_buffer \<Rightarrow> u32 \<Rightarrow> u32" where
  "RB_NEXT_PAGE rb page = (page + 1) AND RB_PAGEMASK rb"

definition HEAD_TRIM_PAGE :: "smon_ring_buffer \<Rightarrow> u32 \<Rightarrow> u32" where
  "HEAD_TRIM_PAGE rb head = head AND (push_bit PAGE_SHIFT (RB_PAGEMASK rb) OR (PAGE_SIZE - 1))"

section \<open>Creating and destroying the buffer\<close>

text \<open>
  Freeing the data pages after the allocation of page \<open>i\<close> failed: the loop
  \<^verbatim>\<open>while (--i)\<close> from \<open>i\<close>. With \<open>i = 0\<close> the first test reads \<open>-1\<close>, which is not zero,
  and the body indexes the array at \<open>-1\<close>: a fault. The result is the pages freed.
\<close>

fun free_pages_down :: "nat \<Rightarrow> nat list option" where
  "free_pages_down 0 = None"
| "free_pages_down (Suc 0) = Some []"
| "free_pages_down (Suc (Suc i)) = map_option ((#) (Suc i)) (free_pages_down (Suc i))"

text \<open>
  The outcome of \<^verbatim>\<open>smon_create_rb\<close>: the buffer or NULL, and the data pages that stay
  allocated. The allocations of the buffer, of the page array and of the \<open>i\<close>-th page succeed as
  the arguments say; a fresh page holds the bytes \<open>junk\<close>.
\<close>

fun first_failure :: "(nat \<Rightarrow> bool) \<Rightarrow> nat \<Rightarrow> nat option" where
  "first_failure ok 0 = None"
| "first_failure ok (Suc n) =
     (case first_failure ok n of Some i \<Rightarrow> Some i | None \<Rightarrow> if ok n then None else Some n)"

definition smon_create_rb ::
  "bool \<Rightarrow> bool \<Rightarrow> (nat \<Rightarrow> bool) \<Rightarrow> (nat \<Rightarrow> nat \<Rightarrow> u8) \<Rightarrow> u32 \<Rightarrow>
     (smon_ring_buffer option \<times> nat list) option" where
  "smon_create_rb rb_ok data_ok page_ok junk n_pages =
     (if n_pages > SMON_MAX_PAGES then Some (None, [])
      else if \<not> rb_ok then Some (None, [])
      else if \<not> data_ok then Some (None, [])
      else case first_failure page_ok (unat n_pages) of
        Some i \<Rightarrow>
          do {
            freed \<leftarrow> free_pages_down i;
            Some (None, filter (\<lambda>p. p \<notin> set freed) [0..<i])
          }
      | None \<Rightarrow>
          Some (Some \<lparr>rb_n_pages = n_pages, rb_size = n_pages * PAGE_SIZE, rb_data = junk,
                      rb_head = 0, rb_tail = 0, rb_items = 0, rb_batch = RB_DEFAULT_BATCH,
                      rb_active = 0, rb_irq = False\<rparr>,
                [0..<unat n_pages]))"

text \<open>The pages freed by \<^verbatim>\<open>smon_destroy_rb\<close>.\<close>

definition smon_destroy_rb :: "smon_ring_buffer \<Rightarrow> nat list" where
  "smon_destroy_rb rb = [0..<unat (rb_n_pages rb)]"

section \<open>Reading the state\<close>

definition smon_rb_is_active :: "smon_ring_buffer \<Rightarrow> bool" where
  "smon_rb_is_active rb \<longleftrightarrow> 0 < sint (rb_active rb)"

definition smon_rb_is_full :: "smon_ring_buffer \<Rightarrow> bool" where
  "smon_rb_is_full rb \<longleftrightarrow> RB_SPACE rb = 0"

definition smon_rb_is_empty :: "smon_ring_buffer \<Rightarrow> bool" where
  "smon_rb_is_empty rb \<longleftrightarrow> RB_COUNT rb = 0"

definition smon_rb_batch_available :: "smon_ring_buffer \<Rightarrow> bool" where
  "smon_rb_batch_available rb \<longleftrightarrow> rb_items rb \<ge> rb_batch rb"

text \<open>\<open>None\<close> is the NULL returned for a page out of range.\<close>

definition smon_rb_get_page :: "smon_ring_buffer \<Rightarrow> u32 \<Rightarrow> (nat \<Rightarrow> u8) option" where
  "smon_rb_get_page rb i = (if i < rb_n_pages rb then Some (rb_data rb (unat i)) else None)"

section \<open>Writing\<close>

definition page_write :: "nat \<Rightarrow> nat \<Rightarrow> u8 list \<Rightarrow> (nat \<Rightarrow> nat \<Rightarrow> u8) \<Rightarrow> nat \<Rightarrow> nat \<Rightarrow> u8" where
  "page_write page off bs d =
     d(page := (\<lambda>k. if off \<le> k \<and> k < off + length bs then bs ! (k - off) else d page k))"

definition rb_copy :: "u32 \<Rightarrow> u32 \<Rightarrow> u8 list \<Rightarrow> smon_ring_buffer \<Rightarrow> smon_ring_buffer option" where
  "rb_copy page off bs rb =
     (if unat page < unat (rb_n_pages rb) \<and> unat off + length bs \<le> 4096
      then Some (rb\<lparr>rb_data := page_write (unat page) (unat off) bs (rb_data rb)\<rparr>)
      else None)"

definition smon_rb_stuff_page :: "smon_ring_buffer \<Rightarrow> smon_ring_buffer option" where
  "smon_rb_stuff_page rb =
     (let page = HEAD_PAGE (rb_head rb); offset = HEAD_OFFSET (rb_head rb)
      in do {
        rb \<leftarrow> rb_copy page offset (le_bytes header_size SAMPLE_TYPE_PAD) rb;
        Some (rb\<lparr>rb_head := 0 OR push_bit PAGE_SHIFT (RB_NEXT_PAGE rb page)\<rparr>)
      })"

text \<open>The part of \<^verbatim>\<open>smon_rb_write\<close> that copies the sample and moves the head.\<close>

definition rb_put :: "u32 \<Rightarrow> u8 list \<Rightarrow> nat \<Rightarrow> smon_ring_buffer \<Rightarrow> smon_ring_buffer option" where
  "rb_put ty sample sample_size rb =
     (let page = HEAD_PAGE (rb_head rb); offset = HEAD_OFFSET (rb_head rb);
          total_size = sample_size + header_size
      in do {
        rb \<leftarrow> rb_copy page offset (le_bytes header_size ty) rb;
        rb \<leftarrow> (if sample_size > 0
              then rb_copy page (offset + of_nat header_size) (take sample_size sample) rb
              else Some rb);
        let rb = rb\<lparr>rb_head := rb_head rb + of_nat total_size\<rparr>;
        let rb = rb\<lparr>rb_head := HEAD_TRIM_PAGE rb (rb_head rb)\<rparr>;
        let rb = rb\<lparr>rb_items := rb_items rb + 1\<rparr>;
        Some (if rb_items rb \<ge> rb_batch rb then rb\<lparr>rb_irq := True\<rparr> else rb)
      })"

definition smon_rb_write :: "u32 \<Rightarrow> u8 list \<Rightarrow> smon_ring_buffer \<Rightarrow> smon_ring_buffer option" where
  "smon_rb_write ty sample rb =
     (case sample_size_of ty of
        None \<Rightarrow> Some rb
      | Some sample_size \<Rightarrow>
          let total_size = of_nat (sample_size + header_size) in
          if total_size > RB_SPACE rb then Some rb
          else if total_size > RB_PAGE_SPACE rb then
            do {
              rb \<leftarrow> smon_rb_stuff_page rb;
              if total_size > RB_SPACE rb then Some rb else rb_put ty sample sample_size rb
            }
          else rb_put ty sample sample_size rb)"

definition smon_rb_write_eof :: "smon_ring_buffer \<Rightarrow> smon_ring_buffer option" where
  "smon_rb_write_eof rb = smon_rb_write SAMPLE_TYPE_EOF [] rb"

section \<open>Consuming, and the count of writers\<close>

definition smon_rb_read :: "u32 \<Rightarrow> u32 \<Rightarrow> smon_ring_buffer \<Rightarrow> smon_ring_buffer" where
  "smon_rb_read items sz rb =
     (let rb = (if sz > RB_COUNT rb then rb\<lparr>rb_tail := rb_head rb\<rparr>
                else let rb = rb\<lparr>rb_tail := rb_tail rb + sz\<rparr>
                     in rb\<lparr>rb_tail := HEAD_TRIM_PAGE rb (rb_tail rb)\<rparr>)
      in if items > rb_items rb then rb\<lparr>rb_items := 0\<rparr>
         else rb\<lparr>rb_items := rb_items rb - items\<rparr>)"

definition smon_get_rb :: "smon_ring_buffer \<Rightarrow> smon_ring_buffer" where
  "smon_get_rb rb = rb\<lparr>rb_active := rb_active rb + 1\<rparr>"

definition smon_release_rb :: "smon_ring_buffer \<Rightarrow> smon_ring_buffer option" where
  "smon_release_rb rb =
     (let rb = rb\<lparr>rb_active := rb_active rb - 1\<rparr>
      in if rb_active rb = 0
         then do { rb \<leftarrow> smon_rb_write_eof rb; Some (rb\<lparr>rb_irq := True\<rparr>) }
         else Some rb)"

text \<open>The queued interrupt work: it wakes the readers that wait on \<^verbatim>\<open>inq\<close>.\<close>

definition smon_wake_up_reader :: "smon_ring_buffer \<Rightarrow> smon_ring_buffer" where
  "smon_wake_up_reader rb = rb\<lparr>rb_irq := False\<rparr>"

end
