(* ===== verification/Ring_Layout.thy ===== *)
theory Ring_Layout
  imports Ring_Buffer "HOL-Library.Sublist"
begin

text \<open>
  What the bytes between the tail and the head of the ring buffer mean: a sequence of records, a
  record being a header and a sample in one page, and of pads that close a page early. The
  operations of \<^verbatim>\<open>driver/rb.c\<close> are shown to be those of a bounded queue of records.
\<close>

section \<open>The geometry of the buffer\<close>

definition rb_geom :: "smon_ring_buffer \<Rightarrow> bool" where
  "rb_geom rb \<longleftrightarrow>
     (\<exists>k \<in> {1..10}. unat (rb_n_pages rb) = 2 ^ k) \<and>
     unat (rb_size rb) = 4096 * unat (rb_n_pages rb) \<and>
     unat (rb_head rb) < unat (rb_size rb) \<and> unat (rb_tail rb) < unat (rb_size rb) \<and>
     4 dvd unat (rb_head rb) \<and> 4 dvd unat (rb_tail rb)"

definition rb_cap :: "smon_ring_buffer \<Rightarrow> nat" where
  "rb_cap rb = unat (rb_size rb)"

lemma rb_geomE:
  assumes "rb_geom rb"
  obtains k where "1 \<le> k" "k \<le> 10" "unat (rb_n_pages rb) = 2 ^ k" "rb_n_pages rb = 2 ^ k"
    "rb_size rb = 2 ^ (12 + k)" "rb_cap rb = 2 ^ (12 + k)"
proof -
  from assms obtain k where k: "1 \<le> k" "k \<le> 10" "unat (rb_n_pages rb) = 2 ^ k"
    by (auto simp: rb_geom_def)
  have "unat (rb_size rb) = 4096 * 2 ^ k" using assms k by (simp add: rb_geom_def)
  then have s: "unat (rb_size rb) = 2 ^ (12 + k)" by (simp only: power_add) simp
  show thesis
    using k s by (intro that [of k]) (auto simp: rb_cap_def intro: word_eq_exp_if_unat)
qed

lemma rb_geom_bounds:
  assumes "rb_geom rb"
  shows "unat (rb_head rb) < rb_cap rb" "unat (rb_tail rb) < rb_cap rb"
    "4 dvd unat (rb_head rb)" "4 dvd unat (rb_tail rb)"
    "rb_cap rb = 4096 * unat (rb_n_pages rb)" "4096 dvd rb_cap rb" "4 dvd rb_cap rb"
    "8192 \<le> rb_cap rb" "rb_cap rb \<le> 4194304"
proof -
  from assms show b: "unat (rb_head rb) < rb_cap rb" "unat (rb_tail rb) < rb_cap rb"
    "4 dvd unat (rb_head rb)" "4 dvd unat (rb_tail rb)" "rb_cap rb = 4096 * unat (rb_n_pages rb)"
    by (auto simp: rb_geom_def rb_cap_def)
  from b(5) show "4096 dvd rb_cap rb" by simp
  then show "4 dvd rb_cap rb" by (rule dvd_trans [rotated]) simp
  from assms obtain k where k: "1 \<le> k" "k \<le> 10" "rb_cap rb = 2 ^ (12 + k)" by (rule rb_geomE)
  have "(2::nat) ^ 13 \<le> rb_cap rb"
    unfolding k(3) by (rule power_increasing) (use k(1) in auto)
  moreover have "rb_cap rb \<le> (2::nat) ^ 22"
    unfolding k(3) by (rule power_increasing) (use k(2) in auto)
  ultimately show "8192 \<le> rb_cap rb" "rb_cap rb \<le> 4194304" by simp_all
qed

lemma trim_mask: "push_bit 12 (mask k) OR mask 12 = (mask (12 + k) :: u32)"
  by (rule bit_word_eqI) (auto simp: bit_simps)

lemma page_mask: "PAGE_SIZE - 1 = mask 12"
  by (simp add: PAGE_SIZE_def mask_eq_exp_minus_1)

lemma pagemask_exp: "rb_n_pages rb = 2 ^ k \<Longrightarrow> RB_PAGEMASK rb = mask k"
  by (simp add: RB_PAGEMASK_def exp_minus_1_mask)

lemma unat_head_page: "unat (HEAD_PAGE h) = unat h div 4096"
  unfolding HEAD_PAGE_def PAGE_SHIFT_def unat_drop_bit_eq by (simp add: drop_bit_eq_div)

lemma unat_head_offset: "unat (HEAD_OFFSET h) = unat h mod 4096"
  unfolding HEAD_OFFSET_def page_mask unat_and_mask by simp

lemma unat_page_space: "unat (RB_PAGE_SPACE rb) = 4096 - unat (rb_head rb) mod 4096"
proof -
  have "HEAD_OFFSET (rb_head rb) \<le> PAGE_SIZE"
    by (simp add: word_le_nat_alt unat_head_offset PAGE_SIZE_def)
  then show ?thesis
    by (simp add: RB_PAGE_SPACE_def unat_sub unat_head_offset PAGE_SIZE_def)
qed

lemma unat_count:
  assumes "rb_geom rb"
  shows "unat (RB_COUNT rb) = (unat (rb_head rb) + rb_cap rb - unat (rb_tail rb)) mod rb_cap rb"
proof -
  from assms obtain k where k: "k \<le> 10" "rb_size rb = 2 ^ (12 + k)" "rb_cap rb = 2 ^ (12 + k)"
    by (rule rb_geomE)
  have t: "unat (rb_tail rb) \<le> 2 ^ (12 + k)" using rb_geom_bounds(2) [OF assms] k(3) by simp
  have l: "12 + k \<le> LENGTH(32)" using k(1) by simp
  show ?thesis
    unfolding RB_COUNT_def RB_COUNT_of_def k(2,3) exp_minus_1_mask unat_and_mask
    by (rule unat_diff_mod_exp [OF l t])
qed

lemma unat_space:
  assumes "rb_geom rb"
  shows "unat (RB_SPACE rb) = rb_cap rb - 1 - unat (RB_COUNT rb)"
proof -
  from assms obtain k where k: "k \<le> 10" "rb_size rb = 2 ^ (12 + k)" "rb_cap rb = 2 ^ (12 + k)"
    by (rule rb_geomE)
  define h t S where "h = unat (rb_head rb)" and "t = unat (rb_tail rb)" and "S = rb_cap rb"
  have b: "h < S" "t < S" "S \<le> 4194304"
    using rb_geom_bounds [OF assms] by (auto simp: h_def t_def S_def)
  have h1: "unat (rb_head rb + 1) = h + 1" using b by (simp add: unat_word_ariths h_def)
  have le: "unat (rb_head rb + 1) \<le> 2 ^ (12 + k)" using h1 b k(3) by (simp add: S_def)
  have l: "12 + k \<le> LENGTH(32)" using k(1) by simp
  have "unat (RB_SPACE rb) = (t + S - (h + 1)) mod S"
    unfolding RB_SPACE_def RB_SPACE_of_def RB_COUNT_of_def k(2) exp_minus_1_mask unat_and_mask
      S_def k(3) t_def h1 [symmetric]
    by (rule unat_diff_mod_exp [OF l le])
  moreover have "unat (RB_COUNT rb) = (h + S - t) mod S"
    using unat_count [OF assms] by (simp add: h_def t_def S_def)
  moreover have "(t + S - (h + 1)) mod S = S - 1 - (h + S - t) mod S"
  proof (cases "t \<le> h")
    case True
    then have "(h + S - t) mod S = h - t" using b by (metis Nat.add_diff_assoc2 less_imp_diff_less mod_add_self2 mod_less)
    with True b show ?thesis by simp
  next
    case False
    then have "(t + S - (h + 1)) mod S = t - (h + 1)"
      using b by (metis Nat.add_diff_assoc2 Suc_eq_plus1 Suc_leI less_imp_diff_less mod_add_self2 mod_less not_le)
    with False b show ?thesis by simp
  qed
  ultimately show ?thesis by (simp add: S_def)
qed

lemma unat_trim:
  assumes "rb_geom rb"
  shows "unat (HEAD_TRIM_PAGE rb x) = unat x mod rb_cap rb"
proof -
  from assms obtain k where k: "rb_n_pages rb = 2 ^ k" "rb_cap rb = 2 ^ (12 + k)"
    by (rule rb_geomE)
  show ?thesis
    unfolding HEAD_TRIM_PAGE_def page_mask pagemask_exp [OF k(1)] PAGE_SHIFT_def trim_mask
      unat_and_mask k(2) ..
qed

text \<open>The start of the page after the one that holds position \<open>p\<close>.\<close>

definition next_page :: "nat \<Rightarrow> nat" where
  "next_page p = (p div 4096 + 1) * 4096"

lemma next_page_eq: "next_page p = p + (4096 - p mod 4096)"
proof -
  have block_eq: "(q + 1) * b = p + (b - r)" if "p = q * b + r" "r < b" for q r b :: nat
    using that by (simp add: algebra_simps)
  show ?thesis
    unfolding next_page_def by (rule block_eq) simp_all
qed

lemma next_page_gt: "p < next_page p"
  by (simp add: next_page_eq)

lemma next_page_aligned: "next_page p mod 4096 = 0"
  by (simp add: next_page_def)

lemma next_page_mod:
  assumes "4096 dvd S"
  shows "next_page (p mod S) mod S = next_page p mod S"
proof -
  have "p mod S mod 4096 = p mod 4096" using assms by (simp add: mod_mod_cancel)
  then show ?thesis by (simp only: next_page_eq mod_add_left_eq)
qed

lemma unat_stuff_head:
  assumes "rb_geom rb"
  shows "unat (0 OR push_bit PAGE_SHIFT (RB_NEXT_PAGE rb (HEAD_PAGE (rb_head rb))))
           = next_page (unat (rb_head rb)) mod rb_cap rb"
proof -
  from assms obtain k where k: "k \<le> 10" "rb_n_pages rb = 2 ^ k" "rb_cap rb = 2 ^ (12 + k)"
    by (rule rb_geomE)
  define q where "q = unat (rb_head rb) div 4096"
  have hd: "unat (rb_head rb) < 4194304"
    using rb_geom_bounds(1,9) [OF assms] by linarith
  then have "unat (HEAD_PAGE (rb_head rb) + 1) = q + 1"
    by (simp add: unat_word_ariths unat_head_page q_def)
  then have n: "unat (RB_NEXT_PAGE rb (HEAD_PAGE (rb_head rb))) = (q + 1) mod 2 ^ k"
    unfolding RB_NEXT_PAGE_def pagemask_exp [OF k(2)] unat_and_mask by simp
  have "(q + 1) mod 2 ^ k < (2::nat) ^ k" by simp
  also have "(2::nat) ^ k \<le> 2 ^ 10" using k(1) by (intro power_increasing) auto
  finally have "unat (push_bit 12 (RB_NEXT_PAGE rb (HEAD_PAGE (rb_head rb)))) = 4096 * ((q + 1) mod 2 ^ k)"
    by (simp add: push_bit_eq_mult unat_word_ariths n)
  moreover have "4096 * ((q + 1) mod 2 ^ k) = 4096 * (q + 1) mod 2 ^ (12 + k)"
    by (simp only: mult_mod_right power_add) simp
  ultimately show ?thesis
    by (simp only: PAGE_SHIFT_def next_page_def k(3) q_def mult.commute [of _ 4096] or.left_neutral)
qed

section \<open>Records and pads in the buffer\<close>

datatype rb_item = Pad | Rec u32 "u8 list"

text \<open>The data pages as one flat memory, as the reader maps them.\<close>

definition flat :: "smon_ring_buffer \<Rightarrow> nat \<Rightarrow> u8" where
  "flat rb k = rb_data rb (k div 4096) (k mod 4096)"

text \<open>
  A position counts bytes from the start of the buffer and may be beyond its end, by less than one
  turn after the tail; its cell is its remainder by the capacity \<open>S\<close>.
\<close>

definition rd :: "(nat \<Rightarrow> u8) \<Rightarrow> nat \<Rightarrow> nat \<Rightarrow> nat \<Rightarrow> u8 list" where
  "rd m S p n = map (\<lambda>i. m ((p + i) mod S)) [0..<n]"

fun item_end :: "nat \<Rightarrow> rb_item \<Rightarrow> nat" where
  "item_end p Pad = next_page p"
| "item_end p (Rec ty bs) = p + header_size + length bs"

fun item_at :: "(nat \<Rightarrow> u8) \<Rightarrow> nat \<Rightarrow> nat \<Rightarrow> rb_item \<Rightarrow> bool" where
  "item_at m S p Pad \<longleftrightarrow>
     p mod 4096 + header_size \<le> 4096 \<and> rd m S p header_size = le_bytes header_size SAMPLE_TYPE_PAD"
| "item_at m S p (Rec ty bs) \<longleftrightarrow>
     sample_size_of ty = Some (length bs) \<and> p mod 4096 + header_size + length bs \<le> 4096 \<and>
     rd m S p (header_size + length bs) = le_bytes header_size ty @ bs"

fun span :: "nat \<Rightarrow> rb_item list \<Rightarrow> nat" where
  "span p [] = p"
| "span p (x # xs) = span (item_end p x) xs"

fun laid :: "(nat \<Rightarrow> u8) \<Rightarrow> nat \<Rightarrow> nat \<Rightarrow> rb_item list \<Rightarrow> bool" where
  "laid m S p [] \<longleftrightarrow> True"
| "laid m S p (x # xs) \<longleftrightarrow> item_at m S p x \<and> laid m S (item_end p x) xs"

definition rb_holds :: "smon_ring_buffer \<Rightarrow> rb_item list \<Rightarrow> bool" where
  "rb_holds rb xs \<longleftrightarrow> rb_geom rb \<and>
     laid (flat rb) (rb_cap rb) (unat (rb_tail rb)) xs \<and>
     span (unat (rb_tail rb)) xs < unat (rb_tail rb) + rb_cap rb \<and>
     unat (rb_head rb) = span (unat (rb_tail rb)) xs mod rb_cap rb"

lemma length_rd [simp]: "length (rd m S p n) = n"
  by (simp add: rd_def)

lemma rd_cong:
  "(\<And>i. i < n \<Longrightarrow> m' ((p + i) mod S) = m ((p + i) mod S)) \<Longrightarrow> rd m' S p n = rd m S p n"
  by (simp add: rd_def)

lemma rd_append: "rd m S p (a + b) = rd m S p a @ rd m S (p + a) b"
  by (auto intro!: nth_equalityI simp: rd_def nth_append algebra_simps)

lemma item_end_gt: "p < item_end p x"
  by (cases x) (auto simp: next_page_gt header_size_def)

lemma item_at_size: "item_at m S p x \<Longrightarrow> p + header_size \<le> item_end p x"
  by (cases x) (auto simp: next_page_eq)

lemma span_ge: "p \<le> span p xs"
  by (induction xs arbitrary: p) (auto intro: order_trans less_imp_le [OF item_end_gt])

lemma span_append [simp]: "span p (xs @ ys) = span (span p xs) ys"
  by (induction xs arbitrary: p) auto

lemma laid_append [simp]:
  "laid m S p (xs @ ys) \<longleftrightarrow> laid m S p xs \<and> laid m S (span p xs) ys"
  by (induction xs arbitrary: p) auto

lemma sample_size_cases:
  "sample_size_of ty = Some n \<Longrightarrow> n \<in> {96, 40, 24, 16, 56, 0}"
  by (auto simp: sample_size_of_def sizeof_defs split: if_splits)

lemma sample_size_dvd: "sample_size_of ty = Some n \<Longrightarrow> 4 dvd n"
  by (drule sample_size_cases) auto

lemma sample_size_le: "sample_size_of ty = Some n \<Longrightarrow> n \<le> 96"
  by (drule sample_size_cases) auto

lemma item_end_dvd: "item_at m S p x \<Longrightarrow> 4 dvd p \<Longrightarrow> 4 dvd item_end p x"
  by (cases x) (auto simp: next_page_def header_size_def sample_size_dvd intro!: dvd_add)

lemma span_dvd: "laid m S p xs \<Longrightarrow> 4 dvd p \<Longrightarrow> 4 dvd span p xs"
  by (induction xs arbitrary: p) (auto simp: item_end_dvd)

lemma item_at_frame:
  assumes "item_at m S p x"
    and "\<And>q. p \<le> q \<Longrightarrow> q < item_end p x \<Longrightarrow> m' (q mod S) = m (q mod S)"
  shows "item_at m' S p x"
proof -
  have "rd m' S p n = rd m S p n" if "p + n \<le> item_end p x" for n
    using assms(2) that by (intro rd_cong) simp
  with assms(1) item_at_size [OF assms(1)] show ?thesis by (cases x) auto
qed

lemma laid_frame:
  assumes "laid m S p xs"
    and "\<And>q. p \<le> q \<Longrightarrow> q < span p xs \<Longrightarrow> m' (q mod S) = m (q mod S)"
  shows "laid m' S p xs"
  using assms
proof (induction xs arbitrary: p)
  case (Cons x xs)
  have le: "item_end p x \<le> span (item_end p x) xs" by (rule span_ge)
  have "item_at m' S p x"
  proof (rule item_at_frame)
    show "item_at m S p x" using Cons.prems(1) by simp
  next
    fix q assume "p \<le> q" "q < item_end p x"
    then show "m' (q mod S) = m (q mod S)" using le by (intro Cons.prems(2)) simp_all
  qed
  moreover have "laid m' S (item_end p x) xs"
  proof (rule Cons.IH)
    show "laid m S (item_end p x) xs" using Cons.prems(1) by simp
  next
    fix q assume "item_end p x \<le> q" "q < span (item_end p x) xs"
    then show "m' (q mod S) = m (q mod S)"
      using item_end_gt [of p x] by (intro Cons.prems(2)) simp_all
  qed
  ultimately show ?case by simp
qed simp

lemma count_span:
  fixes H t S :: nat
  assumes "t < S" and "t \<le> H" and "H < t + S"
  shows "(H mod S + S - t) mod S = H - t"
proof -
  have "(H mod S + S - t) mod S = (H mod S + (S - t)) mod S" using assms(1) by simp
  also have "\<dots> = (H + (S - t)) mod S" by (simp only: mod_add_left_eq)
  also have "\<dots> = (H - t + S) mod S" using assms(1,2) by (simp add: algebra_simps)
  also have "\<dots> = (H - t) mod S" by (rule mod_add_self2)
  also have "\<dots> = H - t" using assms(2,3) by simp
  finally show ?thesis .
qed

lemma holds_count:
  assumes "rb_holds rb xs"
  shows "unat (RB_COUNT rb) = span (unat (rb_tail rb)) xs - unat (rb_tail rb)"
    and "unat (RB_SPACE rb) =
           unat (rb_tail rb) + rb_cap rb - 1 - span (unat (rb_tail rb)) xs"
proof -
  from assms have g: "rb_geom rb" by (simp add: rb_holds_def)
  show c: "unat (RB_COUNT rb) = span (unat (rb_tail rb)) xs - unat (rb_tail rb)"
    using assms rb_geom_bounds(2) [OF g] span_ge [of "unat (rb_tail rb)" xs]
    by (simp add: rb_holds_def unat_count [OF g] count_span)
  show "unat (RB_SPACE rb) = unat (rb_tail rb) + rb_cap rb - 1 - span (unat (rb_tail rb)) xs"
    using assms span_ge [of "unat (rb_tail rb)" xs] unfolding unat_space [OF g] c
    by (simp add: rb_holds_def)
qed

section \<open>One copy into a page\<close>

lemma flat_page_write:
  assumes "h mod 4096 + length bs \<le> 4096"
  shows "(\<lambda>k. page_write (h div 4096) (h mod 4096) bs d (k div 4096) (k mod 4096)) =
     (\<lambda>k. if h \<le> k \<and> k < h + length bs then bs ! (k - h) else d (k div 4096) (k mod 4096))"
proof
  fix k :: nat
  have e: "h = h div 4096 * 4096 + h mod 4096" "k = k div 4096 * 4096 + k mod 4096" by simp_all
  have l: "k mod 4096 < 4096" by simp
  show "page_write (h div 4096) (h mod 4096) bs d (k div 4096) (k mod 4096) =
      (if h \<le> k \<and> k < h + length bs then bs ! (k - h) else d (k div 4096) (k mod 4096))"
  proof (cases "k div 4096 = h div 4096")
    case True
    then have "h \<le> k \<and> k < h + length bs \<longleftrightarrow> h mod 4096 \<le> k mod 4096 \<and> k mod 4096 < h mod 4096 + length bs"
      "k - h = k mod 4096 - h mod 4096"
      using e by linarith+
    with True show ?thesis by (simp add: page_write_def)
  next
    case False
    then consider "k div 4096 + 1 \<le> h div 4096" | "h div 4096 + 1 \<le> k div 4096" by linarith
    then have "\<not> (h \<le> k \<and> k < h + length bs)" using e l assms by cases linarith+
    with False show ?thesis by (auto simp: page_write_def)
  qed
qed

text \<open>A copy to the place \<open>h\<close> of the flat memory that stays within its page.\<close>

lemma rb_copy_flat:
  assumes "rb_geom rb" and "h < rb_cap rb" and "h mod 4096 + length bs \<le> 4096"
    and "unat page = h div 4096" and "unat off = h mod 4096"
  obtains d where "rb_copy page off bs rb = Some (rb\<lparr>rb_data := d\<rparr>)"
    "flat (rb\<lparr>rb_data := d\<rparr>) =
       (\<lambda>k. if h \<le> k \<and> k < h + length bs then bs ! (k - h) else flat rb k)"
proof -
  have "h div 4096 < unat (rb_n_pages rb)"
    using assms(2) rb_geom_bounds(5) [OF assms(1)] by (simp add: div_less_iff_less_mult mult.commute)
  then show thesis
    using assms that [of "page_write (h div 4096) (h mod 4096) bs (rb_data rb)"]
    by (simp add: rb_copy_def flat_def fun_eq_iff flat_page_write [OF assms(3), THEN fun_cong])
qed

end
