(* ===== verification/Ring_Fifo.thy ===== *)
theory Ring_Fifo
  imports Ring_Layout
begin

text \<open>
  The operations of the ring buffer on the sequence of records it holds: a write appends one
  record or drops it, a read removes what the reader has consumed, and the last release appends
  the end marker. The contract is the locale \<open>sample_fifo\<close>, which the driver's sampling routines
  use.
\<close>

section \<open>Appending one item\<close>

lemma holds_append:
  assumes "rb_holds rb xs"
    and same: "rb_n_pages rb' = rb_n_pages rb" "rb_size rb' = rb_size rb" "rb_tail rb' = rb_tail rb"
    and "item_at (flat rb') (rb_cap rb) (span (unat (rb_tail rb)) xs) x"
    and frame: "\<And>q. unat (rb_tail rb) \<le> q \<Longrightarrow> q < span (unat (rb_tail rb)) xs \<Longrightarrow>
           flat rb' (q mod rb_cap rb) = flat rb (q mod rb_cap rb)"
    and e: "item_end (span (unat (rb_tail rb)) xs) x < unat (rb_tail rb) + rb_cap rb"
    and hd: "unat (rb_head rb') = item_end (span (unat (rb_tail rb)) xs) x mod rb_cap rb"
  shows "rb_holds rb' (xs @ [x])"
proof -
  from assms(1) have g: "rb_geom rb" and l: "laid (flat rb) (rb_cap rb) (unat (rb_tail rb)) xs"
    by (simp_all add: rb_holds_def)
  have l': "laid (flat rb') (rb_cap rb) (unat (rb_tail rb)) xs"
    using l by (rule laid_frame) (rule frame)
  have c: "rb_cap rb' = rb_cap rb" using same by (simp add: rb_cap_def)
  have "4 dvd item_end (span (unat (rb_tail rb)) xs) x"
    using item_end_dvd [OF assms(5)] span_dvd [OF l] rb_geom_bounds(4) [OF g] by blast
  then have "4 dvd unat (rb_head rb')"
    using hd rb_geom_bounds(7) [OF g] by (simp add: dvd_mod)
  moreover have "unat (rb_head rb') < rb_cap rb"
    using hd rb_geom_bounds(8) [OF g] by simp
  ultimately have "rb_geom rb'"
    using g same by (simp add: rb_geom_def rb_cap_def)
  then show ?thesis
    using l' e hd assms(5) same by (simp add: rb_holds_def c)
qed

lemma rd_written:
  assumes "4096 dvd S" and "H mod 4096 + length bs \<le> 4096" and "h = H mod S"
  shows "rd (\<lambda>k. if h \<le> k \<and> k < h + length bs then bs ! (k - h) else m k) S H (length bs) = bs"
proof (rule nth_equalityI)
  fix i assume "i < length (rd (\<lambda>k. if h \<le> k \<and> k < h + length bs then bs ! (k - h) else m k) S H (length bs))"
  then have i: "i < length bs" by simp
  then have "(H + i) mod S = h + i"
    using assms by (auto intro: add_mod_of_same_block)
  with i show "rd (\<lambda>k. if h \<le> k \<and> k < h + length bs then bs ! (k - h) else m k) S H (length bs) ! i
      = bs ! i"
    by (simp add: rd_def)
qed simp

lemma written_frame:
  fixes S H n h t q :: nat
  assumes "4096 dvd S" and "H mod 4096 + n \<le> 4096" and "h = H mod S"
    and "H + n \<le> t + S" and "t \<le> q" and "q < H"
  shows "\<not> (h \<le> q mod S \<and> q mod S < h + n)"
proof
  assume a: "h \<le> q mod S \<and> q mod S < h + n"
  define i where "i = q mod S - h"
  have i: "i < n" "q mod S = h + i" using a by (auto simp: i_def)
  then have "(H + i) mod S = q mod S"
    using assms(1-3) add_mod_of_same_block [of 4096 S H i] by simp
  moreover have "q < H + i" "H + i < q + S" using assms i by auto
  ultimately show False using mod_neq_of_less [of q "H + i" S] by simp
qed

section \<open>Closing a page\<close>

definition rb_same :: "smon_ring_buffer \<Rightarrow> smon_ring_buffer \<Rightarrow> bool" where
  "rb_same rb rb' \<longleftrightarrow> rb_n_pages rb' = rb_n_pages rb \<and> rb_size rb' = rb_size rb \<and>
     rb_tail rb' = rb_tail rb \<and> rb_batch rb' = rb_batch rb \<and> rb_active rb' = rb_active rb"

lemma head_block:
  assumes "rb_holds rb xs"
  shows "unat (rb_head rb) mod 4096 = span (unat (rb_tail rb)) xs mod 4096"
    "4 dvd span (unat (rb_tail rb)) xs"
proof -
  from assms have g: "rb_geom rb" and l: "laid (flat rb) (rb_cap rb) (unat (rb_tail rb)) xs"
    and h: "unat (rb_head rb) = span (unat (rb_tail rb)) xs mod rb_cap rb"
    by (simp_all add: rb_holds_def)
  show "unat (rb_head rb) mod 4096 = span (unat (rb_tail rb)) xs mod 4096"
    unfolding h using rb_geom_bounds(6) [OF g] by (rule mod_mod_cancel)
  show "4 dvd span (unat (rb_tail rb)) xs"
    using l rb_geom_bounds(4) [OF g] by (rule span_dvd)
qed

lemma dvd4_room:
  assumes "4 dvd (p::nat)"
  shows "p mod 4096 + 4 \<le> 4096"
proof -
  have "4 dvd p mod 4096" using assms by (simp add: dvd_mod)
  then obtain j where j: "p mod 4096 = 4 * j" by (auto simp: dvd_def)
  have "p mod 4096 < 4096" by simp
  then have "j < 1024" unfolding j by simp
  then show ?thesis unfolding j by simp
qed

lemma stuff_page_spec:
  assumes "rb_holds rb xs"
    and "next_page (span (unat (rb_tail rb)) xs) < unat (rb_tail rb) + rb_cap rb"
  obtains rb' where "smon_rb_stuff_page rb = Some rb'" "rb_holds rb' (xs @ [Pad])"
    "rb_same rb rb'" "rb_items rb' = rb_items rb" "rb_irq rb' = rb_irq rb"
proof -
  define H where "H = span (unat (rb_tail rb)) xs"
  define pad where "pad = le_bytes header_size SAMPLE_TYPE_PAD"
  from assms(1) have g: "rb_geom rb" and h: "unat (rb_head rb) = H mod rb_cap rb"
    by (simp_all add: rb_holds_def H_def)
  note b = rb_geom_bounds [OF g] and hb = head_block [OF assms(1), folded H_def]
  have room: "H mod 4096 + length pad \<le> 4096"
    using dvd4_room [OF hb(2)] by (simp add: pad_def header_size_def)
  have "unat (rb_head rb) mod 4096 + length pad \<le> 4096" using room hb(1) by simp
  from rb_copy_flat [OF g b(1) this unat_head_page unat_head_offset, unfolded h]
  obtain d where d: "rb_copy (HEAD_PAGE (rb_head rb)) (HEAD_OFFSET (rb_head rb)) pad rb
        = Some (rb\<lparr>rb_data := d\<rparr>)"
    and fl: "flat (rb\<lparr>rb_data := d\<rparr>) =
        (\<lambda>k. if H mod rb_cap rb \<le> k \<and> k < H mod rb_cap rb + length pad
              then pad ! (k - H mod rb_cap rb) else flat rb k)" by blast
  define rb' where "rb' = rb\<lparr>rb_data := d,
      rb_head := 0 OR push_bit PAGE_SHIFT (RB_NEXT_PAGE rb (HEAD_PAGE (rb_head rb)))\<rparr>"
  have fl': "flat rb' = flat (rb\<lparr>rb_data := d\<rparr>)"
    by (simp add: rb'_def flat_def fun_eq_iff)
  have n: "RB_NEXT_PAGE (rb\<lparr>rb_data := d\<rparr>) = RB_NEXT_PAGE rb"
    by (simp add: fun_eq_iff RB_NEXT_PAGE_def RB_PAGEMASK_def)
  have eq: "smon_rb_stuff_page rb = Some rb'"
    using d by (simp add: smon_rb_stuff_page_def Let_def pad_def rb'_def n)
  have fits: "H + length pad \<le> unat (rb_tail rb) + rb_cap rb"
    using assms(2) room by (simp add: H_def next_page_eq)
  have "rb_holds rb' (xs @ [Pad])"
  proof (rule holds_append [OF assms(1)])
    show "item_at (flat rb') (rb_cap rb) (span (unat (rb_tail rb)) xs) Pad"
      using room rd_written [OF b(6) room refl, of "flat rb"]
      by (simp add: H_def [symmetric] fl' fl pad_def)
    show "flat rb' (q mod rb_cap rb) = flat rb (q mod rb_cap rb)"
      if "unat (rb_tail rb) \<le> q" "q < span (unat (rb_tail rb)) xs" for q
      using written_frame [OF b(6) room refl fits, of q] that by (auto simp: fl' fl H_def)
    show "unat (rb_head rb') = item_end (span (unat (rb_tail rb)) xs) Pad mod rb_cap rb"
      using unat_stuff_head [OF g] next_page_mod [OF b(6), of H] h
      by (simp add: rb'_def H_def)
  qed (use assms(2) in \<open>simp_all add: rb'_def\<close>)
  with eq show thesis by (rule that) (simp_all add: rb'_def rb_same_def)
qed

section \<open>Copying a sample\<close>

text \<open>The header and the body are copied one after the other into the same page.\<close>

lemma rb_copy2_flat:
  assumes g: "rb_geom rb" and h: "h < rb_cap rb" and room: "h mod 4096 + 4 + length body \<le> 4096"
    and len: "length hdr = 4" and page: "unat page = h div 4096" and off: "unat off = h mod 4096"
  obtains d where
    "(do { rb \<leftarrow> rb_copy page off hdr rb;
           if length body > 0 then rb_copy page (off + 4) body rb else Some rb })
       = Some (rb\<lparr>rb_data := d\<rparr>)"
    "flat (rb\<lparr>rb_data := d\<rparr>) =
       (\<lambda>k. if h \<le> k \<and> k < h + length (hdr @ body) then (hdr @ body) ! (k - h) else flat rb k)"
proof -
  obtain d where d: "rb_copy page off hdr rb = Some (rb\<lparr>rb_data := d\<rparr>)"
    and fl: "flat (rb\<lparr>rb_data := d\<rparr>) =
        (\<lambda>k. if h \<le> k \<and> k < h + length hdr then hdr ! (k - h) else flat rb k)"
    by (rule rb_copy_flat [OF g h _ page off, of hdr]) (use room len in simp_all)
  show thesis
  proof (cases "length body > 0")
    case False
    then show thesis using d fl by (intro that [of d]) auto
  next
    case True
    let ?rb = "rb\<lparr>rb_data := d\<rparr>"
    have g': "rb_geom ?rb" using g by (simp add: rb_geom_def)
    have lt: "h mod 4096 + 4 < 4096" using room True by linarith
    have "(h + 4) mod rb_cap rb = h mod rb_cap rb + 4"
      using rb_geom_bounds(6) [OF g] lt by (rule add_mod_of_same_block)
    then have "h + 4 = (h + 4) mod rb_cap rb" using h by simp
    also have "\<dots> < rb_cap rb" using rb_geom_bounds(8) [OF g] by simp
    finally have h': "h + 4 < rb_cap ?rb" by (simp add: rb_cap_def)
    have m: "(h + 4) mod 4096 = h mod 4096 + 4"
      using lt by (intro add_mod_of_same_block [of 4096]) simp_all
    then have "(h + 4) div 4096 * 4096 = h div 4096 * 4096"
      using div_mult_mod_eq [of h 4096] div_mult_mod_eq [of "h + 4" 4096] by linarith
    with m have blk: "(h + 4) div 4096 = h div 4096" "(h + 4) mod 4096 = h mod 4096 + 4"
      by simp_all
    have off': "unat (off + 4) = (h + 4) mod 4096"
      using lt off blk by (simp add: unat_word_ariths)
    obtain d' where d': "rb_copy page (off + 4) body ?rb = Some (?rb\<lparr>rb_data := d'\<rparr>)"
      and fl': "flat (?rb\<lparr>rb_data := d'\<rparr>) =
          (\<lambda>k. if h + 4 \<le> k \<and> k < h + 4 + length body then body ! (k - (h + 4)) else flat ?rb k)"
      by (rule rb_copy_flat [OF g' h' _ _ off', of body page]) (use room blk page in simp_all)
    have "flat (rb\<lparr>rb_data := d'\<rparr>) =
        (\<lambda>k. if h \<le> k \<and> k < h + length (hdr @ body) then (hdr @ body) ! (k - h) else flat rb k)"
      using fl' fl len by (auto simp: fun_eq_iff nth_append)
    then show thesis using d d' True by (intro that [of d']) auto
  qed
qed

lemma rb_put_spec:
  assumes "rb_holds rb xs" and sz: "sample_size_of ty = Some n" and n: "n \<le> length sample"
    and room: "span (unat (rb_tail rb)) xs mod 4096 + header_size + n \<le> 4096"
    and fits: "span (unat (rb_tail rb)) xs + header_size + n < unat (rb_tail rb) + rb_cap rb"
  obtains rb' where "rb_put ty sample n rb = Some rb'"
    "rb_holds rb' (xs @ [Rec ty (take n sample)])" "rb_same rb rb'"
    "rb_items rb' = rb_items rb + 1"
    "rb_irq rb' \<longleftrightarrow> rb_irq rb \<or> rb_items rb + 1 \<ge> rb_batch rb"
proof -
  define H where "H = span (unat (rb_tail rb)) xs"
  define bs where "bs = le_bytes header_size ty @ take n sample"
  from assms(1) have g: "rb_geom rb" and h: "unat (rb_head rb) = H mod rb_cap rb"
    by (simp_all add: rb_holds_def H_def)
  note b = rb_geom_bounds [OF g] and hb = head_block [OF assms(1), folded H_def]
  have len: "length (take n sample) = n" "header_size = 4" "length bs = 4 + n"
    using n by (simp_all add: bs_def header_size_def)
  have rooms: "unat (rb_head rb) mod 4096 + 4 + length (take n sample) \<le> 4096"
    "H mod 4096 + length bs \<le> 4096"
    using room hb(1) by (simp_all add: H_def len)
  have lh: "length (le_bytes header_size ty :: u8 list) = 4" by (simp add: header_size_def)
  obtain d where d: "(do { r \<leftarrow> rb_copy (HEAD_PAGE (rb_head rb)) (HEAD_OFFSET (rb_head rb))
                                     (le_bytes header_size ty) rb;
                 if length (take n sample) > 0
                 then rb_copy (HEAD_PAGE (rb_head rb)) (HEAD_OFFSET (rb_head rb) + 4) (take n sample) r
                 else Some r }) = Some (rb\<lparr>rb_data := d\<rparr>)"
    and "flat (rb\<lparr>rb_data := d\<rparr>) =
        (\<lambda>k. if unat (rb_head rb) \<le> k \<and> k < unat (rb_head rb) + length (le_bytes header_size ty @ take n sample)
              then (le_bytes header_size ty @ take n sample) ! (k - unat (rb_head rb)) else flat rb k)"
    by (rule rb_copy2_flat [OF g b(1) rooms(1) lh unat_head_page unat_head_offset])
  then have fl: "flat (rb\<lparr>rb_data := d\<rparr>) =
        (\<lambda>k. if H mod rb_cap rb \<le> k \<and> k < H mod rb_cap rb + length bs
              then bs ! (k - H mod rb_cap rb) else flat rb k)"
    by (simp only: h bs_def)
  define rb' where "rb' = rb\<lparr>rb_data := d,
      rb_head := HEAD_TRIM_PAGE rb (rb_head rb + of_nat (n + header_size)),
      rb_items := rb_items rb + 1,
      rb_irq := (rb_irq rb \<or> rb_items rb + 1 \<ge> rb_batch rb)\<rparr>"
  have eq: "rb_put ty sample n rb = Some rb'"
  proof -
    obtain r where r: "rb_copy (HEAD_PAGE (rb_head rb)) (HEAD_OFFSET (rb_head rb))
        (le_bytes header_size ty) rb = Some r"
      and r': "(if n > 0 then rb_copy (HEAD_PAGE (rb_head rb)) (HEAD_OFFSET (rb_head rb) + 4)
          (take n sample) r else Some r) = Some (rb\<lparr>rb_data := d\<rparr>)"
      using d unfolding len(1) by (auto simp only: bind_eq_Some_conv)
    have hsz: "of_nat header_size = (4 :: u32)" by (simp add: header_size_def)
    have trim: "HEAD_TRIM_PAGE (rb\<lparr>rb_data := d, rb_head := x\<rparr>) = HEAD_TRIM_PAGE rb" for x
      by (simp add: fun_eq_iff HEAD_TRIM_PAGE_def RB_PAGEMASK_def)
    show ?thesis
      unfolding rb_put_def Let_def r Option.bind.simps hsz r' by (simp add: rb'_def trim)
  qed
  have fl': "flat rb' = flat (rb\<lparr>rb_data := d\<rparr>)"
    by (simp add: rb'_def flat_def fun_eq_iff)
  have fits': "H + length bs \<le> unat (rb_tail rb) + rb_cap rb"
    using fits by (simp add: H_def len)
  have "unat (rb_head rb + of_nat (n + header_size)) = unat (rb_head rb) + (n + 4)"
    using b(1,9) sample_size_le [OF sz] by (simp add: unat_word_ariths unat_of_nat len(2))
  then have "unat (rb_head rb') = (H mod rb_cap rb + (n + 4)) mod rb_cap rb"
    unfolding h [symmetric] by (simp add: rb'_def unat_trim [OF g])
  also have "\<dots> = (H + 4 + n) mod rb_cap rb"
    by (simp only: mod_add_left_eq) (simp add: ac_simps)
  finally have hd: "unat (rb_head rb') = (H + 4 + n) mod rb_cap rb" .
  have "rb_holds rb' (xs @ [Rec ty (take n sample)])"
  proof (rule holds_append [OF assms(1)])
    show "item_at (flat rb') (rb_cap rb) (span (unat (rb_tail rb)) xs) (Rec ty (take n sample))"
      using rd_written [OF b(6) rooms(2) refl, of "flat rb"] rooms(2) sz n
      by (simp add: H_def [symmetric] fl' fl len min_absorb2) (simp add: bs_def len)
    show "flat rb' (q mod rb_cap rb) = flat rb (q mod rb_cap rb)"
      if "unat (rb_tail rb) \<le> q" "q < span (unat (rb_tail rb)) xs" for q
      using written_frame [OF b(6) rooms(2) refl fits', of q] that by (auto simp: fl' fl H_def)
    show "unat (rb_head rb') = item_end (span (unat (rb_tail rb)) xs) (Rec ty (take n sample)) mod rb_cap rb"
      using hd n by (simp add: H_def len min_absorb2)
  qed (use fits n in \<open>simp_all add: rb'_def len H_def min_absorb2\<close>)
  with eq show thesis by (rule that) (simp_all add: rb'_def rb_same_def)
qed

section \<open>A write appends one record or drops it\<close>

text \<open>The records, without the pads; the bytes a write needs, the pad of a closed page included.\<close>

definition recs :: "rb_item list \<Rightarrow> rb_item list" where
  "recs xs = filter (\<lambda>x. x \<noteq> Pad) xs"

lemma recs_simps [simp]:
  "recs [] = []" "recs (Pad # xs) = recs xs" "recs (Rec ty bs # xs) = Rec ty bs # recs xs"
  "recs (xs @ ys) = recs xs @ recs ys"
  by (simp_all add: recs_def)

definition rb_need :: "smon_ring_buffer \<Rightarrow> nat \<Rightarrow> nat" where
  "rb_need rb sz =
     (if sz > 4096 - unat (rb_head rb) mod 4096
      then 4096 - unat (rb_head rb) mod 4096 + sz else sz)"

definition rb_fits :: "smon_ring_buffer \<Rightarrow> nat \<Rightarrow> bool" where
  "rb_fits rb n \<longleftrightarrow> unat (RB_COUNT rb) + rb_need rb (n + header_size) < rb_cap rb"

text \<open>What a write of a sample of \<open>n\<close> bytes does, \<open>r\<close> being its record.\<close>

definition write_post ::
  "smon_ring_buffer \<Rightarrow> rb_item list \<Rightarrow> nat \<Rightarrow> rb_item \<Rightarrow> smon_ring_buffer \<Rightarrow> rb_item list \<Rightarrow> bool" where
  "write_post rb xs n r rb' ys \<longleftrightarrow>
     rb_holds rb' ys \<and> rb_same rb rb' \<and> take (length xs) ys = xs \<and>
     (if rb_fits rb n
      then recs ys = recs xs @ [r] \<and> rb_items rb' = rb_items rb + 1 \<and>
           (rb_irq rb' \<longleftrightarrow> rb_irq rb \<or> rb_items rb + 1 \<ge> rb_batch rb)
      else recs ys = recs xs \<and> rb_items rb' = rb_items rb \<and> rb_irq rb' = rb_irq rb)"

lemma rb_write_unfold:
  assumes "sample_size_of ty = Some n"
  shows "smon_rb_write ty sample rb =
     (if n + header_size > unat (RB_SPACE rb) then Some rb
      else if n + header_size > 4096 - unat (rb_head rb) mod 4096 then
        do {
          rb' \<leftarrow> smon_rb_stuff_page rb;
          if n + header_size > unat (RB_SPACE rb') then Some rb' else rb_put ty sample n rb'
        }
      else rb_put ty sample n rb)"
proof -
  have u: "unat (of_nat (n + header_size) :: u32) = n + header_size"
    using sample_size_le [OF assms] by (simp add: unat_word_ariths unat_of_nat header_size_def)
  show ?thesis
    unfolding smon_rb_write_def assms option.case Let_def word_less_nat_alt u unat_page_space ..
qed

lemma rb_write_spec:
  assumes h: "rb_holds rb xs" and sz: "sample_size_of ty = Some n" and n: "n \<le> length sample"
  shows "\<exists>rb' ys. smon_rb_write ty sample rb = Some rb' \<and>
           write_post rb xs n (Rec ty (take n sample)) rb' ys"
proof -
  define t where "t = unat (rb_tail rb)"
  define H where "H = span t xs"
  define ps where "ps = 4096 - H mod 4096"
  have g: "rb_geom rb" and lt: "H < t + rb_cap rb"
    using h by (simp_all add: rb_holds_def H_def t_def)
  have ge: "t \<le> H" by (simp add: H_def span_ge)
  have sp: "unat (RB_SPACE rb) = t + rb_cap rb - 1 - H" "unat (RB_COUNT rb) = H - t"
    using holds_count [OF h] by (simp_all add: H_def t_def)
  have hd: "4096 - unat (rb_head rb) mod 4096 = ps"
    using head_block(1) [OF h] by (simp add: ps_def H_def t_def)
  have fits: "rb_fits rb n \<longleftrightarrow> (if n + header_size > ps then H + ps + (n + header_size)
                               else H + (n + header_size)) < t + rb_cap rb"
    using ge by (auto simp: rb_fits_def rb_need_def hd sp)
  have np: "next_page H = H + ps" by (simp add: next_page_eq ps_def)
  consider (full) "n + header_size > unat (RB_SPACE rb)"
    | (stuff) "n + header_size \<le> unat (RB_SPACE rb)" "n + header_size > ps"
    | (put) "n + header_size \<le> unat (RB_SPACE rb)" "n + header_size \<le> ps" by linarith
  then show ?thesis
  proof cases
    case full
    then have "\<not> rb_fits rb n" using fits lt sp by (auto split: if_splits)
    with full h show ?thesis
      by (auto simp: rb_write_unfold [OF sz] write_post_def rb_same_def)
  next
    case stuff
    then have "next_page H < t + rb_cap rb" using np sp lt by linarith
    then obtain rb1 where rb1: "smon_rb_stuff_page rb = Some rb1" "rb_holds rb1 (xs @ [Pad])"
      "rb_same rb rb1" "rb_items rb1 = rb_items rb" "rb_irq rb1 = rb_irq rb"
      using stuff_page_spec [OF h] unfolding H_def t_def by blast
    have t1: "unat (rb_tail rb1) = t" "rb_cap rb1 = rb_cap rb"
      using rb1(3) by (simp_all add: rb_same_def t_def rb_cap_def)
    have s1: "span t (xs @ [Pad]) = H + ps" by (simp add: H_def [symmetric] np)
    have sp1: "unat (RB_SPACE rb1) = t + rb_cap rb - 1 - (H + ps)"
      using holds_count(2) [OF rb1(2)] by (simp only: t1 s1)
    show ?thesis
    proof (cases "n + header_size > unat (RB_SPACE rb1)")
      case True
      then have "\<not> rb_fits rb n" using fits stuff sp1 by auto
      with True stuff rb1 show ?thesis
        by (auto simp: rb_write_unfold [OF sz] write_post_def hd)
    next
      case False
      have "(H + ps) mod 4096 = 0" using next_page_aligned [of H] np by simp
      moreover have "header_size + n \<le> 4096"
        using sample_size_le [OF sz] by (simp add: header_size_def)
      ultimately have room: "span (unat (rb_tail rb1)) (xs @ [Pad]) mod 4096 + header_size + n \<le> 4096"
        unfolding t1 s1 by linarith
      have lt1: "H + ps + header_size + n < t + rb_cap rb"
        using False sp1 unfolding header_size_def by linarith
      then have "span (unat (rb_tail rb1)) (xs @ [Pad]) + header_size + n
          < unat (rb_tail rb1) + rb_cap rb1"
        unfolding t1 s1 .
      with rb1(2) sz n room obtain rb' where "rb_put ty sample n rb1 = Some rb'"
        "rb_holds rb' ((xs @ [Pad]) @ [Rec ty (take n sample)])" "rb_same rb1 rb'"
        "rb_items rb' = rb_items rb1 + 1"
        "rb_irq rb' \<longleftrightarrow> rb_irq rb1 \<or> rb_items rb1 + 1 \<ge> rb_batch rb1"
        by (rule rb_put_spec)
      moreover have "rb_fits rb n" using fits stuff lt1 by auto
      ultimately show ?thesis using False stuff rb1
        by (auto simp: rb_write_unfold [OF sz] write_post_def hd rb_same_def
            intro!: exI [of _ "xs @ [Pad, Rec ty (take n sample)]"])
    qed
  next
    case put
    have "H mod 4096 < 4096" by simp
    then have "H mod 4096 + header_size + n \<le> 4096" using put(2) unfolding ps_def by linarith
    moreover have lt1: "H + header_size + n < t + rb_cap rb" using put(1) sp lt by linarith
    ultimately obtain rb' where "rb_put ty sample n rb = Some rb'"
      "rb_holds rb' (xs @ [Rec ty (take n sample)])" "rb_same rb rb'"
      "rb_items rb' = rb_items rb + 1"
      "rb_irq rb' \<longleftrightarrow> rb_irq rb \<or> rb_items rb + 1 \<ge> rb_batch rb"
      using rb_put_spec [OF h sz n] unfolding H_def t_def by blast
    moreover have "rb_fits rb n" using fits put lt1 by auto
    ultimately show ?thesis using put
      by (auto simp: rb_write_unfold [OF sz] write_post_def hd)
  qed
qed

section \<open>The number of records\<close>

lemma span_recs: "p + 4 * length (recs xs) \<le> span p xs"
proof (induction xs arbitrary: p)
  case (Cons x xs)
  have "item_end p x + 4 * length (recs xs) \<le> span (item_end p x) xs" by (rule Cons.IH)
  then show ?case
    using item_end_gt [of p x] by (cases x) (auto simp: header_size_def)
qed simp

lemma holds_length:
  assumes "rb_holds rb xs"
  shows "4 * length (recs xs) < rb_cap rb" "4 * length (recs xs) < 4194304"
proof -
  from assms have g: "rb_geom rb" by (simp add: rb_holds_def)
  show "4 * length (recs xs) < rb_cap rb"
    using assms span_recs [of "unat (rb_tail rb)" xs] by (simp add: rb_holds_def)
  then show "4 * length (recs xs) < 4194304"
    using rb_geom_bounds(9) [OF g] by linarith
qed

text \<open>The buffer's invariant: its bytes are well formed and \<open>items\<close> counts its records.\<close>

definition rb_inv :: "smon_ring_buffer \<Rightarrow> rb_item list \<Rightarrow> bool" where
  "rb_inv rb rs \<longleftrightarrow> (\<exists>xs. rb_holds rb xs \<and> recs xs = rs \<and> unat (rb_items rb) = length rs)"

lemma rb_inv_write:
  assumes "rb_inv rb rs" and "sample_size_of ty = Some n" and "n \<le> length s"
  shows "\<exists>rb'. smon_rb_write ty s rb = Some rb' \<and> rb_same rb rb' \<and>
    (if rb_fits rb n
     then rb_inv rb' (rs @ [Rec ty (take n s)]) \<and> (rb_irq rb' \<longleftrightarrow> rb_irq rb \<or> rb_items rb' \<ge> rb_batch rb)
     else rb_inv rb' rs \<and> rb_irq rb' = rb_irq rb)"
proof -
  from assms(1) obtain xs where xs: "rb_holds rb xs" "recs xs = rs" "unat (rb_items rb) = length rs"
    by (auto simp: rb_inv_def)
  from rb_write_spec [OF xs(1) assms(2,3)] obtain rb' ys where
    w: "smon_rb_write ty s rb = Some rb'" "write_post rb xs n (Rec ty (take n s)) rb' ys" by blast
  have "unat (rb_items rb + 1) = length rs + 1"
    using xs(3) holds_length(2) [OF xs(1)] xs(2) by (simp add: unat_word_ariths)
  with w xs show ?thesis
    by (auto simp: write_post_def rb_inv_def split: if_splits)
qed

section \<open>Creating the buffer\<close>

lemma first_failure_None: "first_failure ok n = None \<longleftrightarrow> (\<forall>i < n. ok i)"
  by (induction n) (auto simp: less_Suc_eq split: option.splits)

lemma first_failure_Some:
  "first_failure ok n = Some i \<longleftrightarrow> i < n \<and> \<not> ok i \<and> (\<forall>j < i. ok j)"
proof (induction n)
  case (Suc n)
  then show ?case
    using first_failure_None [of ok n]
    by (cases "first_failure ok n") (auto simp: less_Suc_eq)
qed simp

lemma free_pages_down_Suc: "free_pages_down (Suc i) = Some (rev [1..<Suc i])"
  by (induction i) auto

lemma create_rb_holds:
  assumes "smon_create_rb a b ok junk n = Some (Some rb, ps)" and "unat n = 2 ^ k" and "1 \<le> k"
  shows "rb_inv rb [] \<and> rb_n_pages rb = n \<and> rb_active rb = 0 \<and> ps = [0..<unat n]"
proof -
  have n: "n \<le> 1024" and rb: "rb = \<lparr>rb_n_pages = n, rb_size = n * PAGE_SIZE, rb_data = junk,
      rb_head = 0, rb_tail = 0, rb_items = 0, rb_batch = RB_DEFAULT_BATCH,
      rb_active = 0, rb_irq = False\<rparr>" and ps: "ps = [0..<unat n]"
    using assms(1)
    by (auto simp: smon_create_rb_def SMON_MAX_PAGES_def bind_eq_Some_conv split: if_splits option.splits)
  have n': "unat n \<le> 1024" using n by (simp add: word_le_nat_alt)
  then have "(2::nat) ^ k \<le> 2 ^ 10" using assms(2) by simp
  then have "k \<le> 10" by (simp only: power_increasing_iff)
  moreover have "unat (n * PAGE_SIZE) = 4096 * unat n"
    using n' by (simp add: PAGE_SIZE_def unat_word_ariths)
  moreover have "0 < unat n" using assms(2) by simp
  ultimately have "rb_geom rb" using assms(2,3) by (auto simp: rb_geom_def rb)
  then have "rb_holds rb []"
    using rb_geom_bounds(8) [of rb] by (simp add: rb_holds_def rb rb_cap_def)
  then show ?thesis by (auto simp: rb_inv_def rb ps intro!: exI [of _ "[]"])
qed

section \<open>Consuming a prefix\<close>

lemma item_end_shift: "4096 dvd d \<Longrightarrow> item_end (p + d) x = item_end p x + d"
  by (cases x) (auto simp: next_page_def dvd_def)

lemma span_shift: "4096 dvd d \<Longrightarrow> span (p + d) xs = span p xs + d"
  by (induction xs arbitrary: p) (auto simp: item_end_shift)

lemma item_at_shift:
  assumes "4096 dvd S"
  shows "item_at m S (p + k * S) x = item_at m S p x"
proof -
  have "k * S mod 4096 = 0" using assms by simp
  then have "(p + k * S) mod 4096 = p mod 4096"
    by (metis add.right_neutral mod_add_right_eq)
  moreover have "rd m S (p + k * S) n = rd m S p n" for n
  proof -
    have "(p + k * S + i) mod S = (p + i) mod S" for i
    proof -
      have "p + k * S + i = p + i + k * S" by simp
      then show ?thesis by (simp only: mod_mult_self1)
    qed
    then show ?thesis by (simp add: rd_def)
  qed
  ultimately show ?thesis by (cases x) simp_all
qed

lemma laid_shift: "4096 dvd S \<Longrightarrow> laid m S (p + k * S) xs = laid m S p xs"
  by (induction xs arbitrary: p) (simp_all add: item_at_shift item_end_shift)

lemma holds_drop:
  assumes "rb_holds rb (xs @ ys)"
    and same: "rb_n_pages rb' = rb_n_pages rb" "rb_size rb' = rb_size rb" "rb_head rb' = rb_head rb"
      "rb_data rb' = rb_data rb"
    and tl: "unat (rb_tail rb') = span (unat (rb_tail rb)) xs mod rb_cap rb"
  shows "rb_holds rb' ys"
proof -
  define E where "E = span (unat (rb_tail rb)) xs"
  define S where "S = rb_cap rb"
  from assms(1) have g: "rb_geom rb" by (simp add: rb_holds_def)
  note b = rb_geom_bounds [OF g, folded S_def]
  have E: "E = E mod S + (E div S) * S" by simp
  have sp: "span E ys = span (E mod S) ys + (E div S) * S"
    by (subst E, subst span_shift) (use b(6) in auto)
  have "laid (flat rb) S E ys" using assms(1) by (simp add: rb_holds_def E_def S_def)
  then have l: "laid (flat rb) S (E mod S) ys"
    using laid_shift [OF b(6), of "flat rb" "E mod S" "E div S" ys] by simp
  have fl: "flat rb' = flat rb" using same by (simp add: flat_def fun_eq_iff)
  have c: "rb_cap rb' = S" using same by (simp add: rb_cap_def S_def)
  have "4 dvd E" using assms(1) b(4) by (auto simp: rb_holds_def E_def intro: span_dvd)
  then have "4 dvd E mod S" using b(7) by (simp add: dvd_mod)
  then have g': "rb_geom rb'"
    using g same tl b(8) unfolding rb_geom_def rb_cap_def [symmetric] c
    by (simp add: E_def S_def rb_cap_def)
  have "unat (rb_tail rb) \<le> E" by (simp add: E_def span_ge)
  moreover have "span E ys < unat (rb_tail rb) + S" using assms(1) by (simp add: rb_holds_def E_def S_def)
  ultimately have lt: "span (E mod S) ys < E mod S + S" using sp E by linarith
  have "unat (rb_head rb) = span E ys mod S" using assms(1) by (simp add: rb_holds_def E_def S_def)
  then have "unat (rb_head rb) = span (E mod S) ys mod S" by (simp add: sp)
  then show ?thesis using g' l lt same tl by (simp add: rb_holds_def c fl E_def S_def)
qed

lemma rb_read_prefix:
  assumes h: "rb_holds rb (xs @ ys)" and sz: "unat sz = span (unat (rb_tail rb)) xs - unat (rb_tail rb)"
  shows "rb_holds (smon_rb_read it sz rb) ys"
    "unat (rb_tail (smon_rb_read it sz rb)) = span (unat (rb_tail rb)) xs mod rb_cap rb"
proof -
  define t where "t = unat (rb_tail rb)"
  have g: "rb_geom rb" using h by (simp add: rb_holds_def)
  note b = rb_geom_bounds [OF g]
  have le: "t \<le> span t xs" "span t xs \<le> span (span t xs) ys" by (simp_all add: span_ge)
  have "\<not> sz > RB_COUNT rb"
    using holds_count(1) [OF h] sz le by (simp add: word_less_nat_alt t_def)
  moreover have "unat (rb_tail rb + sz) = span t xs"
    using sz le b(2,9) h unfolding t_def [symmetric]
    by (simp add: unat_word_ariths rb_holds_def t_def)
  ultimately show tl: "unat (rb_tail (smon_rb_read it sz rb)) = span (unat (rb_tail rb)) xs mod rb_cap rb"
    using unat_trim [OF g, of "rb_tail rb + sz"]
    by (simp add: smon_rb_read_def Let_def t_def HEAD_TRIM_PAGE_def RB_PAGEMASK_def)
  show "rb_holds (smon_rb_read it sz rb) ys"
    by (rule holds_drop [OF h _ _ _ _ tl]) (simp_all add: smon_rb_read_def Let_def)
qed

lemma rb_read_same:
  "rb_n_pages (smon_rb_read it sz rb) = rb_n_pages rb" "rb_size (smon_rb_read it sz rb) = rb_size rb"
  "rb_head (smon_rb_read it sz rb) = rb_head rb" "rb_data (smon_rb_read it sz rb) = rb_data rb"
  "rb_batch (smon_rb_read it sz rb) = rb_batch rb" "rb_active (smon_rb_read it sz rb) = rb_active rb"
  "rb_irq (smon_rb_read it sz rb) = rb_irq rb"
  "rb_items (smon_rb_read it sz rb) = (if it > rb_items rb then 0 else rb_items rb - it)"
  by (simp_all add: smon_rb_read_def Let_def)

lemma rb_inv_read:
  assumes h: "rb_holds rb (xs @ ys)" and "unat (rb_items rb) = length (recs (xs @ ys))"
    and "unat it = length (recs xs)"
    and "unat sz = span (unat (rb_tail rb)) xs - unat (rb_tail rb)"
  shows "rb_inv (smon_rb_read it sz rb) (recs ys)"
proof -
  have "unat (rb_items (smon_rb_read it sz rb)) = length (recs ys)"
    using assms(2,3) by (simp add: rb_read_same word_less_nat_alt unat_sub word_le_nat_alt)
  with rb_read_prefix(1) [OF h assms(4)] show ?thesis by (auto simp: rb_inv_def)
qed

section \<open>The last writer\<close>

lemma rb_inv_active: "rb_inv (rb\<lparr>rb_active := a\<rparr>) rs = rb_inv rb rs"
  by (simp add: rb_inv_def rb_holds_def rb_geom_def rb_cap_def flat_def [abs_def])

lemma rb_inv_irq: "rb_inv (rb\<lparr>rb_irq := a\<rparr>) rs = rb_inv rb rs"
  by (simp add: rb_inv_def rb_holds_def rb_geom_def rb_cap_def flat_def [abs_def])

lemma rb_inv_batch: "rb_inv (rb\<lparr>rb_batch := a\<rparr>) rs = rb_inv rb rs"
  by (simp add: rb_inv_def rb_holds_def rb_geom_def rb_cap_def flat_def [abs_def])

lemma rb_fits_active: "rb_fits (rb\<lparr>rb_active := a\<rparr>) n = rb_fits rb n"
  by (simp add: rb_fits_def rb_need_def RB_COUNT_def rb_cap_def)

lemma release_rb_spec:
  assumes "rb_inv rb rs"
  shows "\<exists>rb'. smon_release_rb rb = Some rb' \<and> rb_active rb' = rb_active rb - 1 \<and>
     rb_n_pages rb' = rb_n_pages rb \<and> rb_size rb' = rb_size rb \<and> rb_tail rb' = rb_tail rb \<and>
     rb_batch rb' = rb_batch rb \<and>
     (if rb_active rb = 1
      then rb_irq rb' \<and> rb_inv rb' (if rb_fits rb 0 then rs @ [Rec SAMPLE_TYPE_EOF []] else rs)
      else rb_inv rb' rs \<and> rb_irq rb' = rb_irq rb)"
proof (cases "rb_active rb = 1")
  case True
  have sz: "sample_size_of SAMPLE_TYPE_EOF = Some 0"
    by (simp add: sample_size_of_def sample_type_defs)
  have "rb_inv (rb\<lparr>rb_active := 0\<rparr>) rs" using assms by (simp add: rb_inv_active)
  from rb_inv_write [OF this sz, of "[]"] True show ?thesis
    by (auto simp: smon_release_rb_def smon_rb_write_eof_def rb_same_def rb_fits_active rb_inv_irq
        split: if_splits)
next
  case False
  then have "rb_active rb - 1 \<noteq> 0" by simp
  with False assms show ?thesis
    by (simp add: smon_release_rb_def Let_def rb_inv_active)
qed

section \<open>The contract for the writers\<close>

text \<open>
  What the sampling routines rely on: a write of a well-typed sample does not fault, and either
  appends that sample or leaves the contents alone.
\<close>

locale sample_fifo =
  fixes holds :: "'b \<Rightarrow> rb_item list \<Rightarrow> bool"
    and put :: "u32 \<Rightarrow> u8 list \<Rightarrow> 'b \<Rightarrow> 'b option"
    and same :: "'b \<Rightarrow> 'b \<Rightarrow> bool"
  assumes write_law: "holds q rs \<Longrightarrow> sample_size_of ty = Some n \<Longrightarrow> n \<le> length s \<Longrightarrow>
          \<exists>q'. put ty s q = Some q' \<and> same q q' \<and>
               (holds q' (rs @ [Rec ty (take n s)]) \<or> holds q' rs)"
    and same_refl: "same q q"
    and same_trans: "same q q1 \<Longrightarrow> same q1 q2 \<Longrightarrow> same q q2"
begin

text \<open>A sequence of writes: nothing is reordered, altered or invented.\<close>

lemma write_all_subseq:
  assumes "holds q rs"
    and "\<And>ty s. (ty, s) \<in> set ws \<Longrightarrow> \<exists>n. sample_size_of ty = Some n \<and> length s = n"
  shows "\<exists>q' ys. fold_opt (\<lambda>(ty, s). put ty s) ws q = Some q' \<and> same q q' \<and>
           holds q' (rs @ ys) \<and> subseq ys (map (\<lambda>(ty, s). Rec ty s) ws)"
  using assms
proof (induction ws arbitrary: q rs)
  case Nil
  then show ?case using same_refl by (auto intro!: exI [of _ "[]"])
next
  case (Cons w ws)
  obtain ty s where w: "w = (ty, s)" by (cases w)
  from Cons.prems(2) [of ty s] w have sz: "sample_size_of ty = Some (length s)" by auto
  from write_law [OF Cons.prems(1) sz order_refl] obtain q1 where
    "put ty s q = Some q1" "same q q1" "holds q1 (rs @ [Rec ty s]) \<or> holds q1 rs" by auto
  then obtain zs where q1: "put ty s q = Some q1" "same q q1" "holds q1 (rs @ zs)"
    "zs = [Rec ty s] \<or> zs = []" by (metis append_Nil2)
  from Cons.IH [OF q1(3)] Cons.prems(2) obtain q' ys where
    q': "fold_opt (\<lambda>(ty, s). put ty s) ws q1 = Some q'" "same q1 q'" "holds q' ((rs @ zs) @ ys)"
      "subseq ys (map (\<lambda>(ty, s). Rec ty s) ws)" by auto
  have "subseq (zs @ ys) (map (\<lambda>(ty, s). Rec ty s) (w # ws))"
    using q1(4) q'(4) w by auto
  with q1 q' w show ?case
    by (auto intro!: exI [of _ q'] exI [of _ "zs @ ys"] same_trans [of q q1 q'])
qed

end

interpretation fifo: sample_fifo rb_inv smon_rb_write rb_same
proof (unfold_locales, goal_cases)
  case (1 q rs ty n s)
  from rb_inv_write [OF this] show ?case by (auto split: if_splits)
next
  case 2 show ?case by (simp add: rb_same_def)
next
  case 3 then show ?case by (simp add: rb_same_def)
qed

end
