(* ===== verification/Ring_Safe.thy ===== *)
theory Ring_Safe
  imports Ring_Fifo
begin

text \<open>
  Memory safety of the ring buffer against its reader. The monitoring program chooses the
  arguments of \<^verbatim>\<open>smon_rb_read\<close>, so the tail may come to lie anywhere, inside a record or
  off the alignment of the records; the head is the kernel's. Whatever sequence of operations
  runs, no copy leaves a data page.
\<close>

datatype rb_op = OpWrite u32 "u8 list" | OpRead u32 u32 | OpGet | OpRelease | OpBatch u32 | OpWake

fun rb_exec :: "rb_op \<Rightarrow> smon_ring_buffer \<Rightarrow> smon_ring_buffer option" where
  "rb_exec (OpWrite ty s) rb = smon_rb_write ty s rb"
| "rb_exec (OpRead it sz) rb = Some (smon_rb_read it sz rb)"
| "rb_exec OpGet rb = Some (smon_get_rb rb)"
| "rb_exec OpRelease rb = smon_release_rb rb"
| "rb_exec (OpBatch b) rb = Some (rb\<lparr>rb_batch := b\<rparr>)"
| "rb_exec OpWake rb = Some (smon_wake_up_reader rb)"

text \<open>The kernel passes a sample of the size its type has; the reader's arguments are free.\<close>

fun op_wf :: "rb_op \<Rightarrow> bool" where
  "op_wf (OpWrite ty s) \<longleftrightarrow>
     (case sample_size_of ty of None \<Rightarrow> True | Some n \<Rightarrow> n \<le> length s)"
| "op_wf _ \<longleftrightarrow> True"

definition rb_safe :: "smon_ring_buffer \<Rightarrow> bool" where
  "rb_safe rb \<longleftrightarrow> rb_geom (rb\<lparr>rb_tail := 0\<rparr>) \<and> unat (rb_tail rb) < rb_cap rb"

lemma geom_safe: "rb_geom rb \<Longrightarrow> rb_safe rb"
  by (auto simp: rb_safe_def rb_geom_def rb_cap_def)

lemma rb_safe_bounds:
  assumes "rb_safe rb"
  shows "unat (rb_head rb) < rb_cap rb" "4 dvd unat (rb_head rb)"
    "rb_cap rb = 4096 * unat (rb_n_pages rb)" "8192 \<le> rb_cap rb" "rb_cap rb \<le> 4194304"
    "4 dvd rb_cap rb"
  using rb_geom_bounds [of "rb\<lparr>rb_tail := 0\<rparr>"] assms
  by (simp_all add: rb_safe_def rb_cap_def)

lemma rb_safe_trim: "rb_safe rb \<Longrightarrow> unat (HEAD_TRIM_PAGE rb x) = unat x mod rb_cap rb"
  using unat_trim [of "rb\<lparr>rb_tail := 0\<rparr>" x]
  by (simp add: rb_safe_def HEAD_TRIM_PAGE_def RB_PAGEMASK_def rb_cap_def)

text \<open>A new head inside the buffer and on the alignment of the records keeps the buffer safe.\<close>

lemma rb_safe_head:
  assumes "rb_safe rb" and "rb_n_pages rb' = rb_n_pages rb" and "rb_size rb' = rb_size rb"
    and "unat (rb_tail rb') < rb_cap rb" and "unat (rb_head rb') < rb_cap rb"
    and "4 dvd unat (rb_head rb')"
  shows "rb_safe rb'"
  using assms by (auto simp: rb_safe_def rb_geom_def rb_cap_def)

lemma rb_copy_safe:
  assumes "rb_safe rb" and "unat page = unat (rb_head rb) div 4096"
    and "unat off + length bs \<le> 4096"
  shows "\<exists>d. rb_copy page off bs rb = Some (rb\<lparr>rb_data := d\<rparr>)"
proof -
  have "unat page < unat (rb_n_pages rb)"
    using rb_safe_bounds(1,3) [OF assms(1)] assms(2) by (simp add: div_less_iff_less_mult mult.commute)
  with assms(3) have "rb_copy page off bs rb =
      Some (rb\<lparr>rb_data := page_write (unat page) (unat off) bs (rb_data rb)\<rparr>)"
    by (simp add: rb_copy_def)
  then show ?thesis by blast
qed

lemma stuff_page_safe:
  assumes "rb_safe rb"
  shows "\<exists>rb'. smon_rb_stuff_page rb = Some rb' \<and> rb_safe rb' \<and> unat (rb_head rb') mod 4096 = 0"
proof -
  define h' where "h' = 0 OR push_bit PAGE_SHIFT (RB_NEXT_PAGE rb (HEAD_PAGE (rb_head rb)))"
  have "unat (HEAD_OFFSET (rb_head rb)) + length (le_bytes header_size SAMPLE_TYPE_PAD) \<le> 4096"
    using dvd4_room [OF rb_safe_bounds(2) [OF assms]] by (simp add: unat_head_offset header_size_def)
  from rb_copy_safe [OF assms unat_head_page this] obtain d where d:
    "rb_copy (HEAD_PAGE (rb_head rb)) (HEAD_OFFSET (rb_head rb)) (le_bytes header_size SAMPLE_TYPE_PAD) rb
       = Some (rb\<lparr>rb_data := d\<rparr>)" by blast
  have u: "unat h' = next_page (unat (rb_head rb)) mod rb_cap rb"
    using unat_stuff_head [of "rb\<lparr>rb_tail := 0\<rparr>"] assms
    by (simp add: h'_def rb_safe_def RB_NEXT_PAGE_def RB_PAGEMASK_def rb_cap_def)
  have "4096 dvd unat h'"
    using rb_safe_bounds(3) [OF assms] by (simp add: u next_page_def dvd_mod)
  then have al: "unat h' mod 4096 = 0" "4 dvd unat h'"
    by (auto intro: dvd_trans [of 4 4096])
  have "unat h' < rb_cap rb" using rb_safe_bounds(4) [OF assms] by (simp add: u)
  then have "rb_safe (rb\<lparr>rb_data := d, rb_head := h'\<rparr>)"
    using al(2) assms by (intro rb_safe_head [OF assms]) (simp_all add: rb_safe_def)
  moreover have "smon_rb_stuff_page rb = Some (rb\<lparr>rb_data := d, rb_head := h'\<rparr>)"
    using d by (simp add: smon_rb_stuff_page_def Let_def h'_def RB_NEXT_PAGE_def RB_PAGEMASK_def)
  ultimately show ?thesis using al(1) by auto
qed

lemma rb_put_safe:
  assumes safe: "rb_safe rb" and sz: "sample_size_of ty = Some n" and n: "n \<le> length s"
    and room: "n + header_size \<le> 4096 - unat (rb_head rb) mod 4096"
  shows "\<exists>rb'. rb_put ty s n rb = Some rb' \<and> rb_safe rb'"
proof -
  note b = rb_safe_bounds [OF safe]
  define h' where "h' = HEAD_TRIM_PAGE rb (rb_head rb + of_nat (n + header_size))"
  have lt: "unat (rb_head rb) mod 4096 < 4096" by simp
  have "unat (HEAD_OFFSET (rb_head rb)) + length (le_bytes header_size ty) \<le> 4096"
    using room lt by (simp add: unat_head_offset header_size_def)
  from rb_copy_safe [OF safe unat_head_page this] obtain d where d:
    "rb_copy (HEAD_PAGE (rb_head rb)) (HEAD_OFFSET (rb_head rb)) (le_bytes header_size ty) rb
       = Some (rb\<lparr>rb_data := d\<rparr>)" by blast
  let ?rb = "rb\<lparr>rb_data := d\<rparr>"
  have safe': "rb_safe ?rb" using safe by (simp add: rb_safe_def rb_geom_def rb_cap_def)
  have two: "\<exists>d'. (if n > 0 then rb_copy (HEAD_PAGE (rb_head rb))
      (HEAD_OFFSET (rb_head rb) + of_nat header_size) (take n s) ?rb else Some ?rb)
      = Some (rb\<lparr>rb_data := d'\<rparr>)"
  proof (cases "n > 0")
    case True
    have "unat (HEAD_OFFSET (rb_head rb) + of_nat header_size) + length (take n s) \<le> 4096"
      using room lt True n by (simp add: unat_word_ariths unat_head_offset header_size_def)
    from rb_copy_safe [OF safe' _ this, of "HEAD_PAGE (rb_head rb)"] True show ?thesis
      by (auto simp: unat_head_page)
  qed auto
  then obtain d' where d': "(if n > 0 then rb_copy (HEAD_PAGE (rb_head rb))
      (HEAD_OFFSET (rb_head rb) + of_nat header_size) (take n s) ?rb else Some ?rb)
      = Some (rb\<lparr>rb_data := d'\<rparr>)" by blast
  have "unat (rb_head rb + of_nat (n + header_size)) = unat (rb_head rb) + (n + 4)"
    using b(1,5) sample_size_le [OF sz] by (simp add: unat_word_ariths unat_of_nat header_size_def)
  then have u: "unat h' = (unat (rb_head rb) + (n + 4)) mod rb_cap rb"
    by (simp add: h'_def rb_safe_trim [OF safe])
  have "4 dvd unat (rb_head rb) + (n + 4)" using b(2) sample_size_dvd [OF sz] by simp
  then have "4 dvd unat h'" "unat h' < rb_cap rb" using b(4,6) by (simp_all add: u dvd_mod)
  then have safe2: "rb_safe (rb\<lparr>rb_data := d', rb_head := h', rb_items := i, rb_irq := q\<rparr>)" for i q
    using safe by (intro rb_safe_head [OF safe]) (simp_all add: rb_safe_def)
  have trim: "HEAD_TRIM_PAGE (rb\<lparr>rb_data := d', rb_head := x\<rparr>) = HEAD_TRIM_PAGE rb" for x
    by (simp add: fun_eq_iff HEAD_TRIM_PAGE_def RB_PAGEMASK_def)
  have "rb_put ty s n rb = Some (rb\<lparr>rb_data := d', rb_head := h', rb_items := rb_items rb + 1,
      rb_irq := (rb_irq rb \<or> rb_items rb + 1 \<ge> rb_batch rb)\<rparr>)"
    unfolding rb_put_def Let_def d Option.bind.simps d' by (simp add: h'_def trim)
  then show ?thesis using safe2 by (simp only: option.inject simp_thms ex_simps)
qed

lemma rb_write_safe:
  assumes "rb_safe rb" and "op_wf (OpWrite ty s)"
  shows "\<exists>rb'. smon_rb_write ty s rb = Some rb' \<and> rb_safe rb'"
proof (cases "sample_size_of ty")
  case None
  then show ?thesis using assms by (simp add: smon_rb_write_def)
next
  case (Some n)
  with assms(2) have n: "n \<le> length s" by simp
  from stuff_page_safe [OF assms(1)] obtain rb1 where rb1: "smon_rb_stuff_page rb = Some rb1"
    "rb_safe rb1" "unat (rb_head rb1) mod 4096 = 0" by (elim exE conjE)
  have "n + header_size \<le> 4096" using sample_size_le [OF Some] by (simp add: header_size_def)
  with rb_put_safe [OF rb1(2) Some n] rb1(3)
  have "\<exists>rb'. rb_put ty s n rb1 = Some rb' \<and> rb_safe rb'" by simp
  with rb1 assms(1) rb_put_safe [OF assms(1) Some n] show ?thesis
    by (auto simp: rb_write_unfold [OF Some])
qed

lemma rb_safe_other:
  "rb_safe (rb\<lparr>rb_active := a\<rparr>) = rb_safe rb" "rb_safe (rb\<lparr>rb_irq := q\<rparr>) = rb_safe rb"
  "rb_safe (rb\<lparr>rb_batch := b\<rparr>) = rb_safe rb" "rb_safe (rb\<lparr>rb_items := i\<rparr>) = rb_safe rb"
  by (simp_all add: rb_safe_def rb_geom_def rb_cap_def)

lemma rb_read_safe:
  assumes "rb_safe rb"
  shows "rb_safe (smon_rb_read it sz rb)"
proof (rule rb_safe_head [OF assms])
  have "unat (HEAD_TRIM_PAGE rb x) < rb_cap rb" for x
    using rb_safe_bounds(4) [OF assms] by (simp add: rb_safe_trim [OF assms])
  then show "unat (rb_tail (smon_rb_read it sz rb)) < rb_cap rb"
    using rb_safe_bounds(1) [OF assms]
    by (auto simp: smon_rb_read_def Let_def HEAD_TRIM_PAGE_def RB_PAGEMASK_def)
qed (use rb_safe_bounds [OF assms] in \<open>simp_all add: rb_read_same\<close>)

lemma rb_exec_safe:
  assumes "op_wf a" and "rb_safe rb"
  shows "\<exists>rb'. rb_exec a rb = Some rb' \<and> rb_safe rb'"
proof (cases a)
  case OpRelease
  have w: "op_wf (OpWrite SAMPLE_TYPE_EOF [])" by (simp add: sample_size_of_def sample_type_defs)
  from rb_write_safe [OF _ this, of "rb\<lparr>rb_active := 0\<rparr>"] assms OpRelease show ?thesis
    by (auto simp: smon_release_rb_def Let_def smon_rb_write_eof_def rb_safe_other)
qed (use assms rb_write_safe [OF assms(2)] in
     \<open>auto simp: rb_safe_other rb_read_safe smon_get_rb_def smon_wake_up_reader_def\<close>)

lemma rb_run_safe:
  "list_all op_wf ops \<Longrightarrow> rb_safe rb \<Longrightarrow> \<exists>rb'. fold_opt rb_exec ops rb = Some rb' \<and> rb_safe rb'"
  by (rule fold_opt_inv) (auto simp: list_all_iff rb_exec_safe)

end
