(* ===== verification/Pmc.thy ===== *)
theory Pmc
  imports Evset Msr
begin

text \<open>
  \<^verbatim>\<open>driver/pmc.c\<close>: configuring, starting, stopping, saving and reloading the performance
  counters of the executing CPU.
\<close>

definition IA32_PERFEVTSEL :: "nat \<Rightarrow> i32" where "IA32_PERFEVTSEL x = 0x186 + of_nat x"
definition IA32_FIXED_CTR_CTRL :: i32 where "IA32_FIXED_CTR_CTRL = 0x38D"
definition IA32_PERF_GLOBAL_CTRL :: i32 where "IA32_PERF_GLOBAL_CTRL = 0x38F"
definition IA32_PERF_GLOBAL_OVF_CTRL :: i32 where "IA32_PERF_GLOBAL_OVF_CTRL = 0x390"
definition IA32_FX_CTR :: "nat \<Rightarrow> i32" where "IA32_FX_CTR x = 0x309 + of_nat x"
definition IA32_GP_CTR :: "nat \<Rightarrow> i32" where "IA32_GP_CTR x = 0x4C1 + of_nat x"

lemmas ia32_defs = IA32_PERFEVTSEL_def IA32_FIXED_CTR_CTRL_def IA32_PERF_GLOBAL_CTRL_def
  IA32_PERF_GLOBAL_OVF_CTRL_def IA32_FX_CTR_def IA32_GP_CTR_def

text \<open>The counters: \<open>fx\<close> has \<open>MAX_FX_CTRS\<close> elements, \<open>gp\<close> has \<open>MAX_GP_CTRS\<close>.\<close>

record smon_pmc =
  fx :: "i64 list"
  gp :: "i64 list"

definition pmc_wf :: "smon_pmc \<Rightarrow> bool" where
  "pmc_wf p \<longleftrightarrow> length (fx p) = MAX_FX_CTRS \<and> length (gp p) = MAX_GP_CTRS"

definition smon_pmc_clr_overflows :: "smon_mach \<Rightarrow> smon_mach" where
  "smon_pmc_clr_overflows m = msr_write IA32_PERF_GLOBAL_OVF_CTRL 0 m"

text \<open>The loop of \<^verbatim>\<open>smon_pmc_set\<close> from counter \<open>i\<close> on: the ids still to be looked up are the list.\<close>

fun pmc_set_loop :: "nat \<Rightarrow> i32 list \<Rightarrow> event_table \<Rightarrow> smon_mach \<Rightarrow> smon_mach option" where
  "pmc_set_loop i [] et m = Some m"
| "pmc_set_loop i (e # es) et m =
     do {
       event \<leftarrow> smon_get_event e et;
       pmc_set_loop (Suc i) es et
         (case event of None \<Rightarrow> m | Some ev \<Rightarrow> msr_write (IA32_PERFEVTSEL i) (perfevtsel ev) m)
     }"

definition smon_pmc_set :: "smon_evset \<Rightarrow> event_table \<Rightarrow> smon_mach \<Rightarrow> smon_mach option" where
  "smon_pmc_set evset et m =
     do {
       m \<leftarrow> pmc_set_loop 0 (evids evset) et
              (msr_write IA32_FIXED_CTR_CTRL (fixed_ctrl evset) m);
       Some (smon_pmc_clr_overflows m)
     }"

text \<open>Writing the values of a list to the registers \<open>r i, r (i + 1), \<dots>\<close>\<close>

fun write_ctrs :: "(nat \<Rightarrow> i32) \<Rightarrow> nat \<Rightarrow> i64 list \<Rightarrow> smon_mach \<Rightarrow> smon_mach" where
  "write_ctrs r i [] m = m"
| "write_ctrs r i (v # vs) m = write_ctrs r (Suc i) vs (msr_write (r i) v m)"

definition smon_pmc_reset :: "smon_mach \<Rightarrow> smon_mach" where
  "smon_pmc_reset m =
     write_ctrs IA32_GP_CTR 0 (replicate MAX_GP_CTRS 0)
       (write_ctrs IA32_FX_CTR 0 (replicate MAX_FX_CTRS 0) m)"

definition smon_pmc_unset :: "smon_evset \<Rightarrow> smon_mach \<Rightarrow> smon_mach" where
  "smon_pmc_unset evset m = m"

definition smon_pmc_start :: "smon_evset \<Rightarrow> smon_mach \<Rightarrow> smon_mach" where
  "smon_pmc_start evset m = msr_write IA32_PERF_GLOBAL_CTRL (global_ctrl evset) m"

definition smon_pmc_stop :: "smon_mach \<Rightarrow> smon_mach" where
  "smon_pmc_stop m = msr_write IA32_PERF_GLOBAL_CTRL 0 m"

text \<open>
  Reading the counters; the event-set argument may be the NULL that
  \<^verbatim>\<open>smon_envir_get_evset\<close> returned, and is dereferenced without a check.
\<close>

definition fx_enabled :: "smon_evset \<Rightarrow> nat \<Rightarrow> bool" where
  "fx_enabled evset i \<longleftrightarrow> fixed_ctrl evset AND push_bit (4 * i) 3 \<noteq> 0"

definition smon_pmc_read :: "smon_evset option \<Rightarrow> smon_mach \<Rightarrow> smon_pmc option" where
  "smon_pmc_read p m =
     do {
       evset \<leftarrow> p;
       Some \<lparr>fx = map (\<lambda>i. if fx_enabled evset i then msr_read (IA32_FX_CTR i) m else 0)
                    [0..<MAX_FX_CTRS],
             gp = map (\<lambda>(i, e). if 0 \<le> sint e then msr_read (IA32_GP_CTR i) m else 0)
                    (enumerate 0 (evids evset))\<rparr>
     }"

definition smon_pmc_write :: "smon_pmc \<Rightarrow> smon_mach \<Rightarrow> smon_mach" where
  "smon_pmc_write pmc m =
     smon_pmc_clr_overflows
       (write_ctrs IA32_GP_CTR 0 (gp pmc) (write_ctrs IA32_FX_CTR 0 (fx pmc) m))"

section \<open>What the operations change\<close>

lemma write_ctrs_frame [simp]:
  "cpu_id (write_ctrs r i vs m) = cpu_id m"
  "tsc_src (write_ctrs r i vs m) = tsc_src m"
  "tsc_n (write_ctrs r i vs m) = tsc_n m"
  by (induction vs arbitrary: i m) auto

lemma write_ctrs_other:
  "(\<And>j. i \<le> j \<Longrightarrow> j < i + length vs \<Longrightarrow> r j \<noteq> n) \<Longrightarrow>
     msr_read n (write_ctrs r i vs m) = msr_read n m"
proof (induction vs arbitrary: i m)
  case (Cons v vs)
  from Cons.prems [of i] have "r i \<noteq> n" by simp
  then have "msr_read n (msr_write (r i) v m) = msr_read n m" by (auto simp: msr_read_write)
  with Cons show ?case by simp
qed simp

lemma write_ctrs_read:
  assumes "inj_on r {i..<i + length vs}" and "j < length vs"
  shows "msr_read (r (i + j)) (write_ctrs r i vs m) = vs ! j"
  using assms
proof (induction vs arbitrary: i j m)
  case (Cons v vs)
  have inj: "inj_on r {Suc i..<Suc i + length vs}"
    using Cons.prems(1) by (rule inj_on_subset) auto
  show ?case
  proof (cases j)
    case 0
    have "r k \<noteq> r i" if "Suc i \<le> k" "k < Suc i + length vs" for k
      using Cons.prems(1) that by (auto dest: inj_onD)
    with 0 show ?thesis by (simp add: write_ctrs_other msr_read_write)
  next
    case (Suc j')
    with Cons.IH [OF inj, of j'] Cons.prems(2) show ?thesis by simp
  qed
qed simp

lemma of_nat_small_eq:
  "a < 2 ^ 32 \<Longrightarrow> b < 2 ^ 32 \<Longrightarrow> (of_nat a :: i32) = of_nat b \<longleftrightarrow> a = b"
  by (simp add: word_of_nat_eq_iff take_bit_nat_eq_self)

lemma ctr_regs_inj:
  "n \<le> 8 \<Longrightarrow> inj_on IA32_FX_CTR {0..<n}" "n \<le> 8 \<Longrightarrow> inj_on IA32_GP_CTR {0..<n}"
  by (auto simp: inj_on_def ia32_defs of_nat_small_eq)

lemma write_ctrs_map_read:
  assumes "inj_on r {0..<length vs}"
  shows "map (\<lambda>i. msr_read (r i) (write_ctrs r 0 vs m)) [0..<length vs] = vs"
  using assms by (auto intro!: nth_equalityI simp: write_ctrs_read [of r 0, simplified])

text \<open>The registers of the counters are none of the other registers the driver writes.\<close>

lemma ctr_regs_disjoint:
  assumes "i < 8" and "j < 8"
  shows "IA32_FX_CTR i \<noteq> IA32_GP_CTR j" "IA32_FX_CTR i \<noteq> IA32_PERF_GLOBAL_OVF_CTRL"
    "IA32_GP_CTR i \<noteq> IA32_PERF_GLOBAL_OVF_CTRL"
    "IA32_FX_CTR i \<noteq> IA32_PERF_GLOBAL_CTRL" "IA32_GP_CTR i \<noteq> IA32_PERF_GLOBAL_CTRL"
proof -
  have i: "i \<in> {0,1,2,3,4,5,6,7}" and j: "j \<in> {0,1,2,3,4,5,6,7}" using assms by auto
  from i j show "IA32_FX_CTR i \<noteq> IA32_GP_CTR j" by (auto simp: ia32_defs)
  from i show "IA32_FX_CTR i \<noteq> IA32_PERF_GLOBAL_OVF_CTRL"
    "IA32_GP_CTR i \<noteq> IA32_PERF_GLOBAL_OVF_CTRL"
    "IA32_FX_CTR i \<noteq> IA32_PERF_GLOBAL_CTRL" "IA32_GP_CTR i \<noteq> IA32_PERF_GLOBAL_CTRL"
    by (auto simp: ia32_defs)
qed

lemma pmc_write_read_ctr:
  assumes "pmc_wf p"
  shows "i < MAX_FX_CTRS \<Longrightarrow> msr_read (IA32_FX_CTR i) (smon_pmc_write p m) = fx p ! i"
    and "i < MAX_GP_CTRS \<Longrightarrow> msr_read (IA32_GP_CTR i) (smon_pmc_write p m) = gp p ! i"
proof -
  have len: "length (fx p) = 3" "length (gp p) = 4"
    using assms by (auto simp: pmc_wf_def MAX_FX_CTRS_def MAX_GP_CTRS_def)
  note inj = ctr_regs_inj(1) [of 3] ctr_regs_inj(2) [of 4]
  show "msr_read (IA32_FX_CTR i) (smon_pmc_write p m) = fx p ! i" if "i < MAX_FX_CTRS"
  proof -
    have i: "i < 3" using that by (simp add: MAX_FX_CTRS_def)
    have "IA32_GP_CTR j \<noteq> IA32_FX_CTR i" if "j < 4" for j
      using ctr_regs_disjoint(1) [of i j] i that by auto
    then show ?thesis
      using i len inj ctr_regs_disjoint(2) [of i 0] write_ctrs_read [of IA32_FX_CTR 0 "fx p" i]
      by (auto simp: smon_pmc_write_def smon_pmc_clr_overflows_def msr_read_write write_ctrs_other)
  qed
  show "msr_read (IA32_GP_CTR i) (smon_pmc_write p m) = gp p ! i" if "i < MAX_GP_CTRS"
  proof -
    have i: "i < 4" using that by (simp add: MAX_GP_CTRS_def)
    then show ?thesis
      using len inj ctr_regs_disjoint(3) [of i 0] write_ctrs_read [of IA32_GP_CTR 0 "gp p" i]
      by (auto simp: smon_pmc_write_def smon_pmc_clr_overflows_def msr_read_write)
  qed
qed

text \<open>The counters an event-set has enabled, the others read as zero.\<close>

definition pmc_masked :: "smon_evset \<Rightarrow> smon_pmc \<Rightarrow> smon_pmc" where
  "pmc_masked s p =
     \<lparr>fx = map (\<lambda>i. if fx_enabled s i then fx p ! i else 0) [0..<MAX_FX_CTRS],
      gp = map (\<lambda>(i, e). if 0 \<le> sint e then gp p ! i else 0) (enumerate 0 (evids s))\<rparr>"

lemma pmc_read_write:
  assumes "pmc_wf p" and "length (evids s) = MAX_GP_CTRS"
  shows "smon_pmc_read (Some s) (smon_pmc_write p m) = Some (pmc_masked s p)"
  using assms
  by (auto simp: smon_pmc_read_def pmc_masked_def pmc_write_read_ctr in_set_enumerate_eq)

lemma pmc_read_wf:
  "smon_pmc_read (Some s) m = Some p \<Longrightarrow> length (evids s) = MAX_GP_CTRS \<Longrightarrow> pmc_wf p"
  by (auto simp: smon_pmc_read_def pmc_wf_def)

lemma pmc_set_no_fault:
  assumes "event_inv et"
  shows "\<exists>m'. smon_pmc_set s et m = Some m' \<and> cpu_id m' = cpu_id m \<and>
           tsc_src m' = tsc_src m \<and> tsc_n m' = tsc_n m"
proof -
  have "\<exists>m'. pmc_set_loop i es et m = Some m' \<and> cpu_id m' = cpu_id m \<and>
          tsc_src m' = tsc_src m \<and> tsc_n m' = tsc_n m" for i es m
    using assms
    by (induction i es et m rule: pmc_set_loop.induct)
       (auto simp: event_get_spec split: option.splits)
  from this [of 0 "evids s" "msr_write IA32_FIXED_CTR_CTRL (fixed_ctrl s) m"]
  show ?thesis by (auto simp: smon_pmc_set_def smon_pmc_clr_overflows_def)
qed

end
