(* ===== verification/Sample_Data.thy ===== *)
theory Sample_Data
  imports Pmc Rapl Ring_Buffer
begin

text \<open>
  The sample structs of \<^verbatim>\<open>driver/smon.h\<close> and their images in memory on a 64-bit
  little-endian machine, with the alignment padding the compiler inserts. The kernel copies the
  image into the ring buffer and the monitoring program reads the fields at the same offsets.
  The structs live in zeroed memory, so their padding is zero, but for the migration sample, a
  local variable whose tail padding is whatever the kernel stack held: it is an argument.
\<close>

section \<open>The structs\<close>

record smon_sample_pmc =
  sp_start :: i64
  sp_stop :: i64
  sp_duration :: i64
  sp_pid :: i32
  sp_pmc :: smon_pmc
  sp_evset :: i32

record smon_sample_rapl =
  sr_timestamp :: i64
  sr_duration :: i64
  sr_rapl :: smon_rapl

record smon_sample_cpu =
  sc_timestamp :: i64
  sc_pid :: i32
  sc_old_cpu :: i32
  sc_new_cpu :: i32

record smon_sample_fork =
  sf_timestamp :: i64
  sf_parent :: i32
  sf_child :: i32

record smon_sample_sched =
  ss_timestamp_in :: i64
  ss_timestamp_out :: i64
  ss_pid :: i32
  ss_cpu :: i32

record smon_sample_info =
  si_timestamp :: i64
  si_pmc_sample_time :: u32
  si_rapl_sample_time :: u32
  si_units :: rapl_units
  si_tsc_frequency :: u32
  si_evsets :: u32
  si_n_cpus :: u32

section \<open>Images\<close>

definition pmc_image :: "smon_sample_pmc \<Rightarrow> u8 list" where
  "pmc_image s =
     le_bytes 8 (sp_start s) @ le_bytes 8 (sp_stop s) @ le_bytes 8 (sp_duration s) @
     le_bytes 4 (sp_pid s) @ replicate 4 0 @
     concat (map (le_bytes 8) (fx (sp_pmc s))) @ concat (map (le_bytes 8) (gp (sp_pmc s))) @
     le_bytes 4 (sp_evset s) @ replicate 4 0"

definition rapl_image :: "smon_sample_rapl \<Rightarrow> u8 list" where
  "rapl_image s =
     le_bytes 8 (sr_timestamp s) @ le_bytes 8 (sr_duration s) @ le_bytes 8 (pkg (sr_rapl s)) @
     le_bytes 8 (pp0 (sr_rapl s)) @ le_bytes 8 (pp1 (sr_rapl s))"

definition cpu_image :: "u32 \<Rightarrow> smon_sample_cpu \<Rightarrow> u8 list" where
  "cpu_image pad s =
     le_bytes 8 (sc_timestamp s) @ le_bytes 4 (sc_pid s) @ le_bytes 4 (sc_old_cpu s) @
     le_bytes 4 (sc_new_cpu s) @ le_bytes 4 pad"

definition fork_image :: "smon_sample_fork \<Rightarrow> u8 list" where
  "fork_image s =
     le_bytes 8 (sf_timestamp s) @ le_bytes 4 (sf_parent s) @ le_bytes 4 (sf_child s)"

definition sched_image :: "smon_sample_sched \<Rightarrow> u8 list" where
  "sched_image s =
     le_bytes 8 (ss_timestamp_in s) @ le_bytes 8 (ss_timestamp_out s) @
     le_bytes 4 (ss_pid s) @ le_bytes 4 (ss_cpu s)"

definition info_image :: "smon_sample_info \<Rightarrow> u8 list" where
  "info_image s =
     le_bytes 8 (si_timestamp s) @ le_bytes 4 (si_pmc_sample_time s) @
     le_bytes 4 (si_rapl_sample_time s) @ le_bytes 8 (energy_units (si_units s)) @
     le_bytes 8 (power_units (si_units s)) @ le_bytes 8 (time_units (si_units s)) @
     le_bytes 4 (si_tsc_frequency s) @ le_bytes 4 (si_evsets s) @ le_bytes 4 (si_n_cpus s) @
     replicate 4 0"

section \<open>Fields of an image\<close>

definition fld :: "nat \<Rightarrow> nat \<Rightarrow> u8 list \<Rightarrow> 'a::len word" where
  "fld off n bs = le_word (take n (drop off bs))"

definition dec_pmc :: "u8 list \<Rightarrow> smon_sample_pmc" where
  "dec_pmc bs =
     \<lparr>sp_start = fld 0 8 bs, sp_stop = fld 8 8 bs, sp_duration = fld 16 8 bs, sp_pid = fld 24 4 bs,
      sp_pmc = \<lparr>fx = map (\<lambda>i. fld (32 + 8 * i) 8 bs) [0..<MAX_FX_CTRS],
                gp = map (\<lambda>i. fld (56 + 8 * i) 8 bs) [0..<MAX_GP_CTRS]\<rparr>,
      sp_evset = fld 88 4 bs\<rparr>"

definition dec_rapl :: "u8 list \<Rightarrow> smon_sample_rapl" where
  "dec_rapl bs =
     \<lparr>sr_timestamp = fld 0 8 bs, sr_duration = fld 8 8 bs,
      sr_rapl = \<lparr>pkg = fld 16 8 bs, pp0 = fld 24 8 bs, pp1 = fld 32 8 bs\<rparr>\<rparr>"

definition dec_cpu :: "u8 list \<Rightarrow> smon_sample_cpu" where
  "dec_cpu bs =
     \<lparr>sc_timestamp = fld 0 8 bs, sc_pid = fld 8 4 bs, sc_old_cpu = fld 12 4 bs,
      sc_new_cpu = fld 16 4 bs\<rparr>"

definition dec_fork :: "u8 list \<Rightarrow> smon_sample_fork" where
  "dec_fork bs = \<lparr>sf_timestamp = fld 0 8 bs, sf_parent = fld 8 4 bs, sf_child = fld 12 4 bs\<rparr>"

definition dec_sched :: "u8 list \<Rightarrow> smon_sample_sched" where
  "dec_sched bs =
     \<lparr>ss_timestamp_in = fld 0 8 bs, ss_timestamp_out = fld 8 8 bs, ss_pid = fld 16 4 bs,
      ss_cpu = fld 20 4 bs\<rparr>"

definition dec_info :: "u8 list \<Rightarrow> smon_sample_info" where
  "dec_info bs =
     \<lparr>si_timestamp = fld 0 8 bs, si_pmc_sample_time = fld 8 4 bs, si_rapl_sample_time = fld 12 4 bs,
      si_units = \<lparr>power_units = fld 24 8 bs, energy_units = fld 16 8 bs, time_units = fld 32 8 bs\<rparr>,
      si_tsc_frequency = fld 40 4 bs, si_evsets = fld 44 4 bs, si_n_cpus = fld 48 4 bs\<rparr>"

section \<open>Sizes and round trips\<close>

lemma pmc_wfE:
  assumes "pmc_wf p"
  obtains a b c d e f g where "p = \<lparr>fx = [a, b, c], gp = [d, e, f, g]\<rparr>"
proof -
  from assms have "length (fx p) = Suc (Suc (Suc 0))" "length (gp p) = Suc (Suc (Suc (Suc 0)))"
    by (simp_all add: pmc_wf_def MAX_FX_CTRS_def MAX_GP_CTRS_def)
  then obtain a b c d e f g where "fx p = [a, b, c]" "gp p = [d, e, f, g]"
    by (auto simp: length_Suc_conv)
  then show thesis by (intro that) (cases p, simp)
qed

lemma image_length [len_simps]:
  "pmc_wf (sp_pmc s) \<Longrightarrow> length (pmc_image s) = sizeof_pmc"
  "length (rapl_image r) = sizeof_rapl" "length (cpu_image pad c) = sizeof_cpu"
  "length (fork_image f) = sizeof_fork" "length (sched_image d) = sizeof_sched"
  "length (info_image i) = sizeof_info"
  by (auto elim!: pmc_wfE simp: pmc_image_def rapl_image_def cpu_image_def fork_image_def
      sched_image_def info_image_def sizeof_defs)

lemma dec_pmc_image: "pmc_wf (sp_pmc s) \<Longrightarrow> dec_pmc (pmc_image s) = s"
  by (cases s) (auto elim!: pmc_wfE simp: dec_pmc_def pmc_image_def fld_def MAX_FX_CTRS_def
      MAX_GP_CTRS_def upt_conv_Cons)

lemma dec_rapl_image [simp]: "dec_rapl (rapl_image s) = s"
  by (simp add: dec_rapl_def rapl_image_def fld_def)

lemma dec_cpu_image [simp]: "dec_cpu (cpu_image pad s) = s"
  by (simp add: dec_cpu_def cpu_image_def fld_def)

lemma dec_fork_image [simp]: "dec_fork (fork_image s) = s"
  by (simp add: dec_fork_def fork_image_def fld_def)

lemma dec_sched_image [simp]: "dec_sched (sched_image s) = s"
  by (simp add: dec_sched_def sched_image_def fld_def)

lemma dec_info_image [simp]: "dec_info (info_image s) = s"
  by (simp add: dec_info_def info_image_def fld_def)

section \<open>A sample of any type\<close>

datatype smon_sample =
    PmcSample smon_sample_pmc
  | RaplSample smon_sample_rapl
  | CpuSample smon_sample_cpu
  | SchedSample smon_sample_sched
  | ForkSample smon_sample_fork
  | InfoSample smon_sample_info

fun sample_wf :: "smon_sample \<Rightarrow> bool" where
  "sample_wf (PmcSample s) \<longleftrightarrow> pmc_wf (sp_pmc s)"
| "sample_wf _ \<longleftrightarrow> True"

fun sample_type :: "smon_sample \<Rightarrow> u32" where
  "sample_type (PmcSample s) = SAMPLE_TYPE_PMC"
| "sample_type (RaplSample s) = SAMPLE_TYPE_RAPL"
| "sample_type (CpuSample s) = SAMPLE_TYPE_CPU"
| "sample_type (SchedSample s) = SAMPLE_TYPE_SCHED"
| "sample_type (ForkSample s) = SAMPLE_TYPE_FORK"
| "sample_type (InfoSample s) = SAMPLE_TYPE_INFO"

fun sample_image :: "u32 \<Rightarrow> smon_sample \<Rightarrow> u8 list" where
  "sample_image pad (PmcSample s) = pmc_image s"
| "sample_image pad (RaplSample s) = rapl_image s"
| "sample_image pad (CpuSample s) = cpu_image pad s"
| "sample_image pad (SchedSample s) = sched_image s"
| "sample_image pad (ForkSample s) = fork_image s"
| "sample_image pad (InfoSample s) = info_image s"

text \<open>The sample that a record of the given type holds; other types carry none.\<close>

definition decode_sample :: "u32 \<Rightarrow> u8 list \<Rightarrow> smon_sample option" where
  "decode_sample ty bs =
     (if ty = SAMPLE_TYPE_PMC then Some (PmcSample (dec_pmc bs))
      else if ty = SAMPLE_TYPE_RAPL then Some (RaplSample (dec_rapl bs))
      else if ty = SAMPLE_TYPE_CPU then Some (CpuSample (dec_cpu bs))
      else if ty = SAMPLE_TYPE_SCHED then Some (SchedSample (dec_sched bs))
      else if ty = SAMPLE_TYPE_FORK then Some (ForkSample (dec_fork bs))
      else if ty = SAMPLE_TYPE_INFO then Some (InfoSample (dec_info bs))
      else None)"

lemma sample_size_image:
  "sample_wf s \<Longrightarrow> sample_size_of (sample_type s) = Some (length (sample_image pad s))"
  by (cases s) (auto simp: sample_size_of_def sample_type_defs len_simps)

lemma decode_sample_image:
  "sample_wf s \<Longrightarrow> decode_sample (sample_type s) (sample_image pad s) = Some s"
  by (cases s) (auto simp: decode_sample_def sample_type_defs dec_pmc_image)

end
