(* ===== verification/Kernel_State.thy ===== *)
theory Kernel_State
  imports Envir Rapl Ring_Safe Sample_Data
begin

text \<open>
  The state the scheduler hooks work on: the structures of \<^verbatim>\<open>driver/smon.h\<close> in a heap, the
  lists of \<^verbatim>\<open>struct smon_sched\<close> and what the hooks read of the kernel. A pointer is an
  address; a load from an address that holds nothing is a use after free, and a fault.
\<close>

type_synonym addr = nat

text \<open>
  A high-resolution timer: whether it is queued, and the interval it was last started or forwarded
  with. Its expiry is an event of its own.
\<close>

record hrtimer =
  tm_active :: bool
  tm_kt :: u64

definition hrtimer_init :: hrtimer where
  "hrtimer_init = \<lparr>tm_active = False, tm_kt = 0\<rparr>"

definition hrtimer_start :: "u64 \<Rightarrow> hrtimer \<Rightarrow> hrtimer" where
  "hrtimer_start kt tm = \<lparr>tm_active = True, tm_kt = kt\<rparr>"

definition hrtimer_forward :: "u64 \<Rightarrow> hrtimer \<Rightarrow> hrtimer" where
  "hrtimer_forward kt tm = tm\<lparr>tm_kt := kt\<rparr>"

definition hrtimer_cancel :: "hrtimer \<Rightarrow> hrtimer" where
  "hrtimer_cancel tm = tm\<lparr>tm_active := False\<rparr>"

lemmas hrtimer_defs = hrtimer_init_def hrtimer_start_def hrtimer_forward_def hrtimer_cancel_def

record smon_task_extra =
  x_rapl_sample :: smon_sample_rapl
  x_rapl_sample_time :: u32
  x_rapl_timer :: hrtimer
  x_timer_flags :: u32
  x_info_sample :: smon_sample_info
  x_rb :: "addr option"

text \<open>
  The node \<^verbatim>\<open>children\<close> is given by the tasks whose nodes are the next and the previous one
  of it; the list links of \<^verbatim>\<open>task_list\<close>, \<^verbatim>\<open>cpu_list\<close> and \<^verbatim>\<open>wait_list\<close> are the
  lists of the state below.
\<close>

record smon_task =
  t_p :: "addr option"
  t_pid :: i32
  t_envir :: "addr option"
  t_evset :: i32
  t_ch_next :: addr
  t_ch_prev :: addr
  t_n_children :: u32
  t_sample_pmc :: smon_sample_pmc
  t_tsc_tmp :: i64
  t_timer :: hrtimer
  t_kt_remain :: i64
  t_timer_flags :: u32
  t_sample_sched :: smon_sample_sched
  t_extra :: "smon_task_extra option"
  t_rb :: "addr option"

definition SMON_TIMER_ON :: u32 where "SMON_TIMER_ON = 1"

text \<open>The pieces of interrupt work that can be queued, each naming the task it belongs to.\<close>

datatype irq_item = StartPmc addr | StopPmc addr | StartRapl addr | StopRapl addr

text \<open>
  The last group of fields is the kernel's: the process identifier and the processor of a
  \<^verbatim>\<open>task_struct\<close>, the list that \<^verbatim>\<open>for_each_process\<close> walks, the address of
  \<^verbatim>\<open>init_task\<close> where it ends, and \<^verbatim>\<open>num_online_cpus\<close>.
\<close>

record kstate =
  ks_mach :: smon_mach
  ks_events :: event_table
  ks_evsets :: evset_table
  ks_tasks :: "addr \<Rightarrow> smon_task option"
  ks_envirs :: "addr \<Rightarrow> smon_envir option"
  ks_rbs :: "addr \<Rightarrow> smon_ring_buffer option"
  ks_task_list :: "addr list"
  ks_cpu_list :: "nat \<Rightarrow> addr list"
  ks_wait_list :: "addr list"
  ks_irq :: "irq_item list"
  ks_pid :: "addr \<Rightarrow> i32"
  ks_task_cpu :: "addr \<Rightarrow> nat"
  ks_processes :: "addr list"
  ks_init_task :: addr
  ks_online_cpus :: u32

definition put_task :: "addr \<Rightarrow> smon_task \<Rightarrow> kstate \<Rightarrow> kstate" where
  "put_task a t ks = ks\<lparr>ks_tasks := (ks_tasks ks)(a \<mapsto> t)\<rparr>"

definition put_rb :: "addr \<Rightarrow> smon_ring_buffer \<Rightarrow> kstate \<Rightarrow> kstate" where
  "put_rb r rb ks = ks\<lparr>ks_rbs := (ks_rbs ks)(r \<mapsto> rb)\<rparr>"

definition put_envir :: "addr \<Rightarrow> smon_envir \<Rightarrow> kstate \<Rightarrow> kstate" where
  "put_envir e v ks = ks\<lparr>ks_envirs := (ks_envirs ks)(e \<mapsto> v)\<rparr>"

definition task_envir :: "smon_task \<Rightarrow> kstate \<Rightarrow> smon_envir option" where
  "task_envir t ks = do { e \<leftarrow> t_envir t; ks_envirs ks e }"

text \<open>\<^verbatim>\<open>irq_work_queue\<close>: a work that is already pending is not queued a second time.\<close>

definition irq_work_queue :: "irq_item \<Rightarrow> kstate \<Rightarrow> kstate" where
  "irq_work_queue i ks = (if i \<in> set (ks_irq ks) then ks else ks\<lparr>ks_irq := ks_irq ks @ [i]\<rparr>)"

section \<open>Linked lists\<close>

text \<open>
  \<^verbatim>\<open>list_add\<close> and \<^verbatim>\<open>list_del\<close> also write the neighbours' links: a neighbour that has been
  freed is a fault. \<open>live\<close> tells which nodes are allocated.
\<close>

definition list_add :: "(addr \<Rightarrow> bool) \<Rightarrow> addr \<Rightarrow> addr list \<Rightarrow> addr list option" where
  "list_add live a xs = (case xs of [] \<Rightarrow> Some [a] | x # _ \<Rightarrow> if live x then Some (a # xs) else None)"

fun list_del :: "(addr \<Rightarrow> bool) \<Rightarrow> addr \<Rightarrow> addr list \<Rightarrow> addr list option" where
  "list_del live a [] = Some []"
| "list_del live a (x # xs) =
     (if x = a
      then (case xs of [] \<Rightarrow> Some [] | y # _ \<Rightarrow> if live y then Some xs else None)
      else if (case xs of [] \<Rightarrow> False | y # _ \<Rightarrow> y = a) \<and> \<not> live x then None
      else map_option ((#) x) (list_del live a xs))"

definition task_live :: "kstate \<Rightarrow> addr \<Rightarrow> bool" where
  "task_live ks a \<longleftrightarrow> ks_tasks ks a \<noteq> None"

text \<open>\<^verbatim>\<open>list_for_each_entry\<close> up to the first task that satisfies the condition.\<close>

fun find_entry :: "(smon_task \<Rightarrow> bool) \<Rightarrow> kstate \<Rightarrow> addr list \<Rightarrow> addr option option" where
  "find_entry P ks [] = Some None"
| "find_entry P ks (a # as) = do {
     t \<leftarrow> ks_tasks ks a;
     if P t then Some (Some a) else find_entry P ks as
   }"

lemma list_add_live: "\<forall>x \<in> set xs. live x \<Longrightarrow> list_add live a xs = Some (a # xs)"
  by (cases xs) (simp_all add: list_add_def)

lemma list_del_live: "\<forall>x \<in> set xs. live x \<Longrightarrow> list_del live a xs = Some (remove1 a xs)"
  by (induction xs) (auto split: list.splits)

lemma find_entry_live:
  assumes "\<forall>x \<in> set xs. task_live ks x"
  obtains "find_entry P ks xs = Some None" "\<forall>a \<in> set xs. \<forall>t. ks_tasks ks a = Some t \<longrightarrow> \<not> P t"
  | a t where "find_entry P ks xs = Some (Some a)" "a \<in> set xs" "ks_tasks ks a = Some t" "P t"
  using assms
proof (induction xs arbitrary: thesis)
  case (Cons x xs)
  then obtain t where t: "ks_tasks ks x = Some t" by (auto simp: task_live_def)
  show ?case
  proof (cases "P t")
    case True
    with t show ?thesis by (intro Cons.prems(2) [of x t]) simp_all
  next
    case False
    show ?thesis
      by (rule Cons.IH) (use t False Cons.prems in auto)
  qed
qed simp

lemma find_entry_Some:
  "find_entry P ks xs = Some (Some a) \<Longrightarrow> a \<in> set xs \<and> (\<exists>t. ks_tasks ks a = Some t \<and> P t)"
  by (induction xs) (auto simp: bind_eq_Some_conv split: if_splits)

end
