(* ===== verification/Sample.thy ===== *)
theory Sample
  imports Kernel_State Pmc
begin

text \<open>
  \<^verbatim>\<open>driver/sample.c\<close>: taking and saving the samples of a task. The task is named by its
  address; the processor that runs the code is the one of the machine state.
\<close>

text \<open>The array \<^verbatim>\<open>cpu[NR_CPUS]\<close> after \<^verbatim>\<open>smon_sample_init\<close>: its only field, per processor.\<close>

definition smon_sample_init :: "nat \<Rightarrow> i32 list" where
  "smon_sample_init nr_cpus = replicate nr_cpus (- 1)"

definition smon_sample_write :: "addr option \<Rightarrow> u32 \<Rightarrow> u8 list \<Rightarrow> kstate \<Rightarrow> kstate option" where
  "smon_sample_write p ty sample ks =
     (case p of
        None \<Rightarrow> Some ks
      | Some r \<Rightarrow> do {
          rb \<leftarrow> ks_rbs ks r;
          rb' \<leftarrow> smon_rb_write ty sample rb;
          Some (put_rb r rb' ks)
        })"

section \<open>Counters\<close>

definition smon_sample_start :: "addr \<Rightarrow> kstate \<Rightarrow> kstate option" where
  "smon_sample_start a ks = do {
     t \<leftarrow> ks_tasks ks a;
     e \<leftarrow> task_envir t ks;
     esid \<leftarrow> envir_esid e (t_evset t);
     evset \<leftarrow> smon_get_evset esid (ks_evsets ks);
     case evset of
       None \<Rightarrow> Some ks
     | Some s \<Rightarrow> do {
         m \<leftarrow> smon_pmc_set s (ks_events ks) (ks_mach ks);
         let m = smon_pmc_write (sp_pmc (t_sample_pmc t)) m;
         let (tsc, m) = msr_rdtsc m;
         let t = t\<lparr>t_tsc_tmp := tsc\<rparr>;
         let t = (if sp_start (t_sample_pmc t) = 0
                  then t\<lparr>t_sample_pmc := (t_sample_pmc t)\<lparr>sp_start := tsc\<rparr>\<rparr> else t);
         let m = smon_pmc_start s m;
         Some (put_task a t (ks\<lparr>ks_mach := m\<rparr>))
       }
   }"

definition smon_sample_stop :: "addr \<Rightarrow> kstate \<Rightarrow> kstate option" where
  "smon_sample_stop a ks = do {
     t \<leftarrow> ks_tasks ks a;
     let m = smon_pmc_stop (ks_mach ks);
     let (tsc, m) = msr_rdtsc m;
     let s = (t_sample_pmc t)\<lparr>sp_stop := tsc\<rparr>;
     let s = s\<lparr>sp_duration := sp_duration s + (tsc - t_tsc_tmp t)\<rparr>;
     e \<leftarrow> task_envir t ks;
     evset \<leftarrow> smon_envir_get_evset e (t_evset t) (ks_evsets ks);
     pmc \<leftarrow> smon_pmc_read evset m;
     Some (put_task a (t\<lparr>t_sample_pmc := s\<lparr>sp_pmc := pmc\<rparr>\<rparr>) (ks\<lparr>ks_mach := m\<rparr>))
   }"

text \<open>The sample after the \<^verbatim>\<open>memset\<close>.\<close>

definition zero_sample_pmc :: smon_sample_pmc where
  "zero_sample_pmc =
     \<lparr>sp_start = 0, sp_stop = 0, sp_duration = 0, sp_pid = 0,
      sp_pmc = \<lparr>fx = replicate MAX_FX_CTRS 0, gp = replicate MAX_GP_CTRS 0\<rparr>, sp_evset = 0\<rparr>"

definition smon_sample_save :: "addr \<Rightarrow> kstate \<Rightarrow> kstate option" where
  "smon_sample_save a ks = do {
     t \<leftarrow> ks_tasks ks a;
     let s = (t_sample_pmc t)\<lparr>sp_pid := t_pid t, sp_evset := t_evset t\<rparr>;
     ks \<leftarrow> smon_sample_write (t_rb t) SAMPLE_TYPE_PMC (pmc_image s) ks;
     e \<leftarrow> task_envir t ks;
     next_evset \<leftarrow> smon_envir_next_evset e (t_evset t);
     Some (put_task a (t\<lparr>t_sample_pmc := zero_sample_pmc, t_evset := next_evset\<rparr>) ks)
   }"

section \<open>RAPL\<close>

definition smon_sample_rapl_start :: "smon_sample_rapl \<Rightarrow> smon_mach \<Rightarrow> smon_sample_rapl \<times> smon_mach" where
  "smon_sample_rapl_start sample m =
     (let sample = sample\<lparr>sr_rapl := smon_rapl_read m\<rparr>;
          (tsc, m) = msr_rdtsc m
      in (sample\<lparr>sr_timestamp := tsc\<rparr>, m))"

definition smon_sample_rapl_stop :: "smon_sample_rapl \<Rightarrow> smon_mach \<Rightarrow> smon_sample_rapl \<times> smon_mach" where
  "smon_sample_rapl_stop sample m =
     (let rapl = smon_rapl_read m;
          (tsc, m) = msr_rdtsc m;
          sample = sample\<lparr>sr_duration := tsc - sr_timestamp sample\<rparr>
      in (sample\<lparr>sr_rapl := smon_rapl_sub rapl (sr_rapl sample)\<rparr>, m))"

definition smon_sample_rapl_save :: "addr option \<Rightarrow> smon_sample_rapl \<Rightarrow> kstate \<Rightarrow> kstate option" where
  "smon_sample_rapl_save rb sample ks = smon_sample_write rb SAMPLE_TYPE_RAPL (rapl_image sample) ks"

section \<open>Scheduling periods\<close>

definition smon_sample_sched_in :: "addr \<Rightarrow> kstate \<Rightarrow> kstate option" where
  "smon_sample_sched_in a ks = do {
     t \<leftarrow> ks_tasks ks a;
     let s = (t_sample_sched t)\<lparr>ss_cpu := cpu_id (ks_mach ks)\<rparr>;
     let (tsc, m) = msr_rdtsc (ks_mach ks);
     Some (put_task a (t\<lparr>t_sample_sched := s\<lparr>ss_timestamp_in := tsc\<rparr>\<rparr>) (ks\<lparr>ks_mach := m\<rparr>))
   }"

definition smon_sample_sched_out :: "addr \<Rightarrow> kstate \<Rightarrow> kstate option" where
  "smon_sample_sched_out a ks = do {
     t \<leftarrow> ks_tasks ks a;
     let (tsc, m) = msr_rdtsc (ks_mach ks);
     Some (put_task a (t\<lparr>t_sample_sched := (t_sample_sched t)\<lparr>ss_timestamp_out := tsc\<rparr>\<rparr>)
             (ks\<lparr>ks_mach := m\<rparr>))
   }"

definition smon_sample_sched_save :: "addr \<Rightarrow> kstate \<Rightarrow> kstate option" where
  "smon_sample_sched_save a ks = do {
     t \<leftarrow> ks_tasks ks a;
     smon_sample_write (t_rb t) SAMPLE_TYPE_SCHED (sched_image (t_sample_sched t)) ks
   }"

section \<open>Information\<close>

definition smon_sample_get_info ::
  "u32 \<Rightarrow> smon_sample_info \<Rightarrow> smon_envir \<Rightarrow> smon_mach \<Rightarrow> smon_sample_info \<times> smon_mach" where
  "smon_sample_get_info online_cpus info envir m =
     (let info = info\<lparr>si_evsets := n_esids envir\<rparr>;
          info = info\<lparr>si_n_cpus := online_cpus\<rparr>;
          info = info\<lparr>si_pmc_sample_time := sample_time envir\<rparr>;
          info = info\<lparr>si_rapl_sample_time := sample_time envir\<rparr>;
          info = info\<lparr>si_units := smon_rapl_get_info m\<rparr>;
          info = info\<lparr>si_tsc_frequency := msr_tsc_frequency m\<rparr>;
          (tsc, m) = msr_rdtsc m
      in (info\<lparr>si_timestamp := tsc\<rparr>, m))"

definition smon_sample_info_save :: "addr option \<Rightarrow> smon_sample_info \<Rightarrow> kstate \<Rightarrow> kstate option" where
  "smon_sample_info_save rb sample ks = smon_sample_write rb SAMPLE_TYPE_INFO (info_image sample) ks"

end
