(* ===== verification/Task.thy ===== *)
theory Task
  imports Sample
begin

text \<open>
  \<^verbatim>\<open>driver/task.c\<close>: creating and destroying monitored tasks. The allocator's answers are
  arguments: the address of the new structure, or \<open>None\<close>.
\<close>

text \<open>\<^verbatim>\<open>for_each_process\<close> stops at the process, or ends at \<^verbatim>\<open>init_task\<close>.\<close>

definition find_process :: "i32 \<Rightarrow> kstate \<Rightarrow> addr" where
  "find_process pid ks =
     (case filter (\<lambda>p. ks_pid ks p = pid) (ks_processes ks) of [] \<Rightarrow> ks_init_task ks | p # _ \<Rightarrow> p)"

definition zero_sample_sched :: smon_sample_sched where
  "zero_sample_sched = \<lparr>ss_timestamp_in = 0, ss_timestamp_out = 0, ss_pid = 0, ss_cpu = 0\<rparr>"

definition zero_sample_rapl :: smon_sample_rapl where
  "zero_sample_rapl = \<lparr>sr_timestamp = 0, sr_duration = 0, sr_rapl = \<lparr>pkg = 0, pp0 = 0, pp1 = 0\<rparr>\<rparr>"

definition zero_sample_info :: smon_sample_info where
  "zero_sample_info =
     \<lparr>si_timestamp = 0, si_pmc_sample_time = 0, si_rapl_sample_time = 0,
      si_units = \<lparr>power_units = 0, energy_units = 0, time_units = 0\<rparr>, si_tsc_frequency = 0,
      si_evsets = 0, si_n_cpus = 0\<rparr>"

text \<open>A task fresh from \<^verbatim>\<open>kzalloc\<close>; its address is needed to point its node to itself.\<close>

definition zero_task :: "addr \<Rightarrow> smon_task" where
  "zero_task a =
     \<lparr>t_p = None, t_pid = 0, t_envir = None, t_evset = 0, t_ch_next = a, t_ch_prev = a,
      t_n_children = 0, t_sample_pmc = zero_sample_pmc, t_tsc_tmp = 0, t_timer = hrtimer_init,
      t_kt_remain = 0, t_timer_flags = 0, t_sample_sched = zero_sample_sched, t_extra = None,
      t_rb = None\<rparr>"

text \<open>The result of the allocation of the extra data is not checked: NULL is dereferenced.\<close>

definition smon_task_extra_create :: "bool \<Rightarrow> smon_envir \<Rightarrow> smon_task \<Rightarrow> smon_task option" where
  "smon_task_extra_create alloc e t =
     (if \<not> alloc then None
      else Some (t\<lparr>t_extra := Some
        \<lparr>x_rapl_sample = zero_sample_rapl, x_rapl_sample_time = sample_time e,
         x_rapl_timer = hrtimer_init, x_timer_flags = 0, x_info_sample = zero_sample_info,
         x_rb = t_rb t\<rparr>\<rparr>))"

text \<open>
  The inner \<open>None\<close> is the NULL that the function returns. The environment argument is the
  caller's structure, the second one the copy.
\<close>

definition smon_create_task ::
  "addr option \<Rightarrow> addr option \<Rightarrow> bool \<Rightarrow> i32 \<Rightarrow> smon_envir \<Rightarrow> addr \<Rightarrow> kstate \<Rightarrow>
     (addr option \<times> kstate) option" where
  "smon_create_task alloc envir_alloc extra_alloc pid envir r ks =
     (let p = find_process pid ks
      in case alloc of
           None \<Rightarrow> Some (None, ks)
         | Some a \<Rightarrow>
             case smon_create_envir (envir_alloc \<noteq> None) envir of
               None \<Rightarrow> Some (None, ks)
             | Some e \<Rightarrow> do {
                 ea \<leftarrow> envir_alloc;
                 let ks = put_envir ea e ks;
                 rb \<leftarrow> ks_rbs ks r;
                 let rb = smon_get_rb rb;
                 let rb = (if batch_size envir > 0 then rb\<lparr>rb_batch := batch_size envir\<rparr> else rb);
                 let ks = put_rb r rb ks;
                 let t = (zero_task a)\<lparr>t_envir := Some ea, t_rb := Some r\<rparr>;
                 t \<leftarrow> smon_task_extra_create extra_alloc e t;
                 let t = t\<lparr>t_evset := 0,
                           t_sample_pmc := (t_sample_pmc t)\<lparr>sp_pid := pid\<rparr>,
                           t_sample_sched := (t_sample_sched t)\<lparr>ss_pid := pid\<rparr>,
                           t_p := Some p, t_pid := pid\<rparr>;
                 Some (Some a, put_task a t ks)
               })"

text \<open>Releasing the buffer and the environment through their pointers.\<close>

definition release_rb_at :: "addr option \<Rightarrow> kstate \<Rightarrow> kstate option" where
  "release_rb_at p ks = do {
     r \<leftarrow> p;
     rb \<leftarrow> ks_rbs ks r;
     rb' \<leftarrow> smon_release_rb rb;
     Some (put_rb r rb' ks)
   }"

definition release_envir_at :: "addr option \<Rightarrow> kstate \<Rightarrow> kstate option" where
  "release_envir_at p ks = do {
     ea \<leftarrow> p;
     e \<leftarrow> ks_envirs ks ea;
     Some (ks\<lparr>ks_envirs := (ks_envirs ks)(ea := smon_release_envir e)\<rparr>)
   }"

text \<open>
  \<^verbatim>\<open>smon_task_extra_destroy\<close> cancels the timer of the extra data and frees it; the extra data
  is part of the task's structure here.
\<close>

definition smon_task_extra_destroy :: "smon_task \<Rightarrow> smon_task option" where
  "smon_task_extra_destroy t = do {
     x \<leftarrow> t_extra t;
     let x = x\<lparr>x_rapl_timer := hrtimer_cancel (x_rapl_timer x)\<rparr>;
     Some (t\<lparr>t_extra := None\<rparr>)
   }"

definition smon_destroy_task :: "addr \<Rightarrow> kstate \<Rightarrow> kstate option" where
  "smon_destroy_task a ks = do {
     t \<leftarrow> ks_tasks ks a;
     ks \<leftarrow> (if t_rb t \<noteq> None then release_rb_at (t_rb t) ks else Some ks);
     ks \<leftarrow> (if t_envir t \<noteq> None then release_envir_at (t_envir t) ks else Some ks);
     t \<leftarrow> (if t_extra t \<noteq> None then smon_task_extra_destroy t else Some t);
     Some (ks\<lparr>ks_tasks := (ks_tasks ks)(a := None)\<rparr>)
   }"

definition smon_create_child ::
  "addr option \<Rightarrow> addr \<Rightarrow> addr \<Rightarrow> kstate \<Rightarrow> (addr option \<times> kstate) option" where
  "smon_create_child alloc parent p ks =
     (case alloc of
        None \<Rightarrow> Some (None, ks)
      | Some a \<Rightarrow> do {
          pt \<leftarrow> ks_tasks ks parent;
          r \<leftarrow> t_rb pt;
          rb \<leftarrow> ks_rbs ks r;
          let ks = put_rb r (smon_get_rb rb) ks;
          ea \<leftarrow> t_envir pt;
          e \<leftarrow> ks_envirs ks ea;
          let ks = put_envir ea (smon_get_envir e) ks;
          let t = (zero_task a)\<lparr>t_envir := Some ea, t_rb := Some r, t_n_children := 0, t_evset := 0\<rparr>;
          let t = t\<lparr>t_sample_pmc := (t_sample_pmc t)\<lparr>sp_pid := ks_pid ks p\<rparr>,
                    t_sample_sched := (t_sample_sched t)\<lparr>ss_pid := ks_pid ks p\<rparr>,
                    t_extra := None, t_p := Some p, t_pid := ks_pid ks p\<rparr>;
          Some (Some a, put_task a t ks)
        })"

end
