(* ===== verification/Sched.thy ===== *)
theory Sched
  imports Task
begin

text \<open>
  \<^verbatim>\<open>driver/sched.c\<close>: registering tasks and the hooks on the kernel's scheduler. Every function
  here runs as one step; \<open>Locked_Sched\<close> has the same functions with their spinlocks.
  Interrupt work and timers that a function queues run as steps of their own.
\<close>

text \<open>The product of an \<^verbatim>\<open>unsigned int\<close> and an \<^verbatim>\<open>int\<close> constant: 32 bits.\<close>

definition MS_TO_NS :: "u32 \<Rightarrow> u32" where "MS_TO_NS msec = msec * 1000000"

definition ktime_of_ms :: "u32 \<Rightarrow> u64" where "ktime_of_ms msec = ucast (MS_TO_NS msec)"

text \<open>Changing one task in place.\<close>

definition modify_task :: "addr \<Rightarrow> (smon_task \<Rightarrow> smon_task) \<Rightarrow> kstate \<Rightarrow> kstate option" where
  "modify_task a f ks = do { t \<leftarrow> ks_tasks ks a; Some (put_task a (f t) ks) }"

section \<open>The ring of the children\<close>

text \<open>
  \<^verbatim>\<open>list_add(&new->children, &head->children)\<close> and \<^verbatim>\<open>list_del(&c->children)\<close>. The
  node of a child is also the head of the child's own children, so that a task and all its
  descendants are linked into one ring. The deleted node's own links are not read again.
\<close>

definition children_add :: "addr \<Rightarrow> addr \<Rightarrow> kstate \<Rightarrow> kstate option" where
  "children_add new head ks = do {
     h \<leftarrow> ks_tasks ks head;
     let next = t_ch_next h;
     ks \<leftarrow> modify_task next (\<lambda>t. t\<lparr>t_ch_prev := new\<rparr>) ks;
     ks \<leftarrow> modify_task new (\<lambda>t. t\<lparr>t_ch_next := next, t_ch_prev := head\<rparr>) ks;
     modify_task head (\<lambda>t. t\<lparr>t_ch_next := new\<rparr>) ks
   }"

definition children_del :: "addr \<Rightarrow> kstate \<Rightarrow> kstate option" where
  "children_del c ks = do {
     t \<leftarrow> ks_tasks ks c;
     ks \<leftarrow> modify_task (t_ch_next t) (\<lambda>n. n\<lparr>t_ch_prev := t_ch_prev t\<rparr>) ks;
     modify_task (t_ch_prev t) (\<lambda>p. p\<lparr>t_ch_next := t_ch_next t\<rparr>) ks
   }"

section \<open>Timers and interrupt work\<close>

definition start_timer_pmc :: "addr \<Rightarrow> kstate \<Rightarrow> kstate option" where
  "start_timer_pmc a ks = do {
     t \<leftarrow> ks_tasks ks a;
     kt \<leftarrow> (if sint (t_kt_remain t) \<le> 0
            then do { e \<leftarrow> task_envir t ks; Some (ktime_of_ms (sample_time e)) }
            else Some (t_kt_remain t));
     let t = t\<lparr>t_timer_flags := t_timer_flags t OR SMON_TIMER_ON\<rparr>;
     let t = t\<lparr>t_timer := hrtimer_start kt (t_timer t)\<rparr>;
     smon_sample_start a (put_task a t ks)
   }"

definition stop_timer_pmc :: "addr \<Rightarrow> kstate \<Rightarrow> kstate option" where
  "stop_timer_pmc a ks = modify_task a (\<lambda>t. t\<lparr>t_timer := hrtimer_cancel (t_timer t)\<rparr>) ks"

definition smon_sched_task_in :: "addr \<Rightarrow> kstate \<Rightarrow> kstate option" where
  "smon_sched_task_in a ks = do {
     t \<leftarrow> ks_tasks ks a;
     e \<leftarrow> task_envir t ks;
     ks \<leftarrow> (if envir_option_sched e then smon_sample_sched_in a ks else Some ks);
     if envir_option_stat e then smon_sample_start a ks
     else Some (irq_work_queue (StartPmc a) ks)
   }"

text \<open>\<open>remaining\<close> is what \<^verbatim>\<open>hrtimer_expires_remaining\<close> returns.\<close>

definition smon_sched_task_out :: "addr \<Rightarrow> i64 \<Rightarrow> kstate \<Rightarrow> kstate option" where
  "smon_sched_task_out a remaining ks = do {
     ks \<leftarrow> smon_sample_stop a ks;
     t \<leftarrow> ks_tasks ks a;
     if tm_active (t_timer t)
     then do {
       ks \<leftarrow> modify_task a (\<lambda>t. t\<lparr>t_kt_remain := remaining\<rparr>) ks;
       ks \<leftarrow> (if sint remaining \<le> 0 then smon_sample_save a ks else Some ks);
       ks \<leftarrow> modify_task a (\<lambda>t. t\<lparr>t_timer_flags := t_timer_flags t AND NOT SMON_TIMER_ON\<rparr>) ks;
       let ks = irq_work_queue (StopPmc a) ks;
       t \<leftarrow> ks_tasks ks a;
       e \<leftarrow> task_envir t ks;
       if envir_option_sched e
       then do { ks \<leftarrow> smon_sample_sched_out a ks; smon_sample_sched_save a ks }
       else Some ks
     }
     else Some ks
   }"

text \<open>The first component of the result: the callback returns \<^verbatim>\<open>HRTIMER_RESTART\<close>.\<close>

definition smon_sched_timer_tick :: "addr \<Rightarrow> kstate \<Rightarrow> (bool \<times> kstate) option" where
  "smon_sched_timer_tick a ks = do {
     t \<leftarrow> ks_tasks ks a;
     if t_timer_flags t AND SMON_TIMER_ON \<noteq> 0
     then do {
       ks \<leftarrow> smon_sample_stop a ks;
       ks \<leftarrow> smon_sample_save a ks;
       t \<leftarrow> ks_tasks ks a;
       e \<leftarrow> task_envir t ks;
       let kt = ktime_of_ms (sample_time e);
       let t = t\<lparr>t_timer := hrtimer_forward kt (t_timer t)\<rparr>;
       let t = t\<lparr>t_kt_remain := kt\<rparr>;
       ks \<leftarrow> smon_sample_start a (put_task a t ks);
       Some (True, ks)
     }
     else Some (False, ks)
   }"

definition smon_sched_timer_rapl :: "addr \<Rightarrow> kstate \<Rightarrow> (bool \<times> kstate) option" where
  "smon_sched_timer_rapl a ks = do {
     t \<leftarrow> ks_tasks ks a;
     x \<leftarrow> t_extra t;
     if x_timer_flags x AND SMON_TIMER_ON \<noteq> 0
     then do {
       let (s, m) = smon_sample_rapl_stop (x_rapl_sample x) (ks_mach ks);
       ks \<leftarrow> smon_sample_rapl_save (x_rb x) s (ks\<lparr>ks_mach := m\<rparr>);
       let (s, m) = smon_sample_rapl_start s (ks_mach ks);
       let kt = ktime_of_ms (x_rapl_sample_time x);
       let x = x\<lparr>x_rapl_sample := s, x_rapl_timer := hrtimer_forward kt (x_rapl_timer x)\<rparr>;
       Some (True, put_task a (t\<lparr>t_extra := Some x\<rparr>) (ks\<lparr>ks_mach := m\<rparr>))
     }
     else Some (False, ks)
   }"

definition start_timer_rapl :: "addr \<Rightarrow> kstate \<Rightarrow> kstate option" where
  "start_timer_rapl a ks = do {
     t \<leftarrow> ks_tasks ks a;
     x \<leftarrow> t_extra t;
     let x = x\<lparr>x_timer_flags := x_timer_flags x OR SMON_TIMER_ON\<rparr>;
     let (s, m) = smon_sample_rapl_start (x_rapl_sample x) (ks_mach ks);
     let kt = ktime_of_ms (x_rapl_sample_time x);
     let x = x\<lparr>x_rapl_sample := s, x_rapl_timer := hrtimer_start kt (x_rapl_timer x)\<rparr>;
     Some (put_task a (t\<lparr>t_extra := Some x\<rparr>) (ks\<lparr>ks_mach := m\<rparr>))
   }"

text \<open>
  \<^verbatim>\<open>container_of\<close> with the member \<^verbatim>\<open>irq_start_timer\<close> of the extra data: only the work that is
  that member leads to the start of the structure. \<^verbatim>\<open>stop_timer_rapl\<close> names this member too, although
  it is installed as the handler of \<^verbatim>\<open>irq_stop_timer\<close>, so the pointer it computes is no structure.
\<close>

fun extra_of_start_timer :: "irq_item \<Rightarrow> addr option" where
  "extra_of_start_timer (StartRapl a) = Some a"
| "extra_of_start_timer _ = None"

definition stop_timer_rapl :: "irq_item \<Rightarrow> kstate \<Rightarrow> kstate option" where
  "stop_timer_rapl q ks = do {
     a \<leftarrow> extra_of_start_timer q;
     t \<leftarrow> ks_tasks ks a;
     x \<leftarrow> t_extra t;
     Some (put_task a (t\<lparr>t_extra := Some (x\<lparr>x_rapl_timer := hrtimer_cancel (x_rapl_timer x)\<rparr>)\<rparr>) ks)
   }"

definition smon_task_extra_start :: "addr \<Rightarrow> kstate \<Rightarrow> kstate option" where
  "smon_task_extra_start a ks = do {
     t \<leftarrow> ks_tasks ks a;
     x \<leftarrow> t_extra t;
     e \<leftarrow> task_envir t ks;
     let (info, m) = smon_sample_get_info (ks_online_cpus ks) (x_info_sample x) e (ks_mach ks);
     let ks = put_task a (t\<lparr>t_extra := Some (x\<lparr>x_info_sample := info\<rparr>)\<rparr>) (ks\<lparr>ks_mach := m\<rparr>);
     ks \<leftarrow> smon_sample_info_save (x_rb x) info ks;
     if envir_option_rapl e then Some (irq_work_queue (StartRapl a) ks) else Some ks
   }"

text \<open>The next two functions have no caller.\<close>

definition smon_task_extra_stop :: "addr \<Rightarrow> kstate \<Rightarrow> kstate option" where
  "smon_task_extra_stop a ks = do {
     t \<leftarrow> ks_tasks ks a;
     e \<leftarrow> task_envir t ks;
     if envir_option_rapl e
     then do {
       x \<leftarrow> t_extra t;
       let x = x\<lparr>x_timer_flags := x_timer_flags x AND NOT SMON_TIMER_ON\<rparr>;
       Some (irq_work_queue (StopRapl a) (put_task a (t\<lparr>t_extra := Some x\<rparr>) ks))
     }
     else Some ks
   }"

definition smon_task_extra_rapl_start :: "addr \<Rightarrow> kstate \<Rightarrow> kstate option" where
  "smon_task_extra_rapl_start a ks = do {
     t \<leftarrow> ks_tasks ks a;
     x \<leftarrow> t_extra t;
     let (s, m) = smon_sample_rapl_start (x_rapl_sample x) (ks_mach ks);
     let kt = ktime_of_ms (x_rapl_sample_time x);
     let x = x\<lparr>x_rapl_sample := s, x_rapl_timer := hrtimer_start kt (x_rapl_timer x)\<rparr>;
     Some (put_task a (t\<lparr>t_extra := Some x\<rparr>) (ks\<lparr>ks_mach := m\<rparr>))
   }"

definition smon_task_extra_rapl_stop :: "addr \<Rightarrow> kstate \<Rightarrow> kstate option" where
  "smon_task_extra_rapl_stop a ks = do {
     t \<leftarrow> ks_tasks ks a;
     x \<leftarrow> t_extra t;
     Some (put_task a (t\<lparr>t_extra := Some (x\<lparr>x_rapl_timer := hrtimer_cancel (x_rapl_timer x)\<rparr>)\<rparr>) ks)
   }"

section \<open>Registering\<close>

text \<open>Linking a task into the lists and out of them.\<close>

definition add_to_tasks :: "addr \<Rightarrow> kstate \<Rightarrow> kstate option" where
  "add_to_tasks a ks = do { tl \<leftarrow> list_add (task_live ks) a (ks_task_list ks); Some (ks\<lparr>ks_task_list := tl\<rparr>) }"

definition del_from_tasks :: "addr \<Rightarrow> kstate \<Rightarrow> kstate option" where
  "del_from_tasks a ks = do { tl \<leftarrow> list_del (task_live ks) a (ks_task_list ks); Some (ks\<lparr>ks_task_list := tl\<rparr>) }"

definition add_to_wait :: "addr \<Rightarrow> kstate \<Rightarrow> kstate option" where
  "add_to_wait a ks = do { wl \<leftarrow> list_add (task_live ks) a (ks_wait_list ks); Some (ks\<lparr>ks_wait_list := wl\<rparr>) }"

definition del_from_wait :: "addr \<Rightarrow> kstate \<Rightarrow> kstate option" where
  "del_from_wait a ks = do { wl \<leftarrow> list_del (task_live ks) a (ks_wait_list ks); Some (ks\<lparr>ks_wait_list := wl\<rparr>) }"

definition add_to_cpu :: "nat \<Rightarrow> addr \<Rightarrow> kstate \<Rightarrow> kstate option" where
  "add_to_cpu cpu a ks = do {
     cl \<leftarrow> list_add (task_live ks) a (ks_cpu_list ks cpu);
     Some (ks\<lparr>ks_cpu_list := (ks_cpu_list ks)(cpu := cl)\<rparr>)
   }"

definition del_from_cpu :: "nat \<Rightarrow> addr \<Rightarrow> kstate \<Rightarrow> kstate option" where
  "del_from_cpu cpu a ks = do {
     cl \<leftarrow> list_del (task_live ks) a (ks_cpu_list ks cpu);
     Some (ks\<lparr>ks_cpu_list := (ks_cpu_list ks)(cpu := cl)\<rparr>)
   }"

definition smon_sched_register_task ::
  "addr option \<Rightarrow> addr option \<Rightarrow> bool \<Rightarrow> i32 \<Rightarrow> smon_envir \<Rightarrow> addr \<Rightarrow> kstate \<Rightarrow> (i32 \<times> kstate) option"
where
  "smon_sched_register_task alloc envir_alloc extra_alloc pid envir rb ks = do {
     (task, ks) \<leftarrow> smon_create_task alloc envir_alloc extra_alloc pid envir rb ks;
     case task of
       None \<Rightarrow> Some (- 1, ks)
     | Some a \<Rightarrow> do {
         ks \<leftarrow> modify_task a (\<lambda>t. t\<lparr>t_timer := hrtimer_init, t_kt_remain := 0\<rparr>) ks;
         ks \<leftarrow> add_to_tasks a ks;
         if envir_option_exec envir
         then do { ks \<leftarrow> add_to_wait a ks; Some (0, ks) }
         else do {
           t \<leftarrow> ks_tasks ks a;
           ks \<leftarrow> (if t_extra t \<noteq> None then smon_task_extra_start a ks else Some ks);
           p \<leftarrow> t_p t;
           ks \<leftarrow> add_to_cpu (ks_task_cpu ks p) a ks;
           Some (0, ks)
         }
       }
   }"

text \<open>
  Whether the child is on its parent's processor only decides whether that processor's lock is taken:
  the list is the one of the child's processor in both cases.
\<close>

definition smon_sched_register_child :: "addr option \<Rightarrow> addr \<Rightarrow> addr \<Rightarrow> kstate \<Rightarrow> (i32 \<times> kstate) option" where
  "smon_sched_register_child alloc parent p ks =
     (let cpu = ks_task_cpu ks p
      in do {
        (child, ks) \<leftarrow> smon_create_child alloc parent p ks;
        case child of
          None \<Rightarrow> Some (- 1, ks)
        | Some c \<Rightarrow> do {
            ks \<leftarrow> modify_task c (\<lambda>t. t\<lparr>t_timer := hrtimer_init, t_kt_remain := 0\<rparr>) ks;
            ks \<leftarrow> children_add c parent ks;
            ks \<leftarrow> modify_task parent (\<lambda>t. t\<lparr>t_n_children := t_n_children t + 1\<rparr>) ks;
            pt \<leftarrow> ks_tasks ks parent;
            pp \<leftarrow> t_p pt;
            ks \<leftarrow> (if cpu = ks_task_cpu ks pp then add_to_cpu cpu c ks else add_to_cpu cpu c ks);
            Some (0, ks)
          }
      })"

text \<open>
  The loop over the ring: \<open>child\<close> is the entry and \<open>tmp\<close> the one after it, read before the
  entry is freed.
\<close>

partial_function (option) unregister_loop :: "addr \<Rightarrow> addr \<Rightarrow> addr \<Rightarrow> kstate \<Rightarrow> kstate option" where
  "unregister_loop head child tmp ks =
     (if child = head then Some ks
      else Option.bind (children_del child ks) (\<lambda>ks.
           Option.bind (modify_task child (\<lambda>t. t\<lparr>t_timer := hrtimer_cancel (t_timer t)\<rparr>) ks) (\<lambda>ks.
           Option.bind (smon_destroy_task child ks) (\<lambda>ks.
           Option.bind (ks_tasks ks tmp) (\<lambda>n. unregister_loop head tmp (t_ch_next n) ks)))))"

definition smon_sched_unregister_children :: "addr \<Rightarrow> kstate \<Rightarrow> kstate option" where
  "smon_sched_unregister_children a ks = do {
     t \<leftarrow> ks_tasks ks a;
     c \<leftarrow> ks_tasks ks (t_ch_next t);
     unregister_loop a (t_ch_next t) (t_ch_next c) ks
   }"

definition unregister_at :: "addr \<Rightarrow> kstate \<Rightarrow> kstate option" where
  "unregister_at a ks = do {
     ks \<leftarrow> modify_task a (\<lambda>t. t\<lparr>t_timer := hrtimer_cancel (t_timer t)\<rparr>) ks;
     ks \<leftarrow> smon_sched_unregister_children a ks;
     ks \<leftarrow> del_from_tasks a ks;
     t \<leftarrow> ks_tasks ks a;
     e \<leftarrow> task_envir t ks;
     ks \<leftarrow> (if envir_option_rapl e then smon_task_extra_rapl_stop a ks else Some ks);
     smon_destroy_task a ks
   }"

definition smon_sched_unregister_task :: "i32 \<Rightarrow> kstate \<Rightarrow> (i32 \<times> kstate) option" where
  "smon_sched_unregister_task pid ks = do {
     found \<leftarrow> find_entry (\<lambda>t. t_pid t = pid) ks (ks_task_list ks);
     case found of
       None \<Rightarrow> Some (- 1, ks)
     | Some a \<Rightarrow> do { ks \<leftarrow> unregister_at a ks; Some (0, ks) }
   }"

section \<open>The hooks\<close>

definition smon_sched_switch :: "addr \<Rightarrow> addr \<Rightarrow> i64 \<Rightarrow> kstate \<Rightarrow> kstate option" where
  "smon_sched_switch prev next remaining ks =
     (let cpu = ks_task_cpu ks prev
      in do {
        found \<leftarrow> find_entry (\<lambda>t. t_p t = Some prev) ks (ks_cpu_list ks cpu);
        ks \<leftarrow> (case found of None \<Rightarrow> Some ks | Some a \<Rightarrow> smon_sched_task_out a remaining ks);
        found \<leftarrow> find_entry (\<lambda>t. t_p t = Some next) ks (ks_cpu_list ks cpu);
        case found of None \<Rightarrow> Some ks | Some a \<Rightarrow> smon_sched_task_in a ks
      })"

text \<open>\<open>pad\<close> is the padding of the sample, which lives on the stack and is not initialised.\<close>

definition smon_sched_migrate_task :: "u32 \<Rightarrow> addr \<Rightarrow> nat \<Rightarrow> kstate \<Rightarrow> kstate option" where
  "smon_sched_migrate_task pad p dest_cpu ks =
     (let old_cpu = ks_task_cpu ks p
      in do {
        found \<leftarrow> find_entry (\<lambda>t. t_p t = Some p) ks (ks_cpu_list ks old_cpu);
        case found of
          None \<Rightarrow> Some ks
        | Some a \<Rightarrow> do {
            ks \<leftarrow> del_from_cpu old_cpu a ks;
            t \<leftarrow> ks_tasks ks a;
            e \<leftarrow> task_envir t ks;
            ks \<leftarrow> (if envir_option_cpu e
                   then let (tsc, m) = msr_rdtsc (ks_mach ks);
                            sample = \<lparr>sc_timestamp = tsc, sc_pid = t_pid t,
                                      sc_old_cpu = of_nat old_cpu, sc_new_cpu = of_nat dest_cpu\<rparr>
                        in smon_sample_write (t_rb t) SAMPLE_TYPE_CPU (cpu_image pad sample)
                             (ks\<lparr>ks_mach := m\<rparr>)
                   else Some ks);
            add_to_cpu dest_cpu a ks
          }
      })"

definition smon_sched_process_fork :: "addr option \<Rightarrow> addr \<Rightarrow> addr \<Rightarrow> kstate \<Rightarrow> kstate option" where
  "smon_sched_process_fork alloc parent child ks =
     (let cpu = ks_task_cpu ks parent
      in do {
        found \<leftarrow> find_entry (\<lambda>t. t_p t = Some parent) ks (ks_cpu_list ks cpu);
        case found of
          None \<Rightarrow> Some ks
        | Some a \<Rightarrow> do {
            t \<leftarrow> ks_tasks ks a;
            e \<leftarrow> task_envir t ks;
            ks \<leftarrow> (if envir_option_inherit e
                   then do { (r, ks) \<leftarrow> smon_sched_register_child alloc a child ks; Some ks }
                   else Some ks);
            if envir_option_fork e
            then let (tsc, m) = msr_rdtsc (ks_mach ks);
                     sample = \<lparr>sf_timestamp = tsc, sf_parent = t_pid t, sf_child = ks_pid ks child\<rparr>
                 in smon_sample_write (t_rb t) SAMPLE_TYPE_FORK (fork_image sample)
                      (ks\<lparr>ks_mach := m\<rparr>)
            else Some ks
          }
      })"

definition smon_sched_process_exec :: "addr \<Rightarrow> kstate \<Rightarrow> kstate option" where
  "smon_sched_process_exec p ks = do {
     found \<leftarrow> find_entry (\<lambda>t. t_p t = Some p) ks (ks_wait_list ks);
     case found of
       None \<Rightarrow> Some ks
     | Some a \<Rightarrow> do {
         ks \<leftarrow> del_from_wait a ks;
         let cpu = ks_task_cpu ks p;
         t \<leftarrow> ks_tasks ks a;
         ks \<leftarrow> (if t_extra t \<noteq> None then smon_task_extra_start a ks else Some ks);
         ks \<leftarrow> smon_sched_task_in a ks;
         add_to_cpu cpu a ks
       }
   }"

text \<open>Cutting a task off from its process and its buffer.\<close>

definition retire_task :: "addr \<Rightarrow> kstate \<Rightarrow> kstate option" where
  "retire_task a ks = do {
     ks \<leftarrow> modify_task a (\<lambda>t. t\<lparr>t_p := None\<rparr>) ks;
     t \<leftarrow> ks_tasks ks a;
     ks \<leftarrow> release_rb_at (t_rb t) ks;
     modify_task a (\<lambda>t. t\<lparr>t_rb := None\<rparr>) ks
   }"

definition smon_sched_process_exit :: "addr \<Rightarrow> kstate \<Rightarrow> kstate option" where
  "smon_sched_process_exit p ks =
     (let cpu = ks_task_cpu ks p
      in do {
        found \<leftarrow> find_entry (\<lambda>t. t_p t = Some p) ks (ks_cpu_list ks cpu);
        case found of
          Some a \<Rightarrow> do {
            ks \<leftarrow> modify_task a (\<lambda>t. if tm_active (t_timer t)
                                    then t\<lparr>t_timer := hrtimer_cancel (t_timer t)\<rparr> else t) ks;
            ks \<leftarrow> smon_sample_stop a ks;
            ks \<leftarrow> smon_sample_save a ks;
            ks \<leftarrow> del_from_cpu cpu a ks;
            ks \<leftarrow> retire_task a ks;
            modify_task a (\<lambda>t. t\<lparr>t_extra :=
              map_option (\<lambda>x. x\<lparr>x_rapl_timer := hrtimer_cancel (x_rapl_timer x)\<rparr>) (t_extra t)\<rparr>) ks
          }
        | None \<Rightarrow> do {
            found \<leftarrow> find_entry (\<lambda>t. t_p t = Some p) ks (ks_wait_list ks);
            case found of
              None \<Rightarrow> Some ks
            | Some a \<Rightarrow> do {
                ks \<leftarrow> del_from_wait a ks;
                retire_task a ks
              }
          }
      })"

section \<open>Start and end\<close>

definition smon_sched_init :: "kstate \<Rightarrow> i32 \<times> kstate" where
  "smon_sched_init ks = (0, ks\<lparr>ks_task_list := [], ks_wait_list := [], ks_cpu_list := (\<lambda>_. [])\<rparr>)"

text \<open>Emptying a processor's list reads every task on it.\<close>

fun clear_cpu_list :: "nat \<Rightarrow> addr list \<Rightarrow> kstate \<Rightarrow> kstate option" where
  "clear_cpu_list cpu [] ks = Some ks"
| "clear_cpu_list cpu (a # as) ks = do {
     t \<leftarrow> ks_tasks ks a;
     ks \<leftarrow> del_from_cpu cpu a ks;
     clear_cpu_list cpu as ks
   }"

definition smon_sched_exit :: "nat \<Rightarrow> kstate \<Rightarrow> (i32 \<times> kstate) option" where
  "smon_sched_exit nr_cpus ks = do {
     ks \<leftarrow> fold_opt (\<lambda>cpu ks. clear_cpu_list cpu (ks_cpu_list ks cpu) ks) [0..<nr_cpus] ks;
     ks \<leftarrow> fold_opt unregister_at (ks_task_list ks) ks;
     Some (0, ks)
   }"

end
