(* ===== verification/Buffer_Growth.thy ===== *)
theory Buffer_Growth
  imports Ring_Fifo Sample_Data
begin

text \<open>
  What the driver may do to a ring buffer while it is mapped, apart from the reader's report: write
  a whole sample, count a writer in or out, set the batch that a new task asks for, and run the interrupt
  work that wakes the reader up; a single
  event of the driver counts writers in (\<open>up\<close>) or out, not both. Whatever
  comes of these steps, the buffer holds what it held before, followed by whole samples and marks of
  the end of the stream.
\<close>

inductive grow_step :: "bool \<Rightarrow> smon_ring_buffer \<Rightarrow> smon_ring_buffer \<Rightarrow> bool" where
  grow_write: "sample_wf s \<Longrightarrow> smon_rb_write (sample_type s) (sample_image pad s) rb = Some rb' \<Longrightarrow>
    grow_step up rb rb'"
| grow_get: "grow_step True rb (smon_get_rb rb)"
| grow_release: "rb_active rb \<noteq> 0 \<Longrightarrow> smon_release_rb rb = Some rb' \<Longrightarrow> grow_step False rb rb'"
| grow_batch: "grow_step True rb (rb\<lparr>rb_batch := n\<rparr>)"
| grow_wake: "grow_step up rb (smon_wake_up_reader rb)"

abbreviation grows :: "bool \<Rightarrow> smon_ring_buffer \<Rightarrow> smon_ring_buffer \<Rightarrow> bool" where
  "grows up \<equiv> (grow_step up)\<^sup>*\<^sup>*"

text \<open>A record that the reader can take: a sample, or the mark of the end.\<close>

fun whole :: "rb_item \<Rightarrow> bool" where
  "whole (Rec ty bs) \<longleftrightarrow> (\<exists>s. decode_sample ty bs = Some s) \<or> ty = SAMPLE_TYPE_EOF \<and> bs = []"
| "whole Pad \<longleftrightarrow> False"

lemma grow_step_appends:
  assumes "grow_step up rb rb'" and "rb_inv rb rs"
  shows "\<exists>new. rb_inv rb' (rs @ new) \<and> list_all whole new"
  using assms(1)
proof (cases rule: grow_step.cases)
  case (grow_write s pad)
  from rb_inv_write [OF assms(2) sample_size_image [OF grow_write(1)] order_refl, of pad] grow_write(2)
  have "if rb_fits rb (length (sample_image pad s))
    then rb_inv rb' (rs @ [Rec (sample_type s) (sample_image pad s)]) else rb_inv rb' rs"
    by (auto split: if_splits)
  moreover have "whole (Rec (sample_type s) (sample_image pad s))"
    using decode_sample_image [OF grow_write(1)] by auto
  ultimately show ?thesis
    by (cases "rb_fits rb (length (sample_image pad s))")
      (auto intro: exI [of _ "[]"] exI [of _ "[Rec (sample_type s) (sample_image pad s)]"])
next
  case grow_get
  then have "rb_inv rb' (rs @ [])" using assms(2) by (simp add: smon_get_rb_def rb_inv_active)
  then show ?thesis by (intro exI [of _ "[]"]) simp
next
  case grow_release
  from release_rb_spec [OF assms(2)] grow_release
  have "rb_inv rb' rs \<or> rb_inv rb' (rs @ [Rec SAMPLE_TYPE_EOF []])" by (auto split: if_splits)
  then show ?thesis
  proof
    assume "rb_inv rb' rs"
    then show ?thesis by (intro exI [of _ "[]"]) simp
  next
    assume "rb_inv rb' (rs @ [Rec SAMPLE_TYPE_EOF []])"
    then show ?thesis by (intro exI [of _ "[Rec SAMPLE_TYPE_EOF []]"]) simp
  qed
next
  case (grow_batch n)
  then have "rb_inv rb' (rs @ [])" using assms(2) by (simp add: rb_inv_batch)
  then show ?thesis by (intro exI [of _ "[]"]) simp
next
  case grow_wake
  then have "rb_inv rb' (rs @ [])" using assms(2) by (simp add: smon_wake_up_reader_def rb_inv_irq)
  then show ?thesis by (intro exI [of _ "[]"]) simp
qed

lemma grows_appends:
  assumes "grows up rb rb'" and "rb_inv rb rs"
  shows "\<exists>new. rb_inv rb' (rs @ new) \<and> list_all whole new"
  using assms
proof (induction arbitrary: rs rule: converse_rtranclp_induct)
  case base
  then show ?case by (intro exI [of _ "[]"]) simp
next
  case (step rb rb1)
  from grow_step_appends [OF step.hyps(1) step.prems] obtain n1 where
    1: "rb_inv rb1 (rs @ n1)" "list_all whole n1" by blast
  from step.IH [OF 1(1)] obtain n2 where "rb_inv rb' ((rs @ n1) @ n2)" "list_all whole n2" by blast
  with 1(2) show ?case by (intro exI [of _ "n1 @ n2"]) simp
qed

end
