(* ===== verification/Kernel_Inv.thy ===== *)
theory Kernel_Inv
  imports Sched Buffer_Growth
begin

text \<open>
  The invariant of the scheduler hooks: every pointer that a hook may follow leads to an allocated
  structure, the counts of the buffers and of the environments are the numbers of tasks that
  refer to them, and the rings of the children are closed.
\<close>

section \<open>The invariant\<close>

definition cfg_ok :: "kstate \<Rightarrow> bool" where
  "cfg_ok ks \<longleftrightarrow> config_inv \<lparr>ev_tab = ks_events ks, es_tab = ks_evsets ks\<rparr> \<and>
     (\<forall>s \<in> set (evset_entries (ks_evsets ks)). length (evids s) = MAX_GP_CTRS)"

text \<open>What the sampling routines change of a task, and what they leave alone.\<close>

definition task_local :: "smon_envir \<Rightarrow> smon_task \<Rightarrow> bool" where
  "task_local e t \<longleftrightarrow> unat (t_evset t) < unat (n_esids e) \<and> pmc_wf (sp_pmc (t_sample_pmc t))"

definition skel :: "smon_task \<Rightarrow>
    addr option \<times> i32 \<times> addr option \<times> addr \<times> addr \<times> addr option \<times> addr option option" where
  "skel t = (t_p t, t_pid t, t_envir t, t_ch_next t, t_ch_prev t, t_rb t, map_option x_rb (t_extra t))"

definition task_ok :: "kstate \<Rightarrow> smon_task \<Rightarrow> bool" where
  "task_ok ks t \<longleftrightarrow>
     (\<exists>ea e. t_envir t = Some ea \<and> ks_envirs ks ea = Some e \<and> envir_wf e \<and>
        envir_refs_ok (ks_evsets ks) e \<and> task_local e t) \<and>
     (\<forall>r. t_rb t = Some r \<longrightarrow> ks_rbs ks r \<noteq> None) \<and>
     (t_p t = None \<longleftrightarrow> t_rb t = None) \<and>
     (\<forall>x. t_extra t = Some x \<longrightarrow> (\<exists>r. x_rb x = Some r \<and> ks_rbs ks r \<noteq> None))"

definition rb_users :: "kstate \<Rightarrow> addr \<Rightarrow> addr set" where
  "rb_users ks r = {a. \<exists>t. ks_tasks ks a = Some t \<and> t_rb t = Some r}"

definition envir_users :: "kstate \<Rightarrow> addr \<Rightarrow> addr set" where
  "envir_users ks ea = {a. \<exists>t. ks_tasks ks a = Some t \<and> t_envir t = Some ea}"

definition counts_ok :: "kstate \<Rightarrow> bool" where
  "counts_ok ks \<longleftrightarrow> finite (dom (ks_tasks ks)) \<and> card (dom (ks_tasks ks)) < 2 ^ 31 \<and>
     (\<forall>r rb. ks_rbs ks r = Some rb \<longrightarrow> unat (rb_active rb) = card (rb_users ks r)) \<and>
     (\<forall>ea e. ks_envirs ks ea = Some e \<longrightarrow> unat (envir_count e) = card (envir_users ks ea))"

text \<open>A task on a list is alive and has not exited, and is on one list only, once.\<close>

definition runnable :: "kstate \<Rightarrow> addr \<Rightarrow> bool" where
  "runnable ks a \<longleftrightarrow> (\<exists>t. ks_tasks ks a = Some t \<and> t_p t \<noteq> None)"

text \<open>A task that a process registered has the extra data; a child that inherited it has none.\<close>

definition has_extra :: "kstate \<Rightarrow> addr \<Rightarrow> bool" where
  "has_extra ks a \<longleftrightarrow> (\<exists>t. ks_tasks ks a = Some t \<and> t_extra t \<noteq> None)"

definition lists_ok :: "kstate \<Rightarrow> bool" where
  "lists_ok ks \<longleftrightarrow>
     distinct (ks_task_list ks) \<and> (\<forall>a \<in> set (ks_task_list ks). has_extra ks a) \<and>
     distinct (ks_wait_list ks) \<and> (\<forall>a \<in> set (ks_wait_list ks). runnable ks a) \<and>
     (\<forall>c. distinct (ks_cpu_list ks c) \<and> (\<forall>a \<in> set (ks_cpu_list ks c). runnable ks a \<and>
        a \<notin> set (ks_wait_list ks) \<and> (\<forall>d. a \<in> set (ks_cpu_list ks d) \<longrightarrow> d = c)))"

fun irq_item_ok :: "kstate \<Rightarrow> irq_item \<Rightarrow> bool" where
  "irq_item_ok ks (StartPmc a) \<longleftrightarrow> task_live ks a"
| "irq_item_ok ks (StopPmc a) \<longleftrightarrow> task_live ks a"
| "irq_item_ok ks (StartRapl a) \<longleftrightarrow> has_extra ks a"
| "irq_item_ok ks (StopRapl a) \<longleftrightarrow> False"

text \<open>The ring of a task, following the links forward.\<close>

definition ring_step :: "kstate \<Rightarrow> (addr \<times> addr) set" where
  "ring_step ks = {(x, y). \<exists>t. ks_tasks ks x = Some t \<and> t_ch_next t = y}"

definition family :: "kstate \<Rightarrow> addr \<Rightarrow> addr set" where
  "family ks a = {c. (a, c) \<in> (ring_step ks)\<^sup>*}"

definition links_ok :: "kstate \<Rightarrow> bool" where
  "links_ok ks \<longleftrightarrow>
     (\<forall>c t. ks_tasks ks c = Some t \<longrightarrow>
        (\<exists>n. ks_tasks ks (t_ch_next t) = Some n \<and> t_ch_prev n = c) \<and>
        (\<exists>p. ks_tasks ks (t_ch_prev t) = Some p \<and> t_ch_next p = c))"

definition rings_ok :: "kstate \<Rightarrow> bool" where
  "rings_ok ks \<longleftrightarrow> links_ok ks \<and>
     (\<forall>a \<in> set (ks_task_list ks). \<forall>b \<in> set (ks_task_list ks). b \<in> family ks a \<longrightarrow> b = a)"

definition kinv :: "kstate \<Rightarrow> bool" where
  "kinv ks \<longleftrightarrow> cfg_ok ks \<and> (\<forall>a t. ks_tasks ks a = Some t \<longrightarrow> task_ok ks t) \<and>
     (\<forall>r rb. ks_rbs ks r = Some rb \<longrightarrow> rb_safe rb) \<and> counts_ok ks \<and> lists_ok ks \<and>
     (\<forall>i \<in> set (ks_irq ks). irq_item_ok ks i) \<and> rings_ok ks"

section \<open>Steps that keep the structure\<close>

text \<open>
  \<open>sim\<close> relates two states with the same structures, links and lists: only samples, counters,
  timers, the contents of buffers and the pending interrupt work differ.
\<close>

definition task_sim :: "(addr \<Rightarrow> smon_envir option) \<Rightarrow> smon_task \<Rightarrow> smon_task \<Rightarrow> bool" where
  "task_sim envirs t t' \<longleftrightarrow> skel t' = skel t \<and>
     (\<forall>ea e. t_envir t = Some ea \<longrightarrow> envirs ea = Some e \<longrightarrow> envir_wf e \<longrightarrow> task_local e t \<longrightarrow>
        task_local e t')"

definition rb_sim :: "smon_ring_buffer \<Rightarrow> smon_ring_buffer \<Rightarrow> bool" where
  "rb_sim rb rb' \<longleftrightarrow> rb_active rb' = rb_active rb \<and> rb_batch rb' = rb_batch rb \<and>
     (rb_safe rb \<longrightarrow> rb_safe rb') \<and> (\<forall>up. grows up rb rb')"

definition sim :: "kstate \<Rightarrow> kstate \<Rightarrow> bool" where
  "sim ks ks' \<longleftrightarrow>
     ks_events ks' = ks_events ks \<and> ks_evsets ks' = ks_evsets ks \<and> ks_envirs ks' = ks_envirs ks \<and>
     ks_task_list ks' = ks_task_list ks \<and> ks_cpu_list ks' = ks_cpu_list ks \<and>
     ks_wait_list ks' = ks_wait_list ks \<and> ks_pid ks' = ks_pid ks \<and>
     ks_task_cpu ks' = ks_task_cpu ks \<and>
     (\<forall>a. rel_option (task_sim (ks_envirs ks)) (ks_tasks ks a) (ks_tasks ks' a)) \<and>
     (\<forall>r. rel_option rb_sim (ks_rbs ks r) (ks_rbs ks' r)) \<and>
     (\<forall>i \<in> set (ks_irq ks'). i \<in> set (ks_irq ks) \<or> irq_item_ok ks i)"

lemma task_sim_refl: "task_sim es t t"
  by (simp add: task_sim_def)

lemma rb_sim_refl: "rb_sim rb rb"
  by (simp add: rb_sim_def)

lemma sim_refl: "sim ks ks"
  by (simp add: sim_def option.rel_refl task_sim_refl rb_sim_refl)

lemma rel_option_SomeE:
  assumes "rel_option R x y" and "y = Some b"
  obtains a where "x = Some a" "R a b"
  using assms by (cases x) auto

lemma skel_simps:
  assumes "skel t' = skel t"
  shows "t_p t' = t_p t" "t_pid t' = t_pid t" "t_envir t' = t_envir t" "t_ch_next t' = t_ch_next t"
    "t_ch_prev t' = t_ch_prev t" "t_rb t' = t_rb t" "t_extra t' = None \<longleftrightarrow> t_extra t = None"
    "t_extra t' = Some x' \<Longrightarrow> \<exists>x. t_extra t = Some x \<and> x_rb x' = x_rb x"
  using assms by (auto simp: skel_def map_option_case split: option.splits)

lemma simD:
  assumes "sim ks ks'"
  shows "rel_option (task_sim (ks_envirs ks)) (ks_tasks ks a) (ks_tasks ks' a)" "rel_option rb_sim (ks_rbs ks r) (ks_rbs ks' r)"
    "ks_events ks' = ks_events ks" "ks_evsets ks' = ks_evsets ks" "ks_envirs ks' = ks_envirs ks"
    "ks_task_list ks' = ks_task_list ks" "ks_cpu_list ks' = ks_cpu_list ks"
    "ks_wait_list ks' = ks_wait_list ks" "ks_pid ks' = ks_pid ks" "ks_task_cpu ks' = ks_task_cpu ks"
  using assms by (simp_all add: sim_def)

lemma sim_task:
  assumes "sim ks ks'" and "ks_tasks ks' a = Some t'"
  obtains t where "ks_tasks ks a = Some t" "task_sim (ks_envirs ks) t t'" "skel t' = skel t"
proof -
  from simD(1) [OF assms(1), of a] assms(2) obtain t where "ks_tasks ks a = Some t" "task_sim (ks_envirs ks) t t'"
    by (cases "ks_tasks ks a") auto
  with that show thesis by (simp add: task_sim_def)
qed

lemma sim_task':
  assumes "sim ks ks'" and "ks_tasks ks a = Some t"
  obtains t' where "ks_tasks ks' a = Some t'" "task_sim (ks_envirs ks) t t'" "skel t' = skel t"
proof -
  from simD(1) [OF assms(1), of a] assms(2) obtain t' where "ks_tasks ks' a = Some t'" "task_sim (ks_envirs ks) t t'"
    by (cases "ks_tasks ks' a") auto
  with that show thesis by (simp add: task_sim_def)
qed

lemma rel_option_None_iff: "rel_option R x y \<Longrightarrow> y = None \<longleftrightarrow> x = None"
  by (cases x; cases y) simp_all

lemma sim_live:
  assumes "sim ks ks'"
  shows "task_live ks' a = task_live ks a"
  unfolding task_live_def using rel_option_None_iff [OF simD(1) [OF assms]] by simp

lemma sim_rb:
  assumes "sim ks ks'"
  shows "ks_rbs ks' r = None \<longleftrightarrow> ks_rbs ks r = None"
    "ks_rbs ks' r = Some rb' \<Longrightarrow> \<exists>rb. ks_rbs ks r = Some rb \<and> rb_sim rb rb'"
  using rel_option_None_iff [OF simD(2) [OF assms, of r]] simD(2) [OF assms, of r]
  by (auto simp: option_rel_Some2)

lemma sim_field:
  assumes "sim ks ks'" and "\<And>t t'. skel t' = skel t \<Longrightarrow> f t' = f t"
  shows "map_option f (ks_tasks ks' a) = map_option f (ks_tasks ks a)"
proof -
  show ?thesis
  proof (cases "ks_tasks ks a")
    case None
    then show ?thesis using rel_option_None_iff [OF simD(1) [OF assms(1), of a]] by simp
  next
    case (Some t)
    from sim_task' [OF assms(1) this] obtain t' where "ks_tasks ks' a = Some t'" "skel t' = skel t" .
    with Some assms(2) [OF this(2)] show ?thesis by simp
  qed
qed

lemma sim_users:
  assumes "sim ks ks'"
  shows "rb_users ks' r = rb_users ks r" "envir_users ks' ea = envir_users ks ea"
    "dom (ks_tasks ks') = dom (ks_tasks ks)" "ring_step ks' = ring_step ks" "runnable ks' a = runnable ks a"
proof -
  have rb: "rb_users k r = {a. map_option t_rb (ks_tasks k a) = Some (Some r)}" for k
    by (auto simp: rb_users_def)
  have en: "envir_users k ea = {a. map_option t_envir (ks_tasks k a) = Some (Some ea)}" for k
    by (auto simp: envir_users_def)
  have st: "ring_step k = {(x, y). map_option t_ch_next (ks_tasks k x) = Some y}" for k
    by (auto simp: ring_step_def)
  have ru: "runnable k a \<longleftrightarrow> (\<exists>p. map_option t_p (ks_tasks k a) = Some (Some p))" for k
    by (auto simp: runnable_def)
  note f = sim_field [OF assms]
  show "rb_users ks' r = rb_users ks r" unfolding rb by (simp only: f [of t_rb, OF skel_simps(6)])
  show "envir_users ks' ea = envir_users ks ea"
    unfolding en by (simp only: f [of t_envir, OF skel_simps(3)])
  show "ring_step ks' = ring_step ks" unfolding st by (simp only: f [of t_ch_next, OF skel_simps(4)])
  show "runnable ks' a = runnable ks a" unfolding ru by (simp only: f [of t_p, OF skel_simps(1)])
  show "dom (ks_tasks ks') = dom (ks_tasks ks)"
    using sim_live [OF assms] by (auto simp: task_live_def dom_def)
qed

lemma sim_irq_item: "sim ks ks' \<Longrightarrow> irq_item_ok ks' i = irq_item_ok ks i"
proof (cases i)
  case (StartRapl a)
  assume s: "sim ks ks'"
  have "irq_item_ok k i \<longleftrightarrow> map_option (\<lambda>t. t_extra t = None) (ks_tasks k a) = Some False" for k
    by (auto simp: StartRapl has_extra_def)
  then show ?thesis by (simp only: sim_field [OF s, of "\<lambda>t. t_extra t = None", OF skel_simps(7)])
qed (simp_all add: sim_live)

lemma sim_trans:
  assumes "sim ks1 ks2" and "sim ks2 ks3"
  shows "sim ks1 ks3"
proof -
  have ts: "task_sim (ks_envirs ks1) t u \<Longrightarrow> task_sim (ks_envirs ks2) u v \<Longrightarrow>
      task_sim (ks_envirs ks1) t v" for t u v
    using skel_simps(3) [of u t] by (simp add: task_sim_def simD(5) [OF assms(1)])
  have rs: "rb_sim t u \<Longrightarrow> rb_sim u v \<Longrightarrow> rb_sim t v" for t u v
    unfolding rb_sim_def by (metis rtranclp_trans)
  have "rel_option (task_sim (ks_envirs ks1)) (ks_tasks ks1 a) (ks_tasks ks3 a)" for a
    using simD(1) [OF assms(1), of a] simD(1) [OF assms(2), of a]
    by (cases "ks_tasks ks1 a"; cases "ks_tasks ks2 a"; cases "ks_tasks ks3 a") (auto intro: ts)
  moreover have "rel_option rb_sim (ks_rbs ks1 a) (ks_rbs ks3 a)" for a
    using simD(2) [OF assms(1), of a] simD(2) [OF assms(2), of a]
    by (cases "ks_rbs ks1 a"; cases "ks_rbs ks2 a"; cases "ks_rbs ks3 a") (auto intro: rs)
  moreover have "i \<in> set (ks_irq ks3) \<Longrightarrow> i \<in> set (ks_irq ks1) \<or> irq_item_ok ks1 i" for i
    using assms sim_irq_item [OF assms(1)] unfolding sim_def by metis
  ultimately show ?thesis using assms by (simp add: sim_def)
qed

lemma sim_task_ok:
  assumes s: "sim ks ks'" and t: "task_ok ks t" and d: "task_sim (ks_envirs ks) t t'"
  shows "task_ok ks' t'"
proof -
  from d have k: "skel t' = skel t" by (simp add: task_sim_def)
  from t obtain ea e where e: "t_envir t = Some ea" "ks_envirs ks ea = Some e" "envir_wf e"
    "envir_refs_ok (ks_evsets ks) e" "task_local e t" by (auto simp: task_ok_def)
  have "task_local e t'" using d e by (simp add: task_sim_def)
  moreover have "\<exists>r. x_rb x' = Some r \<and> ks_rbs ks r \<noteq> None" if x: "t_extra t' = Some x'" for x'
    using skel_simps(8) [OF k x] t by (auto simp: task_ok_def)
  ultimately show ?thesis
    using e t skel_simps(1-7) [OF k] unfolding task_ok_def simD [OF s] sim_rb(1) [OF s] by auto
qed

lemma sim_family: "sim ks ks' \<Longrightarrow> family ks' a = family ks a"
  by (simp add: family_def sim_users)

lemma sim_links:
  assumes s: "sim ks ks'" and l: "links_ok ks"
  shows "links_ok ks'"
  unfolding links_ok_def
proof (intro allI impI)
  fix c t' assume "ks_tasks ks' c = Some t'"
  then obtain t where t: "ks_tasks ks c = Some t" "skel t' = skel t" using sim_task [OF s] by blast
  from l t(1) obtain n p where n: "ks_tasks ks (t_ch_next t) = Some n" "t_ch_prev n = c"
    and p: "ks_tasks ks (t_ch_prev t) = Some p" "t_ch_next p = c" unfolding links_ok_def by blast
  from sim_task' [OF s n(1)] obtain n' where n': "ks_tasks ks' (t_ch_next t) = Some n'" "skel n' = skel n" .
  from sim_task' [OF s p(1)] obtain p' where p': "ks_tasks ks' (t_ch_prev t) = Some p'" "skel p' = skel p" .
  show "(\<exists>n. ks_tasks ks' (t_ch_next t') = Some n \<and> t_ch_prev n = c) \<and>
      (\<exists>p. ks_tasks ks' (t_ch_prev t') = Some p \<and> t_ch_next p = c)"
    using n' p' n(2) p(2) skel_simps(4,5) [OF t(2)] skel_simps(5) [OF n'(2)] skel_simps(4) [OF p'(2)]
    by simp
qed

lemma sim_kinv:
  assumes i: "kinv ks" and s: "sim ks ks'"
  shows "kinv ks'"
  unfolding kinv_def
proof (intro conjI allI impI ballI)
  show "cfg_ok ks'" using i by (simp add: kinv_def cfg_ok_def simD [OF s])
  show "task_ok ks' t'" if t': "ks_tasks ks' a = Some t'" for a t'
  proof -
    from sim_task [OF s t'] obtain t where "ks_tasks ks a = Some t" "task_sim (ks_envirs ks) t t'" .
    then show ?thesis using i by (intro sim_task_ok [OF s, of t]) (auto simp: kinv_def)
  qed
  have r: "\<exists>rb. ks_rbs ks r = Some rb \<and> rb_sim rb rb'" if "ks_rbs ks' r = Some rb'" for r rb'
    using sim_rb(2) [OF s that] .
  show "rb_safe rb'" if "ks_rbs ks' r = Some rb'" for r rb'
    using r [OF that] i by (auto simp: kinv_def rb_sim_def)
  have c: "counts_ok ks" using i by (simp add: kinv_def)
  have "unat (rb_active rb') = card (rb_users ks' r)" if rb': "ks_rbs ks' r = Some rb'" for r rb'
    using r [OF rb'] c by (auto simp: counts_ok_def rb_sim_def sim_users [OF s])
  then show "counts_ok ks'" using c by (simp add: counts_ok_def sim_users [OF s] simD [OF s])
  show "lists_ok ks'"
    using i sim_irq_item [OF s, of "StartRapl _"]
    by (simp add: kinv_def lists_ok_def simD [OF s] sim_users(5) [OF s])
  have "links_ok ks'" using i by (intro sim_links [OF s]) (simp add: kinv_def rings_ok_def)
  then show "rings_ok ks'" using i by (simp add: kinv_def rings_ok_def simD [OF s] sim_family [OF s])
  fix j assume "j \<in> set (ks_irq ks')"
  then have "irq_item_ok ks j" using s i by (auto simp: sim_def kinv_def)
  then show "irq_item_ok ks' j" by (simp add: sim_irq_item [OF s])
qed

section \<open>Building blocks\<close>

lemma sim_put_task:
  assumes "ks_tasks ks a = Some t" and "task_sim (ks_envirs ks) t t'"
  shows "sim ks (put_task a t' ks)"
  using assms by (auto simp: sim_def put_task_def option.rel_refl task_sim_refl rb_sim_refl)

lemma sim_mach: "sim ks (ks\<lparr>ks_mach := m\<rparr>)"
  by (simp add: sim_def option.rel_refl task_sim_refl rb_sim_refl)

lemma sim_irq: "irq_item_ok ks i \<Longrightarrow> sim ks (irq_work_queue i ks)"
  by (simp add: sim_def irq_work_queue_def option.rel_refl task_sim_refl rb_sim_refl)

lemma sim_put_rb:
  assumes "ks_rbs ks r = Some rb" and "rb_sim rb rb'"
  shows "sim ks (put_rb r rb' ks)"
  using assms by (auto simp: sim_def put_rb_def option.rel_refl task_sim_refl rb_sim_refl)

lemma kinvD:
  assumes "kinv ks" and "ks_tasks ks a = Some t"
  obtains ea e where "t_envir t = Some ea" "ks_envirs ks ea = Some e" "task_envir t ks = Some e"
    "envir_wf e" "envir_refs_ok (ks_evsets ks) e" "task_local e t"
  using assms that by (force simp: kinv_def task_ok_def task_envir_def)

lemma kinv_tables:
  assumes "kinv ks"
  shows "event_inv (ks_events ks)" "evset_inv (ks_evsets ks)"
    "s \<in> set (evset_entries (ks_evsets ks)) \<Longrightarrow> length (evids s) = MAX_GP_CTRS"
  using assms by (auto simp: kinv_def cfg_ok_def config_inv_def)

text \<open>A write of a well-typed sample through a pointer that is NULL or leads to a buffer.\<close>

definition sample_bytes :: "u32 \<Rightarrow> u8 list \<Rightarrow> bool" where
  "sample_bytes ty bs \<longleftrightarrow> (\<exists>s pad. sample_wf s \<and> ty = sample_type s \<and> bs = sample_image pad s)"

lemma rb_write_active: "smon_rb_write ty s rb = Some rb' \<Longrightarrow> rb_active rb' = rb_active rb"
  by (auto simp: smon_rb_write_def rb_put_def rb_copy_def smon_rb_stuff_page_def Let_def
      bind_eq_Some_conv split: if_splits option.splits)

lemma rb_write_batch: "smon_rb_write ty s rb = Some rb' \<Longrightarrow> rb_batch rb' = rb_batch rb"
  by (auto simp: smon_rb_write_def rb_put_def rb_copy_def smon_rb_stuff_page_def Let_def
      bind_eq_Some_conv split: if_splits option.splits)

lemma sample_write_sim:
  assumes "kinv ks" and "\<And>r. p = Some r \<Longrightarrow> ks_rbs ks r \<noteq> None"
    and "sample_bytes ty s"
  shows "\<exists>ks'. smon_sample_write p ty s ks = Some ks' \<and> sim ks ks' \<and> ks_tasks ks' = ks_tasks ks \<and>
    ks_envirs ks' = ks_envirs ks"
proof (cases p)
  case None
  then show ?thesis by (simp add: smon_sample_write_def sim_refl)
next
  case (Some r)
  then obtain rb where rb: "ks_rbs ks r = Some rb" using assms(2) by blast
  have "rb_safe rb" using assms(1) rb by (auto simp: kinv_def)
  moreover from assms(3) obtain x pad where x: "sample_wf x" "ty = sample_type x" "s = sample_image pad x"
    by (auto simp: sample_bytes_def)
  ultimately obtain rb' where w: "smon_rb_write ty s rb = Some rb'" "rb_safe rb'"
    using rb_write_safe [of rb ty s] sample_size_image [OF x(1), of pad] by auto
  have "grow_step up rb rb'" for up using w(1) x by (auto intro: grow_write)
  then have "rb_sim rb rb'" using w rb_write_active [OF w(1)] rb_write_batch [OF w(1)] by (auto simp: rb_sim_def)
  from sim_put_rb [OF rb this] show ?thesis
    using Some rb w(1) by (simp add: smon_sample_write_def put_rb_def)
qed

section \<open>Operations that keep the structure\<close>

definition keeps :: "kstate \<Rightarrow> kstate option \<Rightarrow> bool" where
  "keeps ks m \<longleftrightarrow> (\<exists>ks'. m = Some ks' \<and> sim ks ks')"

lemma keepsE:
  assumes "keeps ks m"
  obtains ks' where "m = Some ks'" "sim ks ks'"
  using assms by (auto simp: keeps_def)

lemma keeps_Some [intro]: "sim ks ks' \<Longrightarrow> keeps ks (Some ks')"
  by (simp add: keeps_def)

lemma keeps_trans: "sim ks ks1 \<Longrightarrow> keeps ks1 m \<Longrightarrow> keeps ks m"
  by (auto simp: keeps_def intro: sim_trans)

lemma keeps_bind:
  assumes "keeps ks m" and "\<And>ks'. m = Some ks' \<Longrightarrow> sim ks ks' \<Longrightarrow> keeps ks' (g ks')"
  shows "keeps ks (m \<bind> g)"
  using assms keeps_trans by (auto elim!: keepsE)

lemma keeps_kinv: "keeps ks m \<Longrightarrow> kinv ks \<Longrightarrow> \<exists>ks'. m = Some ks' \<and> kinv ks'"
  by (auto elim!: keepsE intro: sim_kinv)

lemma task_live_Some: "task_live ks a \<Longrightarrow> (\<And>t. ks_tasks ks a = Some t \<Longrightarrow> P) \<Longrightarrow> P"
  by (auto simp: task_live_def)

lemma modify_task_keeps:
  assumes "task_live ks a" and "\<And>t. task_sim (ks_envirs ks) t (f t)"
  shows "keeps ks (modify_task a f ks)"
  using assms by (auto simp: task_live_def modify_task_def intro!: keeps_Some sim_put_task)

lemma pmc_wf_zero: "pmc_wf (sp_pmc zero_sample_pmc)"
  by (simp add: zero_sample_pmc_def pmc_wf_def)

lemma task_evset:
  assumes i: "kinv ks" and t: "ks_tasks ks a = Some t" and e: "task_envir t ks = Some e"
  obtains s where "smon_envir_get_evset e (t_evset t) (ks_evsets ks) = Some (Some s)"
    "envir_esid e (t_evset t) = Some (esids e ! unat (t_evset t))"
    "smon_get_evset (esids e ! unat (t_evset t)) (ks_evsets ks) = Some (Some s)"
    "length (evids s) = MAX_GP_CTRS"
proof -
  from kinvD [OF i t] e have "envir_wf e" "envir_refs_ok (ks_evsets ks) e"
    "unat (t_evset t) < unat (n_esids e)" by (metis option.inject task_local_def)+
  from envir_get_evset_spec [OF this(1,2) kinv_tables(2) [OF i] this(3)] that
    kinv_tables(3) [OF i] show thesis by metis
qed

lemma sample_start_keeps:
  assumes i: "kinv ks" and l: "task_live ks a"
  shows "keeps ks (smon_sample_start a ks)"
proof -
  from l obtain t where t: "ks_tasks ks a = Some t" by (rule task_live_Some)
  from kinvD [OF i t] obtain e where e: "task_envir t ks = Some e" by metis
  from task_evset [OF i t e] obtain s where s: "envir_esid e (t_evset t) = Some (esids e ! unat (t_evset t))"
    "smon_get_evset (esids e ! unat (t_evset t)) (ks_evsets ks) = Some (Some s)" by metis
  from pmc_set_no_fault [OF kinv_tables(1) [OF i]] obtain m where m:
    "smon_pmc_set s (ks_events ks) (ks_mach ks) = Some m" by metis
  obtain tsc m2 where r: "msr_rdtsc (smon_pmc_write (sp_pmc (t_sample_pmc t)) m) = (tsc, m2)"
    by (cases "msr_rdtsc (smon_pmc_write (sp_pmc (t_sample_pmc t)) m)")
  define t' where "t' = (if sp_start (t_sample_pmc t) = 0
      then t\<lparr>t_tsc_tmp := tsc, t_sample_pmc := (t_sample_pmc t)\<lparr>sp_start := tsc\<rparr>\<rparr>
      else t\<lparr>t_tsc_tmp := tsc\<rparr>)"
  have "smon_sample_start a ks = Some (put_task a t' (ks\<lparr>ks_mach := smon_pmc_start s m2\<rparr>))"
    by (simp add: smon_sample_start_def t e s m r t'_def)
  moreover have "task_sim (ks_envirs ks) t t'" by (simp add: t'_def task_sim_def skel_def task_local_def)
  ultimately show ?thesis
    using t by (auto intro!: keeps_Some sim_trans [OF sim_mach sim_put_task])
qed

lemma sample_stop_keeps:
  assumes i: "kinv ks" and l: "task_live ks a"
  shows "keeps ks (smon_sample_stop a ks)"
proof -
  from l obtain t where t: "ks_tasks ks a = Some t" by (rule task_live_Some)
  from kinvD [OF i t] obtain e where e: "task_envir t ks = Some e" by metis
  from task_evset [OF i t e] obtain s where s:
    "smon_envir_get_evset e (t_evset t) (ks_evsets ks) = Some (Some s)" "length (evids s) = MAX_GP_CTRS"
    by metis
  obtain tsc m where r: "msr_rdtsc (smon_pmc_stop (ks_mach ks)) = (tsc, m)"
    by (cases "msr_rdtsc (smon_pmc_stop (ks_mach ks))")
  obtain pmc where p: "smon_pmc_read (Some s) m = Some pmc" by (simp add: smon_pmc_read_def)
  have "pmc_wf pmc" using pmc_read_wf [OF p s(2)] .
  then show ?thesis
    using t e s r p
    by (auto simp: smon_sample_stop_def task_sim_def skel_def task_local_def Let_def
        intro!: keeps_Some sim_trans [OF sim_mach sim_put_task])
qed

lemma sample_save_keeps:
  assumes i: "kinv ks" and l: "task_live ks a"
  shows "keeps ks (smon_sample_save a ks)"
proof -
  from l obtain t where t: "ks_tasks ks a = Some t" by (rule task_live_Some)
  from kinvD [OF i t] obtain e where e: "task_envir t ks = Some e" "envir_wf e" "task_local e t" by metis
  from next_evset_in_range [OF e(2), of "t_evset t"] obtain j where
    j: "smon_envir_next_evset e (t_evset t) = Some j" "unat j < unat (n_esids e)" .
  define s where "s = (t_sample_pmc t)\<lparr>sp_pid := t_pid t, sp_evset := t_evset t\<rparr>"
  have "sample_wf (PmcSample s)" using e(3) by (simp add: s_def task_local_def)
  then have "sample_bytes SAMPLE_TYPE_PMC (pmc_image s)"
    unfolding sample_bytes_def by (intro exI [of _ "PmcSample s"] exI [of _ "0 :: u32"]) simp
  moreover have "t_rb t = Some r \<Longrightarrow> ks_rbs ks r \<noteq> None" for r
    using i t by (auto simp: kinv_def task_ok_def)
  ultimately obtain ks1 where w: "smon_sample_write (t_rb t) SAMPLE_TYPE_PMC (pmc_image s) ks = Some ks1"
    "sim ks ks1" "ks_tasks ks1 = ks_tasks ks" "ks_envirs ks1 = ks_envirs ks"
    using sample_write_sim [OF i, of "t_rb t" SAMPLE_TYPE_PMC "pmc_image s"] by auto
  have e1: "task_envir t ks1 = Some e" using e(1) w(4) by (simp add: task_envir_def)
  have "task_sim (ks_envirs ks) t (t\<lparr>t_sample_pmc := zero_sample_pmc, t_evset := j\<rparr>)"
    using e(1) j(2) pmc_wf_zero by (auto simp: task_sim_def skel_def task_local_def task_envir_def)
  with w show ?thesis
    by (auto simp: smon_sample_save_def t s_def [symmetric] e1 j
        intro!: keeps_Some sim_trans [OF w(2) sim_put_task])
qed

text \<open>Updates of a task's samples, timers and flags.\<close>

lemma task_sim_simps [simp]:
  "task_sim es t (t\<lparr>t_timer := u\<rparr>)" "task_sim es t (t\<lparr>t_kt_remain := k\<rparr>)"
  "task_sim es t (t\<lparr>t_timer_flags := g\<rparr>)" "task_sim es t (t\<lparr>t_sample_sched := s\<rparr>)"
  "task_sim es t (t\<lparr>t_n_children := n\<rparr>)"
  "task_sim es t (t\<lparr>t_timer := u, t_kt_remain := k\<rparr>)"
  "task_sim es t (t\<lparr>t_timer := u, t_timer_flags := g\<rparr>)"
  by (simp_all add: task_sim_def skel_def task_local_def)

lemma task_sim_extra:
  "t_extra t = Some x \<Longrightarrow> x_rb x' = x_rb x \<Longrightarrow> task_sim es t (t\<lparr>t_extra := Some x'\<rparr>)"
  by (simp add: task_sim_def skel_def task_local_def)

lemma sim_put_mach:
  "ks_tasks ks a = Some t \<Longrightarrow> task_sim (ks_envirs ks) t t' \<Longrightarrow>
     sim ks (put_task a t' (ks\<lparr>ks_mach := m\<rparr>))"
  by (rule sim_trans [OF sim_mach sim_put_task]) simp_all

lemma sched_in_keeps: "task_live ks a \<Longrightarrow> keeps ks (smon_sample_sched_in a ks)"
  by (auto simp: task_live_def smon_sample_sched_in_def Let_def split: prod.splits
      intro!: keeps_Some sim_put_mach)

lemma sched_out_keeps: "task_live ks a \<Longrightarrow> keeps ks (smon_sample_sched_out a ks)"
  by (auto simp: task_live_def smon_sample_sched_out_def Let_def split: prod.splits
      intro!: keeps_Some sim_put_mach)

lemma task_rb_live: "kinv ks \<Longrightarrow> ks_tasks ks a = Some t \<Longrightarrow> t_rb t = Some r \<Longrightarrow> ks_rbs ks r \<noteq> None"
  by (auto simp: kinv_def task_ok_def)

lemma extra_rb_live:
  "kinv ks \<Longrightarrow> ks_tasks ks a = Some t \<Longrightarrow> t_extra t = Some x \<Longrightarrow> x_rb x = Some r \<Longrightarrow> ks_rbs ks r \<noteq> None"
  by (fastforce simp: kinv_def task_ok_def)

lemma sample_bytesI: "sample_wf s \<Longrightarrow> sample_bytes (sample_type s) (sample_image pad s)"
  by (auto simp: sample_bytes_def)

lemma image_bytes:
  "sample_bytes SAMPLE_TYPE_SCHED (sched_image s1)" "sample_bytes SAMPLE_TYPE_RAPL (rapl_image s2)"
  "sample_bytes SAMPLE_TYPE_INFO (info_image s3)" "sample_bytes SAMPLE_TYPE_FORK (fork_image s4)"
  "sample_bytes SAMPLE_TYPE_CPU (cpu_image pad s5)"
  using sample_bytesI [of "SchedSample s1" pad] sample_bytesI [of "RaplSample s2" pad]
    sample_bytesI [of "InfoSample s3" pad] sample_bytesI [of "ForkSample s4" pad]
    sample_bytesI [of "CpuSample s5" pad] by simp_all

lemma write_keeps:
  assumes "kinv ks" and "\<And>r. p = Some r \<Longrightarrow> ks_rbs ks r \<noteq> None" and "sample_bytes ty s"
  shows "keeps ks (smon_sample_write p ty s ks)"
  using sample_write_sim [OF assms] by (auto simp: keeps_def)

lemma sched_save_keeps:
  assumes "kinv ks" and "task_live ks a"
  shows "keeps ks (smon_sample_sched_save a ks)"
  using assms(2) task_rb_live [OF assms(1), of a]
  by (auto simp: task_live_def smon_sample_sched_save_def
      intro!: write_keeps [OF assms(1)] image_bytes)

lemma start_timer_pmc_keeps:
  assumes i: "kinv ks" and l: "task_live ks a"
  shows "keeps ks (start_timer_pmc a ks)"
proof -
  from l obtain t where t: "ks_tasks ks a = Some t" by (rule task_live_Some)
  from kinvD [OF i t] obtain e where e: "task_envir t ks = Some e" by metis
  have "\<exists>kt. start_timer_pmc a ks = smon_sample_start a
      (put_task a (t\<lparr>t_timer_flags := t_timer_flags t OR SMON_TIMER_ON, t_timer := hrtimer_start kt (t_timer t)\<rparr>) ks)"
    by (auto simp: start_timer_pmc_def t e Let_def)
  then obtain kt where s: "start_timer_pmc a ks = smon_sample_start a
      (put_task a (t\<lparr>t_timer_flags := t_timer_flags t OR SMON_TIMER_ON, t_timer := hrtimer_start kt (t_timer t)\<rparr>) ks)" ..
  define ks1 where "ks1 = put_task a (t\<lparr>t_timer_flags := t_timer_flags t OR SMON_TIMER_ON,
      t_timer := hrtimer_start kt (t_timer t)\<rparr>) ks"
  have "task_sim (ks_envirs ks) t (t\<lparr>t_timer_flags := t_timer_flags t OR SMON_TIMER_ON,
      t_timer := hrtimer_start kt (t_timer t)\<rparr>)"
    by (simp add: task_sim_def skel_def task_local_def)
  then have k: "sim ks ks1" unfolding ks1_def by (rule sim_put_task [OF t])
  have "keeps ks1 (smon_sample_start a ks1)"
    by (intro sample_start_keeps sim_kinv [OF i k]) (simp add: sim_live [OF k] l)
  then show ?thesis unfolding s ks1_def [symmetric] by (rule keeps_trans [OF k])
qed

lemma stop_timer_pmc_keeps: "task_live ks a \<Longrightarrow> keeps ks (stop_timer_pmc a ks)"
  unfolding stop_timer_pmc_def by (rule modify_task_keeps) simp_all

lemma task_in_keeps:
  assumes i: "kinv ks" and l: "task_live ks a"
  shows "keeps ks (smon_sched_task_in a ks)"
proof -
  from l obtain t where t: "ks_tasks ks a = Some t" by (rule task_live_Some)
  from kinvD [OF i t] obtain e where e: "task_envir t ks = Some e" by metis
  have "keeps ks (if envir_option_sched e then smon_sample_sched_in a ks else Some ks)"
    using sched_in_keeps [OF l] by (simp add: keeps_Some sim_refl)
  moreover have "keeps ks1 (if envir_option_stat e then smon_sample_start a ks1
      else Some (irq_work_queue (StartPmc a) ks1))" if "sim ks ks1" for ks1
    using sample_start_keeps [OF sim_kinv [OF i that]] sim_live [OF that] l
    by (auto intro!: keeps_Some sim_irq)
  ultimately show ?thesis
    unfolding smon_sched_task_in_def t e bind.simps by (intro keeps_bind)
qed

text \<open>The steps of a hook for one task, each from a state of the invariant.\<close>

lemma keeps_seq:
  assumes "kinv ks" and "task_live ks a" and "keeps ks m"
    and "\<And>ks'. kinv ks' \<Longrightarrow> task_live ks' a \<Longrightarrow> sim ks ks' \<Longrightarrow> keeps ks' (g ks')"
  shows "keeps ks (m \<bind> g)"
  using assms by (intro keeps_bind) (auto simp: sim_live intro: sim_kinv)

lemma keeps_envir:
  assumes "kinv ks" and "task_live ks a" and "\<And>t e. ks_tasks ks a = Some t \<Longrightarrow> task_envir t ks = Some e \<Longrightarrow> keeps ks (g t e)"
  shows "keeps ks (do { t \<leftarrow> ks_tasks ks a; e \<leftarrow> task_envir t ks; g t e })"
proof -
  from assms(2) obtain t where t: "ks_tasks ks a = Some t" by (rule task_live_Some)
  from kinvD [OF assms(1) t] obtain e where "task_envir t ks = Some e" by metis
  with t assms(3) show ?thesis by simp
qed

lemma keeps_if: "(b \<Longrightarrow> keeps ks m) \<Longrightarrow> keeps ks (if b then m else Some ks)"
  by (simp add: keeps_Some sim_refl)

lemma keeps_irq:
  assumes "kinv ks" and "task_live ks a" and "irq_item_ok ks i"
    and "\<And>ks'. kinv ks' \<Longrightarrow> task_live ks' a \<Longrightarrow> keeps ks' (g ks')"
  shows "keeps ks (let ks' = irq_work_queue i ks in g ks')"
  unfolding Let_def using sim_irq [OF assms(3)] assms
  by (intro keeps_trans [OF sim_irq [OF assms(3)]] assms(4)) (auto simp: sim_live intro: sim_kinv)

lemma task_out_keeps:
  assumes i: "kinv ks" and l: "task_live ks a"
  shows "keeps ks (smon_sched_task_out a remaining ks)"
  unfolding smon_sched_task_out_def
proof (rule keeps_seq [OF i l sample_stop_keeps [OF i l]])
  fix ks1 assume i1: "kinv ks1" and l1: "task_live ks1 a"
  from l1 obtain t where t: "ks_tasks ks1 a = Some t" by (rule task_live_Some)
  have last: "keeps k (let ks = irq_work_queue (StopPmc a) k
     in do {
       t \<leftarrow> ks_tasks ks a;
       e \<leftarrow> task_envir t ks;
       if envir_option_sched e
       then do { ks \<leftarrow> smon_sample_sched_out a ks; smon_sample_sched_save a ks }
       else Some ks })" if k: "kinv k" "task_live k a" for k
    by (rule keeps_irq [OF k], simp add: k(2), rule keeps_envir, assumption+, rule keeps_if,
        rule keeps_seq, assumption+, erule sched_out_keeps, erule sched_save_keeps)
  show "keeps ks1 (ks_tasks ks1 a \<bind> (\<lambda>t. if tm_active (t_timer t)
     then do {
       ks \<leftarrow> modify_task a (\<lambda>t. t\<lparr>t_kt_remain := remaining\<rparr>) ks1;
       ks \<leftarrow> (if sint remaining \<le> 0 then smon_sample_save a ks else Some ks);
       ks \<leftarrow> modify_task a (\<lambda>t. t\<lparr>t_timer_flags := t_timer_flags t AND NOT SMON_TIMER_ON\<rparr>) ks;
       let ks = irq_work_queue (StopPmc a) ks
       in do {
         t \<leftarrow> ks_tasks ks a;
         e \<leftarrow> task_envir t ks;
         if envir_option_sched e
         then do { ks \<leftarrow> smon_sample_sched_out a ks; smon_sample_sched_save a ks }
         else Some ks
       }
     }
     else Some ks1))"
    unfolding t bind.simps
    by (rule keeps_if, rule keeps_seq [OF i1 l1], rule modify_task_keeps [OF l1], simp,
        rule keeps_seq, assumption+, rule keeps_if, erule sample_save_keeps, assumption,
        rule keeps_seq, assumption+, erule modify_task_keeps, simp, erule last)
qed

section \<open>Timer callbacks and the extra data\<close>

lemma timer_tick_keeps:
  assumes i: "kinv ks" and l: "task_live ks a"
  obtains b ks' where "smon_sched_timer_tick a ks = Some (b, ks')" "sim ks ks'"
proof -
  from l obtain t where t: "ks_tasks ks a = Some t" by (rule task_live_Some)
  show thesis
  proof (cases "t_timer_flags t AND SMON_TIMER_ON \<noteq> 0")
    case True
    from sample_stop_keeps [OF i l] obtain ks1 where 1: "smon_sample_stop a ks = Some ks1" "sim ks ks1"
      by (rule keepsE)
    note i1 = sim_kinv [OF i 1(2)] and l1 = l [folded sim_live [OF 1(2)]]
    from sample_save_keeps [OF i1 l1] obtain ks2 where 2: "smon_sample_save a ks1 = Some ks2" "sim ks1 ks2"
      by (rule keepsE)
    note i2 = sim_kinv [OF i1 2(2)] and l2 = l1 [folded sim_live [OF 2(2)]]
    from l2 obtain u where u: "ks_tasks ks2 a = Some u" by (rule task_live_Some)
    from kinvD [OF i2 u] obtain e where e: "task_envir u ks2 = Some e" by metis
    define ks3 where "ks3 = put_task a (u\<lparr>t_timer := hrtimer_forward (ktime_of_ms (sample_time e)) (t_timer u),
        t_kt_remain := ktime_of_ms (sample_time e)\<rparr>) ks2"
    have 3: "sim ks2 ks3" unfolding ks3_def by (rule sim_put_task [OF u]) simp
    have "keeps ks3 (smon_sample_start a ks3)"
      by (intro sample_start_keeps sim_kinv [OF i2 3]) (simp add: sim_live [OF 3] l2)
    then obtain ks4 where 4: "smon_sample_start a ks3 = Some ks4" "sim ks3 ks4" by (rule keepsE)
    have "smon_sched_timer_tick a ks = Some (True, ks4)"
      using t True 1(1) 2(1) u e 4(1) by (simp add: smon_sched_timer_tick_def ks3_def)
    then show thesis
      by (rule that) (blast intro: sim_trans 1(2) 2(2) 3 4(2))
  next
    case False
    then have "smon_sched_timer_tick a ks = Some (False, ks)" by (simp add: smon_sched_timer_tick_def t)
    then show thesis by (rule that) (rule sim_refl)
  qed
qed

lemma timer_rapl_keeps:
  assumes i: "kinv ks" and t: "ks_tasks ks a = Some t" and x: "t_extra t = Some x"
  obtains b ks' where "smon_sched_timer_rapl a ks = Some (b, ks')" "sim ks ks'"
proof (cases "x_timer_flags x AND SMON_TIMER_ON \<noteq> 0")
  case True
  obtain s m where s: "smon_sample_rapl_stop (x_rapl_sample x) (ks_mach ks) = (s, m)"
    by (cases "smon_sample_rapl_stop (x_rapl_sample x) (ks_mach ks)")
  define ks1 where "ks1 = ks\<lparr>ks_mach := m\<rparr>"
  have 1: "sim ks ks1" unfolding ks1_def by (rule sim_mach)
  have "x_rb x = Some r \<Longrightarrow> ks_rbs ks1 r \<noteq> None" for r
    using extra_rb_live [OF i t x] by (simp add: ks1_def)
  from sample_write_sim [OF sim_kinv [OF i 1] this image_bytes(2)] obtain ks2 where
    2: "smon_sample_rapl_save (x_rb x) s ks1 = Some ks2" "sim ks1 ks2" "ks_tasks ks2 = ks_tasks ks1"
    unfolding smon_sample_rapl_save_def by blast
  obtain s' m' where s': "smon_sample_rapl_start s (ks_mach ks2) = (s', m')"
    by (cases "smon_sample_rapl_start s (ks_mach ks2)")
  define x' where "x' = x\<lparr>x_rapl_sample := s',
      x_rapl_timer := hrtimer_forward (ktime_of_ms (x_rapl_sample_time x)) (x_rapl_timer x)\<rparr>"
  have t2: "ks_tasks ks2 a = Some t" using t 2(3) by (simp add: ks1_def)
  have "sim ks2 (put_task a (t\<lparr>t_extra := Some x'\<rparr>) (ks2\<lparr>ks_mach := m'\<rparr>))"
    by (rule sim_put_mach [OF t2]) (rule task_sim_extra [OF x], simp add: x'_def)
  then have "sim ks (put_task a (t\<lparr>t_extra := Some x'\<rparr>) (ks2\<lparr>ks_mach := m'\<rparr>))"
    by (blast intro: sim_trans 1 2(2))
  moreover have "smon_sched_timer_rapl a ks =
      Some (True, put_task a (t\<lparr>t_extra := Some x'\<rparr>) (ks2\<lparr>ks_mach := m'\<rparr>))"
    using t x True s 2(1) s' by (simp add: smon_sched_timer_rapl_def ks1_def x'_def)
  ultimately show thesis by (intro that)
next
  case False
  then have "smon_sched_timer_rapl a ks = Some (False, ks)" by (simp add: smon_sched_timer_rapl_def t x)
  then show thesis by (rule that) (rule sim_refl)
qed

lemma start_timer_rapl_keeps:
  assumes "ks_tasks ks a = Some t" and "t_extra t = Some x"
  shows "keeps ks (start_timer_rapl a ks)"
  using assms
  by (auto simp: start_timer_rapl_def Let_def split: prod.splits
      intro!: keeps_Some sim_put_mach task_sim_extra)

lemma extra_rapl_stop_keeps:
  assumes "ks_tasks ks a = Some t" and "t_extra t = Some x"
  shows "keeps ks (smon_task_extra_rapl_stop a ks)"
  using assms
  by (auto simp: smon_task_extra_rapl_stop_def intro!: keeps_Some sim_put_task task_sim_extra)

lemma extra_start_keeps:
  assumes i: "kinv ks" and t: "ks_tasks ks a = Some t" and x: "t_extra t = Some x"
  shows "keeps ks (smon_task_extra_start a ks)"
proof -
  from kinvD [OF i t] obtain e where e: "task_envir t ks = Some e" by metis
  obtain info m where g: "smon_sample_get_info (ks_online_cpus ks) (x_info_sample x) e (ks_mach ks) = (info, m)"
    by (cases "smon_sample_get_info (ks_online_cpus ks) (x_info_sample x) e (ks_mach ks)")
  define ks1 where "ks1 = put_task a (t\<lparr>t_extra := Some (x\<lparr>x_info_sample := info\<rparr>)\<rparr>) (ks\<lparr>ks_mach := m\<rparr>)"
  have 1: "sim ks ks1"
    unfolding ks1_def by (rule sim_put_mach [OF t]) (rule task_sim_extra [OF x], simp)
  have i1: "kinv ks1" and l1: "task_live ks1 a"
    using sim_kinv [OF i 1] sim_live [OF 1] t by (auto simp: task_live_def)
  have "x_rb x = Some r \<Longrightarrow> ks_rbs ks1 r \<noteq> None" for r
    using extra_rb_live [OF i t x] by (simp add: ks1_def put_task_def)
  then have w: "keeps ks1 (smon_sample_info_save (x_rb x) info ks1)"
    unfolding smon_sample_info_save_def by (rule write_keeps [OF i1 _ image_bytes(3)])
  have "ks_tasks ks1 a = Some (t\<lparr>t_extra := Some (x\<lparr>x_info_sample := info\<rparr>)\<rparr>)"
    by (simp add: ks1_def put_task_def)
  then have "irq_item_ok ks1 (StartRapl a)" by (simp add: has_extra_def)
  then have "keeps ks1 (smon_sample_info_save (x_rb x) info ks1 \<bind>
      (\<lambda>ks. if envir_option_rapl e then Some (irq_work_queue (StartRapl a) ks) else Some ks))"
    using w by (intro keeps_seq [OF i1 l1])
      (auto intro!: keeps_Some sim_irq simp: sim_refl sim_irq_item simp del: irq_item_ok.simps)
  then show ?thesis
    using t x e g keeps_trans [OF 1] by (simp add: smon_task_extra_start_def ks1_def)
qed

end
