(* ===== verification/Kernel_Safe.thy ===== *)
theory Kernel_Safe
  imports Kernel_Inv
begin

text \<open>
  The hooks of \<^verbatim>\<open>driver/sched.c\<close> keep the invariant: the steps that change the lists and
  the counts.
\<close>

section \<open>Lists\<close>

definition unlisted :: "kstate \<Rightarrow> addr \<Rightarrow> bool" where
  "unlisted ks a \<longleftrightarrow> a \<notin> set (ks_wait_list ks) \<and> (\<forall>c. a \<notin> set (ks_cpu_list ks c))"

lemma kinv_lists:
  assumes "kinv ks" and "lists_ok (ks\<lparr>ks_cpu_list := cl, ks_wait_list := wl\<rparr>)"
  shows "kinv (ks\<lparr>ks_cpu_list := cl, ks_wait_list := wl\<rparr>)"
proof -
  define ks' where "ks' = ks\<lparr>ks_cpu_list := cl, ks_wait_list := wl\<rparr>"
  have irq: "irq_item_ok ks' i = irq_item_ok ks i" for i
    by (cases i) (simp_all add: ks'_def task_live_def has_extra_def)
  have "rings_ok ks' = rings_ok ks"
    by (simp add: ks'_def rings_ok_def links_ok_def family_def ring_step_def)
  moreover have "counts_ok ks' = counts_ok ks"
    by (simp add: ks'_def counts_ok_def rb_users_def envir_users_def)
  moreover have "task_ok ks' = task_ok ks" by (simp add: ks'_def task_ok_def fun_eq_iff)
  moreover have "cfg_ok ks' = cfg_ok ks" by (simp add: ks'_def cfg_ok_def)
  ultimately show ?thesis
    using assms unfolding ks'_def [symmetric] kinv_def irq by (simp add: ks'_def)
qed

lemma lists_okD:
  assumes "kinv ks"
  shows "distinct (ks_task_list ks)" "a \<in> set (ks_task_list ks) \<Longrightarrow> has_extra ks a"
    "distinct (ks_wait_list ks)" "a \<in> set (ks_wait_list ks) \<Longrightarrow> runnable ks a"
    "distinct (ks_cpu_list ks c)" "a \<in> set (ks_cpu_list ks c) \<Longrightarrow> runnable ks a"
    "a \<in> set (ks_cpu_list ks c) \<Longrightarrow> a \<notin> set (ks_wait_list ks)"
    "a \<in> set (ks_cpu_list ks c) \<Longrightarrow> a \<in> set (ks_cpu_list ks d) \<Longrightarrow> d = c"
  using assms by (simp_all add: kinv_def lists_ok_def)

lemma runnable_live: "runnable ks a \<Longrightarrow> task_live ks a"
  by (auto simp: runnable_def task_live_def)

lemma task_list_live: "kinv ks \<Longrightarrow> a \<in> set (ks_task_list ks) \<Longrightarrow> task_live ks a"
  by (drule (1) lists_okD(2)) (auto simp: has_extra_def task_live_def)

lemma cpu_list_live: "kinv ks \<Longrightarrow> \<forall>a \<in> set (ks_cpu_list ks c). task_live ks a"
  using lists_okD(6) runnable_live by blast

lemma wait_list_live: "kinv ks \<Longrightarrow> \<forall>a \<in> set (ks_wait_list ks). task_live ks a"
  using lists_okD(4) runnable_live by blast

lemma add_to_cpu_kinv:
  assumes i: "kinv ks" and r: "runnable ks a" and u: "unlisted ks a"
  obtains ks' where "add_to_cpu c a ks = Some ks'" "kinv ks'"
    "ks' = ks\<lparr>ks_cpu_list := (ks_cpu_list ks)(c := a # ks_cpu_list ks c)\<rparr>"
proof -
  define ks' where "ks' = ks\<lparr>ks_cpu_list := (ks_cpu_list ks)(c := a # ks_cpu_list ks c)\<rparr>"
  have "add_to_cpu c a ks = Some ks'"
    by (simp add: add_to_cpu_def list_add_live [OF cpu_list_live [OF i]] ks'_def)
  moreover have "lists_ok ks'"
    using i r u by (auto simp: ks'_def kinv_def lists_ok_def unlisted_def runnable_def has_extra_def)
  then have "kinv ks'"
    using kinv_lists [OF i, where cl = "(ks_cpu_list ks)(c := a # ks_cpu_list ks c)" and wl = "ks_wait_list ks"]
    by (simp add: ks'_def)
  ultimately show thesis by (rule that) (simp add: ks'_def)
qed

lemma del_from_cpu_kinv:
  assumes i: "kinv ks" and a: "a \<in> set (ks_cpu_list ks c)"
  obtains ks' where "del_from_cpu c a ks = Some ks'" "kinv ks'" "unlisted ks' a" "runnable ks' a"
    "ks' = ks\<lparr>ks_cpu_list := (ks_cpu_list ks)(c := remove1 a (ks_cpu_list ks c))\<rparr>"
proof -
  define ks' where "ks' = ks\<lparr>ks_cpu_list := (ks_cpu_list ks)(c := remove1 a (ks_cpu_list ks c))\<rparr>"
  have "del_from_cpu c a ks = Some ks'"
    by (simp add: del_from_cpu_def list_del_live [OF cpu_list_live [OF i]] ks'_def)
  moreover have "lists_ok ks'"
    using i by (auto simp: ks'_def kinv_def lists_ok_def runnable_def has_extra_def)
  then have "kinv ks'"
    using kinv_lists [OF i, where cl = "(ks_cpu_list ks)(c := remove1 a (ks_cpu_list ks c))"
        and wl = "ks_wait_list ks"]
    by (simp add: ks'_def)
  moreover have "unlisted ks' a"
    using lists_okD(5) [OF i, of c] lists_okD(7) [OF i a] lists_okD(8) [OF i a]
    by (auto simp: unlisted_def ks'_def)
  moreover have "runnable ks' a" using lists_okD(6) [OF i a] by (simp add: runnable_def ks'_def)
  ultimately show thesis by (rule that) (simp add: ks'_def)
qed

lemma del_wait_kinv:
  assumes i: "kinv ks" and a: "a \<in> set (ks_wait_list ks)"
  shows "list_del (task_live ks) a (ks_wait_list ks) = Some (remove1 a (ks_wait_list ks))"
    "kinv (ks\<lparr>ks_wait_list := remove1 a (ks_wait_list ks)\<rparr>)"
    "unlisted (ks\<lparr>ks_wait_list := remove1 a (ks_wait_list ks)\<rparr>) a"
proof -
  show "list_del (task_live ks) a (ks_wait_list ks) = Some (remove1 a (ks_wait_list ks))"
    by (rule list_del_live [OF wait_list_live [OF i]])
  have "lists_ok (ks\<lparr>ks_wait_list := remove1 a (ks_wait_list ks)\<rparr>)"
    using i by (auto simp: kinv_def lists_ok_def runnable_def has_extra_def)
  then show "kinv (ks\<lparr>ks_wait_list := remove1 a (ks_wait_list ks)\<rparr>)"
    using kinv_lists [OF i, where cl = "ks_cpu_list ks" and wl = "remove1 a (ks_wait_list ks)"] by simp
  show "unlisted (ks\<lparr>ks_wait_list := remove1 a (ks_wait_list ks)\<rparr>) a"
    using lists_okD(3) [OF i] lists_okD(7) [OF i] a by (auto simp: unlisted_def)
qed

lemma sim_unlisted: "sim ks ks' \<Longrightarrow> unlisted ks' a = unlisted ks a"
  by (simp add: unlisted_def simD)

section \<open>Switching, migrating and starting\<close>

text \<open>
  A run from \<open>ks\<close> that does not fault, keeps the invariant, and does nothing to a buffer but let it
  grow.
\<close>

definition buffers_grow :: "bool \<Rightarrow> kstate \<Rightarrow> kstate \<Rightarrow> bool" where
  "buffers_grow up ks ks' \<longleftrightarrow>
     (\<forall>r rb. ks_rbs ks r = Some rb \<longrightarrow> (\<exists>rb'. ks_rbs ks' r = Some rb' \<and> grows up rb rb'))"

lemma buffers_grow_trans: "buffers_grow up ks ks1 \<Longrightarrow> buffers_grow up ks1 ks2 \<Longrightarrow> buffers_grow up ks ks2"
  unfolding buffers_grow_def by (meson rtranclp_trans)

lemma buffers_same: "ks_rbs ks' = ks_rbs ks \<Longrightarrow> buffers_grow up ks ks'"
  by (simp add: buffers_grow_def)

lemma sim_grow: "sim ks ks' \<Longrightarrow> buffers_grow up ks ks'"
proof -
  assume "sim ks ks'"
  then have "rel_option rb_sim (ks_rbs ks r) (ks_rbs ks' r)" for r by (rule simD(2))
  then show ?thesis unfolding buffers_grow_def by (metis option_rel_Some1 rb_sim_def)
qed

definition safe :: "bool \<Rightarrow> kstate \<Rightarrow> kstate option \<Rightarrow> bool" where
  "safe up ks m \<longleftrightarrow> (\<exists>ks'. m = Some ks' \<and> kinv ks' \<and> buffers_grow up ks ks')"

lemma safe_from: "buffers_grow up ks ks1 \<Longrightarrow> safe up ks1 m \<Longrightarrow> safe up ks m"
  by (auto simp: safe_def intro: buffers_grow_trans)

lemma keeps_safe: "keeps ks m \<Longrightarrow> kinv ks \<Longrightarrow> safe up ks m"
  by (auto simp: safe_def elim!: keepsE intro: sim_kinv sim_grow)

lemma safe_Some: "kinv ks \<Longrightarrow> safe up ks (Some ks)"
  by (simp add: safe_def buffers_same)

lemma safe_bind: "safe up ks0 m \<Longrightarrow> (\<And>ks. kinv ks \<Longrightarrow> safe up ks (g ks)) \<Longrightarrow> safe up ks0 (m \<bind> g)"
  by (auto simp: safe_def) (blast intro: buffers_grow_trans)

text \<open>Looking for a task on a list and working on it.\<close>

lemma find_safe:
  assumes "kinv ks" and "\<forall>a \<in> set xs. task_live ks a"
    and "\<And>a t. a \<in> set xs \<Longrightarrow> ks_tasks ks a = Some t \<Longrightarrow> P t \<Longrightarrow> safe up ks0 (g a)" and "safe up ks0 h"
  shows "safe up ks0 (find_entry P ks xs \<bind> (\<lambda>found. case found of None \<Rightarrow> h | Some a \<Rightarrow> g a))"
  by (rule find_entry_live [OF assms(2), of P]) (simp_all add: assms(3,4))

lemma find_keeps:
  assumes "\<forall>a \<in> set xs. task_live ks a" and "\<And>a. a \<in> set xs \<Longrightarrow> keeps ks (g a)"
  shows "keeps ks (find_entry P ks xs \<bind> (\<lambda>found. case found of None \<Rightarrow> Some ks | Some a \<Rightarrow> g a))"
  by (rule find_entry_live [OF assms(1), of P]) (simp add: keeps_def sim_refl, simp add: assms(2))

lemma switch_keeps:
  assumes i: "kinv ks"
  shows "keeps ks (smon_sched_switch prev next remaining ks)"
  unfolding smon_sched_switch_def Let_def bind_assoc [symmetric]
proof (rule keeps_bind [OF find_keeps])
  show l: "\<forall>a \<in> set (ks_cpu_list ks (ks_task_cpu ks prev)). task_live ks a" using cpu_list_live [OF i] by blast
  then show "keeps ks (smon_sched_task_out a remaining ks)" if "a \<in> set (ks_cpu_list ks (ks_task_cpu ks prev))" for a
    using task_out_keeps [OF i] that by blast
  fix k assume "sim ks k"
  then have k: "kinv k" by (rule sim_kinv [OF i])
  then show "keeps k (find_entry (\<lambda>t. t_p t = Some next) k (ks_cpu_list k (ks_task_cpu ks prev)) \<bind>
      (\<lambda>found. case found of None \<Rightarrow> Some k | Some a \<Rightarrow> smon_sched_task_in a k))"
    using cpu_list_live [OF k] by (intro find_keeps ballI task_in_keeps) blast+
qed

lemma switch_safe: "kinv ks \<Longrightarrow> safe up ks (smon_sched_switch prev next remaining ks)"
  by (rule keeps_safe [OF switch_keeps])

lemma envir_bind:
  assumes "kinv ks" and "task_live ks a"
    and "\<And>t e. ks_tasks ks a = Some t \<Longrightarrow> task_envir t ks = Some e \<Longrightarrow> safe up ks (g t e)"
  shows "safe up ks (do { t \<leftarrow> ks_tasks ks a; e \<leftarrow> task_envir t ks; g t e })"
proof -
  from assms(2) obtain t where t: "ks_tasks ks a = Some t" by (rule task_live_Some)
  from kinvD [OF assms(1) t] obtain e where "task_envir t ks = Some e" by metis
  with t assms(3) show ?thesis by simp
qed

lemma add_safe: "kinv ks \<Longrightarrow> runnable ks a \<Longrightarrow> unlisted ks a \<Longrightarrow> safe up ks (add_to_cpu c a ks)"
  by (rule add_to_cpu_kinv [of ks a c]) (auto simp: safe_def intro: buffers_same)

lemma keeps_add_safe:
  assumes "kinv ks" and "runnable ks a" and "unlisted ks a" and "keeps ks m"
  shows "safe up ks (m \<bind> add_to_cpu c a)"
  using assms(4)
proof (rule keepsE)
  fix ks' assume m: "m = Some ks'" and s: "sim ks ks'"
  show ?thesis unfolding m bind.simps
    by (rule safe_from [OF sim_grow [OF s] add_safe]) (use assms(1-3) s in \<open>simp_all add: sim_kinv sim_users(5) sim_unlisted\<close>)
qed

lemma migrate_safe:
  assumes i: "kinv ks"
  shows "safe up ks (smon_sched_migrate_task pad p dest ks)"
  unfolding smon_sched_migrate_task_def Let_def
proof (rule find_safe [OF i cpu_list_live [OF i] _ safe_Some [OF i]])
  fix a t assume a: "a \<in> set (ks_cpu_list ks (ks_task_cpu ks p))" "ks_tasks ks a = Some t"
  from del_from_cpu_kinv [OF i a(1)] obtain ks1 where d:
    "del_from_cpu (ks_task_cpu ks p) a ks = Some ks1" "kinv ks1" "unlisted ks1 a" and r: "runnable ks1 a"
    and same: "ks1 = ks\<lparr>ks_cpu_list := (ks_cpu_list ks)(ks_task_cpu ks p := remove1 a (ks_cpu_list ks (ks_task_cpu ks p)))\<rparr>" .
  have grow: "buffers_grow up ks ks1" by (rule buffers_same) (simp add: same)
  have w: "keeps ks1 (smon_sample_write (t_rb t) SAMPLE_TYPE_CPU (cpu_image pad s) (ks1\<lparr>ks_mach := m\<rparr>))"
    if "ks_tasks ks1 a = Some t" for t s m
  proof (rule keeps_trans [OF sim_mach write_keeps])
    show "kinv (ks1\<lparr>ks_mach := m\<rparr>)" by (rule sim_kinv [OF d(2) sim_mach])
    show "t_rb t = Some r \<Longrightarrow> ks_rbs (ks1\<lparr>ks_mach := m\<rparr>) r \<noteq> None" for r
      using task_rb_live [OF d(2) that] by simp
  qed (rule image_bytes)
  show "safe up ks (del_from_cpu (ks_task_cpu ks p) a ks \<bind> (\<lambda>ks'. ks_tasks ks' a \<bind> (\<lambda>t. task_envir t ks' \<bind> (\<lambda>e.
     (if envir_option_cpu e
      then case msr_rdtsc (ks_mach ks') of (tsc, m) \<Rightarrow>
        smon_sample_write (t_rb t) SAMPLE_TYPE_CPU (cpu_image pad
          \<lparr>sc_timestamp = tsc, sc_pid = t_pid t, sc_old_cpu = of_nat (ks_task_cpu ks p),
           sc_new_cpu = of_nat dest\<rparr>) (ks'\<lparr>ks_mach := m\<rparr>)
      else Some ks') \<bind> add_to_cpu dest a))))"
    unfolding d(1) bind.simps
    by (rule safe_from [OF grow], rule envir_bind [OF d(2) runnable_live [OF r]], rule keeps_add_safe [OF d(2) r d(3)], rule keeps_if)
      (simp add: w split: prod.splits)
qed

lemma exec_safe:
  assumes i: "kinv ks"
  shows "safe up ks (smon_sched_process_exec p ks)"
  unfolding smon_sched_process_exec_def Let_def
proof (rule find_safe [OF i wait_list_live [OF i] _ safe_Some [OF i]])
  fix a t assume a: "a \<in> set (ks_wait_list ks)" "ks_tasks ks a = Some t"
  define ks1 where "ks1 = ks\<lparr>ks_wait_list := remove1 a (ks_wait_list ks)\<rparr>"
  note d = del_wait_kinv [OF i a(1), folded ks1_def]
  have t: "ks_tasks ks1 a = Some t" using a(2) by (simp add: ks1_def)
  have r: "runnable ks1 a" using lists_okD(4) [OF i a(1)] by (simp add: runnable_def ks1_def)
  have "keeps ks1 (if t_extra t \<noteq> None then smon_task_extra_start a ks1 else Some ks1)"
    by (rule keeps_if) (auto intro: extra_start_keeps [OF d(2) t])
  then have "keeps ks1 ((if t_extra t \<noteq> None then smon_task_extra_start a ks1 else Some ks1) \<bind> smon_sched_task_in a)"
    by (rule keeps_seq [OF d(2) runnable_live [OF r]]) (rule task_in_keeps)
  note e = keeps_add_safe [OF d(2) r d(3) this, where c = "ks_task_cpu ks1 p" and up = up]
  have "buffers_grow up ks ks1" by (rule buffers_same) (simp add: ks1_def)
  note e = safe_from [OF this e]
  show
    "safe up ks (del_from_wait a ks \<bind> (\<lambda>k.
       ks_tasks k a \<bind> (\<lambda>t.
       (if t_extra t \<noteq> None then smon_task_extra_start a k else Some k) \<bind> (\<lambda>ks'.
       smon_sched_task_in a ks' \<bind> add_to_cpu (ks_task_cpu k p) a))))"
    unfolding del_from_wait_def d(1) bind.simps ks1_def [symmetric] t using e by simp
qed

section \<open>A task exits\<close>

text \<open>The links alone.\<close>

definition links :: "smon_task \<Rightarrow> addr \<times> addr" where
  "links t = (t_ch_next t, t_ch_prev t)"

lemma links_ok_alt:
  "links_ok ks \<longleftrightarrow> (\<forall>c n p. map_option links (ks_tasks ks c) = Some (n, p) \<longrightarrow>
     (\<exists>x. map_option links (ks_tasks ks n) = Some (x, c)) \<and>
     (\<exists>x. map_option links (ks_tasks ks p) = Some (c, x)))"
  by (force simp: links_ok_def links_def)

lemma ring_step_alt: "ring_step ks = {(x, y). \<exists>p. map_option links (ks_tasks ks x) = Some (y, p)}"
  by (auto simp: ring_step_def links_def)

lemma rings_cong:
  assumes "\<And>c. map_option links (ks_tasks ks' c) = map_option links (ks_tasks ks c)"
    and "ks_task_list ks' = ks_task_list ks"
  shows "rings_ok ks' = rings_ok ks"
  by (simp add: rings_ok_def links_ok_alt family_def ring_step_alt assms)

lemma card_pos: "finite A \<Longrightarrow> a \<in> A \<Longrightarrow> 0 < card A"
  by (auto simp: card_gt_0_iff)

lemma unat_dec: "0 < unat (x :: u32) \<Longrightarrow> unat (x - 1) = unat x - 1"
  by (simp add: unat_minus_one unat_gt_0)

lemma unat_inc: "unat (x :: u32) < 2 ^ 31 \<Longrightarrow> unat (x + 1) = unat x + 1"
  by (simp add: unat_word_ariths)

lemma counts_users:
  assumes "counts_ok ks"
  shows "finite (rb_users ks r)" "card (rb_users ks r) \<le> card (dom (ks_tasks ks))"
    "finite (envir_users ks ea)" "card (envir_users ks ea) \<le> card (dom (ks_tasks ks))"
    "finite (dom (ks_tasks ks))" "card (dom (ks_tasks ks)) < 2 ^ 31"
proof -
  have f: "finite (dom (ks_tasks ks))" and s: "rb_users ks r \<subseteq> dom (ks_tasks ks)"
    and u: "envir_users ks ea \<subseteq> dom (ks_tasks ks)"
    using assms by (auto simp: counts_ok_def rb_users_def envir_users_def)
  show "finite (rb_users ks r)" "card (rb_users ks r) \<le> card (dom (ks_tasks ks))"
    "finite (envir_users ks ea)" "card (envir_users ks ea) \<le> card (dom (ks_tasks ks))"
    using f s u by (auto intro: finite_subset card_mono)
  show "finite (dom (ks_tasks ks))" "card (dom (ks_tasks ks)) < 2 ^ 31"
    using assms by (auto simp: counts_ok_def)
qed

lemma release_safe:
  assumes "rb_safe rb"
  obtains rb' where "smon_release_rb rb = Some rb'" "rb_safe rb'" "rb_active rb' = rb_active rb - 1"
proof -
  from rb_exec_safe [of OpRelease rb] assms obtain rb' where r: "smon_release_rb rb = Some rb'" "rb_safe rb'"
    by auto
  have "rb_active rb' = rb_active rb - 1"
    using r(1) by (auto simp: smon_release_rb_def Let_def smon_rb_write_eof_def bind_eq_Some_conv
        dest!: rb_write_active split: if_splits)
  with r that show thesis by blast
qed

lemma retire_kinv:
  assumes i: "kinv ks" and t: "ks_tasks ks a = Some t" "t_p t \<noteq> None" and u: "unlisted ks a"
  obtains r rb rb' ks' where "t_rb t = Some r" "ks_rbs ks r = Some rb" "smon_release_rb rb = Some rb'"
    "rb_active rb \<noteq> 0" "retire_task a ks = Some ks'" "kinv ks'"
    "ks' = ks\<lparr>ks_tasks := (ks_tasks ks)(a \<mapsto> t\<lparr>t_p := None, t_rb := None\<rparr>), ks_rbs := (ks_rbs ks)(r \<mapsto> rb')\<rparr>"
proof -
  from i t obtain r where r: "t_rb t = Some r" "ks_rbs ks r \<noteq> None"
    by (auto simp: kinv_def task_ok_def)
  then obtain rb where rb: "ks_rbs ks r = Some rb" "rb_safe rb" using i by (auto simp: kinv_def)
  from release_safe [OF rb(2)] obtain rb' where rb': "smon_release_rb rb = Some rb'" "rb_safe rb'"
    "rb_active rb' = rb_active rb - 1" .
  define t' where "t' = t\<lparr>t_p := None, t_rb := None\<rparr>"
  define ks' where "ks' = ks\<lparr>ks_tasks := (ks_tasks ks)(a \<mapsto> t'), ks_rbs := (ks_rbs ks)(r \<mapsto> rb')\<rparr>"
  have run: "retire_task a ks = Some ks'"
    using t r rb rb' by (simp add: retire_task_def modify_task_def put_task_def release_rb_at_def put_rb_def
        ks'_def t'_def)
  have c: "counts_ok ks" using i by (simp add: kinv_def)
  have users: "rb_users ks' q = rb_users ks q - {a}" if "q = r" for q
    by (auto simp: rb_users_def ks'_def t'_def)
  have users': "rb_users ks' q = rb_users ks q" if "q \<noteq> r" for q
    using r(1) t(1) that by (auto simp: rb_users_def ks'_def t'_def)
  have "a \<in> rb_users ks r" using t r by (auto simp: rb_users_def)
  then have pos: "0 < card (rb_users ks r)" "card (rb_users ks r - {a}) = card (rb_users ks r) - 1"
    using counts_users(1) [OF c] by (auto intro: card_pos)
  have "unat (rb_active rb) = card (rb_users ks r)" using c rb by (auto simp: counts_ok_def)
  then have nz: "rb_active rb \<noteq> 0" using pos(1) by (metis less_irrefl unat_0)
  have "unat (rb_active rb) = card (rb_users ks r)" using c rb by (auto simp: counts_ok_def)
  then have act: "unat (rb_active rb') = card (rb_users ks' r)"
    using pos users rb'(3) by (simp add: unat_dec)
  have en: "envir_users ks' ea = envir_users ks ea" for ea
    using t(1) by (auto simp: envir_users_def ks'_def t'_def)
  have d: "dom (ks_tasks ks') = dom (ks_tasks ks)" using t(1) by (auto simp: ks'_def)
  have rbs: "ks_rbs ks' q = None \<longleftrightarrow> ks_rbs ks q = None" for q using rb(1) by (simp add: ks'_def)
  have same: "ks_envirs ks' = ks_envirs ks" "ks_evsets ks' = ks_evsets ks" by (simp_all add: ks'_def)
  have counts: "counts_ok ks'"
    unfolding counts_ok_def d en
  proof (intro conjI allI impI)
    fix q b assume q: "ks_rbs ks' q = Some b"
    show "unat (rb_active b) = card (rb_users ks' q)"
      using q act users' c by (cases "q = r") (auto simp: ks'_def counts_ok_def)
  qed (use c in \<open>auto simp: counts_ok_def ks'_def\<close>)
  have "kinv ks'"
    unfolding kinv_def
  proof (intro conjI allI impI ballI)
    show "cfg_ok ks'" using i by (simp add: kinv_def cfg_ok_def ks'_def)
    show "task_ok ks' v" if v: "ks_tasks ks' b = Some v" for b v
    proof -
      from i have all: "\<And>b v. ks_tasks ks b = Some v \<Longrightarrow> task_ok ks v" by (simp add: kinv_def)
      show ?thesis
      proof (cases "b = a")
        case True
        then have "v = t'" using v by (simp add: ks'_def)
        then show ?thesis
          using all [OF t(1)] by (simp add: task_ok_def rbs same t'_def task_local_def)
      next
        case False
        then have "task_ok ks v" using v all by (simp add: ks'_def)
        then show ?thesis by (simp add: task_ok_def rbs same)
      qed
    qed
    show "rb_safe b" if "ks_rbs ks' q = Some b" for q b
      using that i rb'(2) by (auto simp: ks'_def kinv_def split: if_splits)
    show "counts_ok ks'" by (rule counts)
    show "lists_ok ks'"
      using i u t(1) by (auto simp: kinv_def lists_ok_def runnable_def has_extra_def unlisted_def ks'_def t'_def)
    have "rings_ok ks' = rings_ok ks"
      by (rule rings_cong) (use t(1) in \<open>auto simp: ks'_def t'_def links_def\<close>)
    then show "rings_ok ks'" using i by (simp add: kinv_def)
    fix j assume "j \<in> set (ks_irq ks')"
    then have "irq_item_ok ks j" using i by (simp add: kinv_def ks'_def)
    then show "irq_item_ok ks' j" using t(1) by (cases j) (auto simp: ks'_def task_live_def has_extra_def t'_def)
  qed
  then show thesis using that [OF r(1) rb(1) rb'(1) nz run] by (simp add: ks'_def t'_def)
qed

lemma keeps_bind_safe:
  assumes "kinv ks" and "keeps ks m" and "\<And>ks'. kinv ks' \<Longrightarrow> sim ks ks' \<Longrightarrow> safe up ks' (g ks')"
  shows "safe up ks (m \<bind> g)"
  using assms(2)
proof (rule keepsE)
  fix ks' assume "m = Some ks'" "sim ks ks'"
  then show ?thesis using assms(3) [OF sim_kinv [OF assms(1)]] safe_from [OF sim_grow] by simp
qed

lemma sim_cpu_list: "sim ks ks' \<Longrightarrow> ks_cpu_list ks' c = ks_cpu_list ks c"
  by (simp add: simD)

lemma retire_then_safe:
  assumes "kinv ks" and "runnable ks a" and "unlisted ks a"
    and "\<And>ks'. kinv ks' \<Longrightarrow> task_live ks' a \<Longrightarrow> safe False ks' (g ks')"
  shows "safe False ks (retire_task a ks \<bind> g)"
proof -
  from assms(2) obtain t where t: "ks_tasks ks a = Some t" "t_p t \<noteq> None" by (auto simp: runnable_def)
  from retire_kinv [OF assms(1) t assms(3)] obtain r rb rb' ks' where
    rb: "ks_rbs ks r = Some rb" "smon_release_rb rb = Some rb'" "rb_active rb \<noteq> 0" and k: "retire_task a ks = Some ks'" "kinv ks'"
    "ks' = ks\<lparr>ks_tasks := (ks_tasks ks)(a \<mapsto> t\<lparr>t_p := None, t_rb := None\<rparr>), ks_rbs := (ks_rbs ks)(r \<mapsto> rb')\<rparr>"
    by metis
  have "task_live ks' a" using k(3) by (simp add: task_live_def)
  moreover have "buffers_grow False ks ks'"
    using rb by (auto simp: buffers_grow_def k(3) intro: grow_release)
  ultimately show ?thesis using k(1,2) assms(4) safe_from by simp
qed

lemma exit_safe:
  assumes i: "kinv ks"
  shows "safe False ks (smon_sched_process_exit p ks)"
  unfolding smon_sched_process_exit_def Let_def
proof (rule find_safe [OF i cpu_list_live [OF i]])
  define c where "c = ks_task_cpu ks p"
  fix a t assume a: "a \<in> set (ks_cpu_list ks c)"
  have l: "task_live ks a" using cpu_list_live [OF i] a by blast
  define cancel :: "smon_task \<Rightarrow> smon_task" where "cancel = (\<lambda>t. if tm_active (t_timer t)
      then t\<lparr>t_timer := hrtimer_cancel (t_timer t)\<rparr> else t)"
  have "keeps ks (modify_task a cancel ks)"
    by (rule modify_task_keeps [OF l]) (simp add: cancel_def task_sim_refl)
  then have first: "keeps ks (modify_task a cancel ks \<bind> (\<lambda>ks. smon_sample_stop a ks \<bind> smon_sample_save a))"
    using i l by (intro keeps_seq sample_stop_keeps sample_save_keeps)
  have rest: "safe False k (del_from_cpu c a k \<bind> (\<lambda>ks. retire_task a ks \<bind> (\<lambda>ks. modify_task a (\<lambda>t. t\<lparr>t_extra :=
      map_option (\<lambda>x. x\<lparr>x_rapl_timer := hrtimer_cancel (x_rapl_timer x)\<rparr>) (t_extra t)\<rparr>) ks)))"
    if k: "kinv k" "sim ks k" for k
  proof -
    have "a \<in> set (ks_cpu_list k c)" using a sim_cpu_list [OF k(2)] by simp
    from del_from_cpu_kinv [OF k(1) this] obtain k1 where
      d: "del_from_cpu c a k = Some k1" "kinv k1" "unlisted k1 a" "runnable k1 a"
      and same: "k1 = k\<lparr>ks_cpu_list := (ks_cpu_list k)(c := remove1 a (ks_cpu_list k c))\<rparr>" .
    have grow: "buffers_grow False k k1" by (rule buffers_same) (simp add: same)
    have "task_sim es t (t\<lparr>t_extra := map_option (\<lambda>x. x\<lparr>x_rapl_timer := hrtimer_cancel (x_rapl_timer x)\<rparr>) (t_extra t)\<rparr>)"
      for es t by (cases "t_extra t") (simp_all add: task_sim_def skel_def task_local_def)
    then show ?thesis
      unfolding d(1) bind.simps
      by (intro safe_from [OF grow] retire_then_safe [OF d(2,4,3)] keeps_safe [OF modify_task_keeps])
  qed
  from keeps_bind_safe [OF i first rest]
  show "safe False ks (modify_task a (\<lambda>t. if tm_active (t_timer t) then t\<lparr>t_timer := hrtimer_cancel (t_timer t)\<rparr> else t) ks \<bind>
      (\<lambda>ks. smon_sample_stop a ks \<bind> (\<lambda>ks. smon_sample_save a ks \<bind> (\<lambda>ks. del_from_cpu c a ks \<bind>
      (\<lambda>ks. retire_task a ks \<bind> modify_task a (\<lambda>t. t\<lparr>t_extra :=
        map_option (\<lambda>x. x\<lparr>x_rapl_timer := hrtimer_cancel (x_rapl_timer x)\<rparr>) (t_extra t)\<rparr>))))))"
    by (simp add: cancel_def)
next
  show "safe False ks (find_entry (\<lambda>t. t_p t = Some p) ks (ks_wait_list ks) \<bind> (\<lambda>found. case found of None \<Rightarrow> Some ks
      | Some a \<Rightarrow> del_from_wait a ks \<bind> retire_task a))"
  proof (rule find_safe [OF i wait_list_live [OF i] _ safe_Some [OF i]])
    fix a assume a: "a \<in> set (ks_wait_list ks)"
    note d = del_wait_kinv [OF i a]
    have "runnable (ks\<lparr>ks_wait_list := remove1 a (ks_wait_list ks)\<rparr>) a"
      using lists_okD(4) [OF i a] by (simp add: runnable_def)
    have grow: "buffers_grow False ks (ks\<lparr>ks_wait_list := remove1 a (ks_wait_list ks)\<rparr>)" by (rule buffers_same) simp
    from safe_from [OF grow retire_then_safe [OF d(2) \<open>runnable _ a\<close> d(3), of Some]] show
      "safe False ks (del_from_wait a ks \<bind> retire_task a)"
      by (simp add: del_from_wait_def d(1) safe_Some)
  qed
qed

end
