(* ===== verification/Kernel_Family.thy ===== *)
theory Kernel_Family
  imports Kernel_Safe
begin

text \<open>
  Creating and freeing tasks: the rings that link a task with its descendants, the reference
  counts, and the walk that frees a whole family.
\<close>

section \<open>Rings\<close>

text \<open>Closed rings over the set \<open>D\<close>, given by the next and the previous node.\<close>

definition ring_ok :: "addr set \<Rightarrow> (addr \<Rightarrow> addr) \<Rightarrow> (addr \<Rightarrow> addr) \<Rightarrow> bool" where
  "ring_ok D nx pv \<longleftrightarrow> (\<forall>c \<in> D. nx c \<in> D \<and> pv (nx c) = c \<and> pv c \<in> D \<and> nx (pv c) = c)"

definition steps :: "addr set \<Rightarrow> (addr \<Rightarrow> addr) \<Rightarrow> (addr \<times> addr) set" where
  "steps D nx = {(x, y). x \<in> D \<and> y = nx x}"

lemma steps_cong: "(\<And>x. x \<in> D \<Longrightarrow> f x = g x) \<Longrightarrow> steps D f = steps D g"
  by (auto simp: steps_def)

lemma ring_ok_add:
  assumes "ring_ok D nx pv" and "a \<in> D" and "h \<in> D" and "a \<noteq> h" and "nx a = a"
  shows "ring_ok D (nx(a := nx h, h := a)) (pv(nx h := a, a := h))"
proof -
  have d: "\<And>c. c \<in> D \<Longrightarrow> nx c \<in> D \<and> pv (nx c) = c \<and> pv c \<in> D \<and> nx (pv c) = c"
    using assms(1) by (simp add: ring_ok_def)
  have "pv a = a" using d [of a] assms(2,5) by simp
  have "nx h \<noteq> a" using d [of h] assms(3,4) \<open>pv a = a\<close> by metis
  have 1: "nx c \<noteq> nx h" "nx c \<noteq> a" if "c \<in> D" "c \<noteq> h" "c \<noteq> a" for c
    using d [of c] d [of h] that assms(3) \<open>pv a = a\<close> by metis+
  have 2: "pv c \<noteq> a" "pv c \<noteq> h" if "c \<in> D" "c \<noteq> a" "c \<noteq> nx h" for c
    using d [of c] that assms(5) by metis+
  show ?thesis
    unfolding ring_ok_def
    using assms(2-5) \<open>nx h \<noteq> a\<close> d 1 2 by (auto simp: fun_upd_def)
qed

lemma steps_add:
  assumes "(x, b) \<in> (steps D (nx(a := nx h, h := a)))\<^sup>*" and "x \<noteq> a" and "h \<in> D"
    and only: "\<And>b. b \<in> D \<Longrightarrow> nx b = a \<Longrightarrow> b = a"
  shows "if b = a then (x, h) \<in> (steps D nx)\<^sup>* else (x, b) \<in> (steps D nx)\<^sup>*"
  using assms(1)
proof (induction rule: rtrancl_induct)
  case base
  then show ?case using assms(2) by simp
next
  case (step b c)
  have bc: "b \<in> D" "c = (nx(a := nx h, h := a)) b" using step.hyps(2) by (auto simp: steps_def)
  show ?case
  proof (cases "b = h")
    case True
    then have "c = a" using bc(2) by simp
    moreover have "(x, h) \<in> (steps D nx)\<^sup>*" using step.IH True by (simp split: if_splits)
    ultimately show ?thesis by simp
  next
    case False
    have hn: "(h, nx h) \<in> steps D nx" using assms(3) by (simp add: steps_def)
    show ?thesis
    proof (cases "b = a")
      case True
      then have "c = nx h" "(x, h) \<in> (steps D nx)\<^sup>*" using bc(2) False step.IH by simp_all
      then show ?thesis using hn by (auto intro: rtrancl_into_rtrancl)
    next
      case b: False
      then have "c = nx b" "(x, b) \<in> (steps D nx)\<^sup>*" using bc(2) False step.IH by simp_all
      moreover have "(b, nx b) \<in> steps D nx" using bc(1) by (simp add: steps_def)
      ultimately have "(x, c) \<in> (steps D nx)\<^sup>*" by (auto intro: rtrancl_into_rtrancl)
      then show ?thesis using only [OF bc(1)] b \<open>c = nx b\<close> by auto
    qed
  qed
qed

lemma ring_ok_del:
  assumes "ring_ok D nx pv" and "c \<in> D"
  shows "ring_ok (D - {c}) (nx(pv c := nx c)) (pv(nx c := pv c))"
proof -
  have d: "\<And>c. c \<in> D \<Longrightarrow> nx c \<in> D \<and> pv (nx c) = c \<and> pv c \<in> D \<and> nx (pv c) = c"
    using assms(1) by (simp add: ring_ok_def)
  have 1: "nx x \<noteq> c" "nx x \<noteq> nx c" if "x \<in> D" "x \<noteq> c" "x \<noteq> pv c" for x
    using d that assms(2) by metis+
  have 2: "pv x \<noteq> c" "pv x \<noteq> pv c" if "x \<in> D" "x \<noteq> c" "x \<noteq> nx c" for x
    using d that assms(2) by metis+
  have 3: "nx c = c \<longleftrightarrow> pv c = c" using d [OF assms(2)] by metis
  show ?thesis
    unfolding ring_ok_def using d d [OF assms(2)] 1 2 3 assms(2) by auto
qed

lemma steps_del:
  assumes "ring_ok D nx pv" and "c \<in> D" and "(x, b) \<in> (steps (D - {c}) (nx(pv c := nx c)))\<^sup>*"
  shows "(x, b) \<in> (steps D nx)\<^sup>*"
proof -
  have p: "nx (pv c) = c" "pv c \<in> D" using assms(1,2) by (auto simp: ring_ok_def)
  have "(y, z) \<in> (steps D nx)\<^sup>*" if "(y, z) \<in> steps (D - {c}) (nx(pv c := nx c))" for y z
  proof (cases "y = pv c")
    case True
    then have "(y, c) \<in> steps D nx" "(c, z) \<in> steps D nx" using that p assms(2) by (auto simp: steps_def)
    then show ?thesis by (auto intro: rtrancl_trans)
  next
    case False
    then show ?thesis using that by (auto simp: steps_def)
  qed
  then have "(steps (D - {c}) (nx(pv c := nx c)))\<^sup>* \<subseteq> (steps D nx)\<^sup>*"
    by (intro rtrancl_subset_rtrancl) auto
  then show ?thesis using assms(3) by blast
qed

definition nx :: "kstate \<Rightarrow> addr \<Rightarrow> addr" where "nx ks a = t_ch_next (the (ks_tasks ks a))"
definition pv :: "kstate \<Rightarrow> addr \<Rightarrow> addr" where "pv ks a = t_ch_prev (the (ks_tasks ks a))"

lemma links_ring: "links_ok ks \<longleftrightarrow> ring_ok (dom (ks_tasks ks)) (nx ks) (pv ks)"
proof
  assume l: "links_ok ks"
  show "ring_ok (dom (ks_tasks ks)) (nx ks) (pv ks)"
    unfolding ring_ok_def
  proof
    fix c assume "c \<in> dom (ks_tasks ks)"
    then obtain t where t: "ks_tasks ks c = Some t" by blast
    with l obtain n p where "ks_tasks ks (t_ch_next t) = Some n" "t_ch_prev n = c"
      "ks_tasks ks (t_ch_prev t) = Some p" "t_ch_next p = c" unfolding links_ok_def by blast
    with t show "nx ks c \<in> dom (ks_tasks ks) \<and> pv ks (nx ks c) = c \<and>
        pv ks c \<in> dom (ks_tasks ks) \<and> nx ks (pv ks c) = c"
      by (simp add: nx_def pv_def dom_def)
  qed
next
  assume r: "ring_ok (dom (ks_tasks ks)) (nx ks) (pv ks)"
  show "links_ok ks"
    unfolding links_ok_def
  proof (intro allI impI)
    fix c t assume t: "ks_tasks ks c = Some t"
    then have "c \<in> dom (ks_tasks ks)" by blast
    with r have "nx ks c \<in> dom (ks_tasks ks)" "pv ks (nx ks c) = c"
      "pv ks c \<in> dom (ks_tasks ks)" "nx ks (pv ks c) = c" by (simp_all add: ring_ok_def)
    with t show "(\<exists>n. ks_tasks ks (t_ch_next t) = Some n \<and> t_ch_prev n = c) \<and>
        (\<exists>p. ks_tasks ks (t_ch_prev t) = Some p \<and> t_ch_next p = c)"
      by (auto simp: nx_def pv_def)
  qed
qed

lemma ring_step_steps: "ring_step ks = steps (dom (ks_tasks ks)) (nx ks)"
  by (auto simp: ring_step_def steps_def nx_def dom_def)

lemma family_self [simp]: "a \<in> family ks a"
  by (simp add: family_def)

lemma family_next: "c \<in> family ks a \<Longrightarrow> ks_tasks ks c = Some t \<Longrightarrow> t_ch_next t \<in> family ks a"
  by (auto simp: family_def ring_step_def intro: rtrancl_into_rtrancl)

section \<open>Freeing one task\<close>

text \<open>The tasks without \<open>c\<close>, whose neighbours are linked to each other.\<close>

definition unlink :: "kstate \<Rightarrow> addr \<Rightarrow> addr \<Rightarrow> smon_task option" where
  "unlink ks c x =
     (if x = c then None
      else map_option (\<lambda>t. t\<lparr>t_ch_next := (if x = pv ks c then nx ks c else t_ch_next t),
                              t_ch_prev := (if x = nx ks c then pv ks c else t_ch_prev t)\<rparr>) (ks_tasks ks x))"

definition freed :: "kstate \<Rightarrow> addr \<Rightarrow> addr \<Rightarrow> smon_envir option \<Rightarrow> kstate" where
  "freed ks c ea e' = ks\<lparr>ks_tasks := unlink ks c, ks_envirs := (ks_envirs ks)(ea := e'),
     ks_task_list := remove1 c (ks_task_list ks)\<rparr>"

fun irq_addr :: "irq_item \<Rightarrow> addr" where
  "irq_addr (StartPmc a) = a"
| "irq_addr (StopPmc a) = a"
| "irq_addr (StartRapl a) = a"
| "irq_addr (StopRapl a) = a"

text \<open>Nothing but the lists of the tasks refers to the task any more.\<close>

definition retired :: "kstate \<Rightarrow> addr \<Rightarrow> bool" where
  "retired ks c \<longleftrightarrow> (\<exists>t. ks_tasks ks c = Some t \<and> t_p t = None) \<and> (\<forall>i \<in> set (ks_irq ks). irq_addr i \<noteq> c)"

lemma unlink_Some:
  assumes "unlink ks c x = Some t'"
  obtains t where "x \<noteq> c" "ks_tasks ks x = Some t" "t_p t' = t_p t" "t_pid t' = t_pid t"
    "t_envir t' = t_envir t" "t_rb t' = t_rb t" "t_extra t' = t_extra t" "t_evset t' = t_evset t"
    "t_sample_pmc t' = t_sample_pmc t"
    "t_ch_next t' = (if x = pv ks c then nx ks c else t_ch_next t)"
    "t_ch_prev t' = (if x = nx ks c then pv ks c else t_ch_prev t)"
proof -
  have x: "x \<noteq> c" using assms by (auto simp: unlink_def)
  then obtain t where "ks_tasks ks x = Some t"
    "t' = t\<lparr>t_ch_next := (if x = pv ks c then nx ks c else t_ch_next t),
            t_ch_prev := (if x = nx ks c then pv ks c else t_ch_prev t)\<rparr>"
    using assms by (cases "ks_tasks ks x") (simp_all add: unlink_def)
  with x show thesis by (intro that [of t]) simp_all
qed

lemma unlink_live: "unlink ks c x \<noteq> None \<longleftrightarrow> x \<noteq> c \<and> task_live ks x"
  by (auto simp: unlink_def task_live_def)

lemma unlink_other:
  assumes "ks_tasks ks x = Some t" and "x \<noteq> c"
  obtains t' where "unlink ks c x = Some t'" "t_p t' = t_p t" "t_envir t' = t_envir t" "t_rb t' = t_rb t"
    "t_extra t' = t_extra t"
  using assms by (auto simp: unlink_def)

lemma freed_rings:
  assumes i: "kinv ks" and c: "task_live ks c"
  shows "links_ok (freed ks c ea e')" "family (freed ks c ea e') x \<subseteq> family ks x"
proof -
  let ?k = "freed ks c ea e'"
  have r: "ring_ok (dom (ks_tasks ks)) (nx ks) (pv ks)"
    using i by (simp add: kinv_def rings_ok_def links_ring)
  have cd: "c \<in> dom (ks_tasks ks)" using c by (auto simp: task_live_def)
  have d: "dom (ks_tasks ?k) = dom (ks_tasks ks) - {c}"
    using unlink_live [of ks c] by (auto simp: freed_def task_live_def)
  have n: "nx ?k x = ((nx ks)(pv ks c := nx ks c)) x" "pv ?k x = ((pv ks)(nx ks c := pv ks c)) x"
    if "x \<in> dom (ks_tasks ks) - {c}" for x
    using that by (auto simp: nx_def pv_def freed_def unlink_def)
  have "ring_ok (dom (ks_tasks ks) - {c}) ((nx ks)(pv ks c := nx ks c)) ((pv ks)(nx ks c := pv ks c))"
    by (rule ring_ok_del [OF r cd])
  then have "ring_ok (dom (ks_tasks ks) - {c}) (nx ?k) (pv ?k)"
    unfolding ring_ok_def by (metis n)
  then show "links_ok ?k" by (simp add: links_ring d)
  have "steps (dom (ks_tasks ks) - {c}) (nx ?k) = steps (dom (ks_tasks ks) - {c}) ((nx ks)(pv ks c := nx ks c))"
    by (rule steps_cong) (rule n(1))
  then show "family ?k x \<subseteq> family ks x"
    using steps_del [OF r cd] by (auto simp: family_def ring_step_steps d)
qed

lemma release_envir_users:
  assumes i: "kinv ks" and e: "ks_envirs ks ea = Some e" and u: "a \<in> envir_users ks ea"
  shows "smon_release_envir e = None \<longleftrightarrow> envir_users ks ea = {a}"
    "smon_release_envir e = Some e' \<Longrightarrow> e' = e\<lparr>envir_count := envir_count e - 1\<rparr> \<and>
       unat (envir_count e') = card (envir_users ks ea) - 1"
proof -
  have c: "counts_ok ks" using i by (simp add: kinv_def)
  have n: "unat (envir_count e) = card (envir_users ks ea)" using c e by (simp add: counts_ok_def)
  have "0 < card (envir_users ks ea)" using card_pos [OF counts_users(3) [OF c] u] .
  then have d: "unat (envir_count e - 1) = card (envir_users ks ea) - 1" using n by (simp add: unat_dec)
  have "smon_release_envir e = None \<longleftrightarrow> card (envir_users ks ea) = 1"
  proof -
    have "smon_release_envir e = None \<longleftrightarrow> envir_count e - 1 = 0"
      by (simp add: smon_release_envir_def Let_def)
    also have "\<dots> \<longleftrightarrow> unat (envir_count e - 1) = 0" by (simp only: unat_eq_0)
    finally show ?thesis using d \<open>0 < card (envir_users ks ea)\<close> by auto
  qed
  also have "\<dots> \<longleftrightarrow> envir_users ks ea = {a}" using u by (auto simp: card_1_singleton_iff)
  finally show "smon_release_envir e = None \<longleftrightarrow> envir_users ks ea = {a}" .
  show "smon_release_envir e = Some e' \<Longrightarrow> e' = e\<lparr>envir_count := envir_count e - 1\<rparr> \<and>
       unat (envir_count e') = card (envir_users ks ea) - 1"
    using d by (auto simp: smon_release_envir_def Let_def split: if_splits)
qed

lemma freed_kinv:
  assumes i: "kinv ks" and t: "ks_tasks ks c = Some t" and d: "retired ks c"
    and ea: "t_envir t = Some ea" and e: "ks_envirs ks ea = Some e"
  shows "kinv (freed ks c ea (smon_release_envir e))"
proof -
  let ?k = "freed ks c ea (smon_release_envir e)"
  have tp: "t_p t = None" "t_rb t = None"
    using d t i by (auto simp: retired_def kinv_def task_ok_def)
  have T: "ks_tasks ?k = unlink ks c" by (simp add: freed_def)
  have same: "ks_evsets ?k = ks_evsets ks" "ks_rbs ?k = ks_rbs ks" "ks_irq ?k = ks_irq ks"
    "ks_cpu_list ?k = ks_cpu_list ks" "ks_wait_list ?k = ks_wait_list ks"
    by (simp_all add: freed_def)
  have tl: "ks_task_list ?k = remove1 c (ks_task_list ks)" by (simp add: freed_def)
  have en: "envir_users ?k q = envir_users ks q - {c}" for q
    unfolding envir_users_def T by (auto elim: unlink_Some unlink_other)
  have rb: "rb_users ?k q = rb_users ks q" for q
    unfolding rb_users_def T using t tp(2) by (auto elim: unlink_Some) (metis option.discI unlink_other option.inject)
  have dm: "dom (ks_tasks ?k) = dom (ks_tasks ks) - {c}"
    using unlink_live [of ks c] by (auto simp: T task_live_def)
  have live: "task_live ?k x \<longleftrightarrow> x \<noteq> c \<and> task_live ks x" for x
    using unlink_live [of ks c x] by (simp add: task_live_def T)
  have c: "counts_ok ks" using i by (simp add: kinv_def)
  have cu: "c \<in> envir_users ks ea" using t ea by (auto simp: envir_users_def)
  note rel = release_envir_users [OF i e cu]
  have ru: "runnable ?k x" if "runnable ks x" for x
  proof -
    from that obtain u where u: "ks_tasks ks x = Some u" "t_p u \<noteq> None" by (auto simp: runnable_def)
    moreover from this t tp have "x \<noteq> c" by auto
    ultimately show ?thesis by (auto simp: runnable_def T elim: unlink_other)
  qed
  have ex: "has_extra ?k x" if "has_extra ks x" "x \<noteq> c" for x
    using that by (auto simp: has_extra_def T elim: unlink_other)
  show ?thesis
    unfolding kinv_def
  proof (intro conjI allI impI ballI)
    show "cfg_ok ?k" using i by (simp add: kinv_def cfg_ok_def freed_def)
    show "task_ok ?k v'" if v': "ks_tasks ?k b = Some v'" for b v'
    proof -
      from v' [unfolded T] obtain v where v: "b \<noteq> c" "ks_tasks ks b = Some v" "t_p v' = t_p v"
        "t_envir v' = t_envir v" "t_rb v' = t_rb v" "t_extra v' = t_extra v" "t_evset v' = t_evset v"
        "t_sample_pmc v' = t_sample_pmc v" by (rule unlink_Some)
      have ok: "task_ok ks v" using i v(2) by (simp add: kinv_def)
      then obtain eb f where f: "t_envir v = Some eb" "ks_envirs ks eb = Some f" "envir_wf f"
        "envir_refs_ok (ks_evsets ks) f" "task_local f v" by (auto simp: task_ok_def)
      have "\<exists>f'. ks_envirs ?k eb = Some f' \<and> esids f' = esids f \<and> n_esids f' = n_esids f"
      proof (cases "eb = ea")
        case True
        then have "b \<in> envir_users ks ea" using v(2) f(1) by (auto simp: envir_users_def)
        then have "smon_release_envir e \<noteq> None" using rel(1) v(1) by auto
        then obtain f' where "smon_release_envir e = Some f'" by auto
        with rel(2) [OF this] True e f(2) show ?thesis by (simp add: freed_def)
      next
        case False
        then show ?thesis using f(2) by (simp add: freed_def)
      qed
      with f have "\<exists>f'. ks_envirs ?k eb = Some f' \<and> envir_wf f' \<and> envir_refs_ok (ks_evsets ks) f' \<and>
          task_local f' v'"
        using v(7,8) by (auto simp: envir_wf_def envir_refs_ok_def task_local_def)
      then show ?thesis using ok v f(1) unfolding task_ok_def same by simp
    qed
    show "rb_safe b" if "ks_rbs ?k q = Some b" for q b
      using that i by (simp add: same kinv_def)
    show "counts_ok ?k"
      unfolding counts_ok_def dm rb en same
    proof (intro conjI allI impI)
      show "finite (dom (ks_tasks ks) - {c})" "card (dom (ks_tasks ks) - {c}) < 2 ^ 31"
        using counts_users(5,6) [OF c] card_Diff1_le [of "dom (ks_tasks ks)" c] by auto
      show "unat (rb_active b) = card (rb_users ks q)" if "ks_rbs ks q = Some b" for q b
        using that c by (simp add: counts_ok_def)
      fix q f assume q: "ks_envirs ?k q = Some f"
      show "unat (envir_count f) = card (envir_users ks q - {c})"
      proof (cases "q = ea")
        case True
        then have "smon_release_envir e = Some f" using q by (simp add: freed_def)
        from conjunct2 [OF rel(2) [OF this]] show ?thesis using True cu by simp
      next
        case False
        then have "c \<notin> envir_users ks q" using t ea by (auto simp: envir_users_def)
        then show ?thesis using q False c by (simp add: freed_def counts_ok_def)
      qed
    qed
    show "lists_ok ?k"
      using i ex unfolding kinv_def lists_ok_def same tl by (auto simp: ru)
    show "rings_ok ?k"
      unfolding rings_ok_def tl
    proof (intro conjI ballI impI)
      have l: "task_live ks c" using t by (simp add: task_live_def)
      show "links_ok ?k" by (rule freed_rings(1) [OF i l])
      fix a b assume ab: "a \<in> set (remove1 c (ks_task_list ks))" "b \<in> set (remove1 c (ks_task_list ks))"
        "b \<in> family ?k a"
      then have "b \<in> family ks a" using freed_rings(2) [OF i l] by blast
      moreover have "a \<in> set (ks_task_list ks)" "b \<in> set (ks_task_list ks)"
        using ab(1,2) set_remove1_subset by fast+
      ultimately show "b = a" using i by (simp add: kinv_def rings_ok_def)
    qed
    fix j assume "j \<in> set (ks_irq ?k)"
    then have j: "irq_item_ok ks j" "irq_addr j \<noteq> c" using i d by (auto simp: kinv_def same retired_def)
    then show "irq_item_ok ?k j"
      by (cases j) (simp_all add: live ex)
  qed
qed

end
