(* ===== verification/Kernel_Unregister.thy ===== *)
theory Kernel_Unregister
  imports Kernel_Family
begin

text \<open>
  Unregistering a task frees it and the whole ring of its descendants, and nothing else: no freed
  structure is reached again when every member of the family has exited.
\<close>

section \<open>Members of a ring\<close>

lemma ring_nodes:
  assumes "links_ok ks" and "ks_tasks ks c = Some t"
  shows "nx ks c = t_ch_next t" "pv ks c = t_ch_prev t" "task_live ks (nx ks c)" "task_live ks (pv ks c)"
    "pv ks (nx ks c) = c" "nx ks (pv ks c) = c"
proof -
  have r: "ring_ok (dom (ks_tasks ks)) (nx ks) (pv ks)" using assms(1) by (simp add: links_ring)
  have c: "c \<in> dom (ks_tasks ks)" using assms(2) by blast
  show "nx ks c = t_ch_next t" "pv ks c = t_ch_prev t" by (simp_all add: nx_def pv_def assms(2))
  show "task_live ks (nx ks c)" "task_live ks (pv ks c)" "pv ks (nx ks c) = c" "nx ks (pv ks c) = c"
    using r c by (auto simp: ring_ok_def task_live_def)
qed

lemma steps_del_conv:
  assumes r: "ring_ok D f g" and c: "c \<in> D" and "(x, b) \<in> (steps D f)\<^sup>*" and "x \<noteq> c"
    and S: "S = steps (D - {c}) (f(g c := f c))"
  shows "(x, if b = c then g c else b) \<in> S\<^sup>*"
  using assms(3)
proof (induction rule: rtrancl_induct)
  case base
  then show ?case using assms(4) by simp
next
  case (step b d)
  have bd: "b \<in> D" "d = f b" using step.hyps(2) by (auto simp: steps_def)
  have R: "\<And>y. y \<in> D \<Longrightarrow> f y \<in> D \<and> g (f y) = y \<and> g y \<in> D \<and> f (g y) = y"
    using r by (simp add: ring_ok_def)
  show ?case
  proof (cases "b = c")
    case True
    have IH: "(x, g c) \<in> S\<^sup>*" using step.IH unfolding if_P [OF True] .
    show ?thesis
    proof (cases "d = c")
      case False
      then have "(g c, d) \<in> S" using R [OF c] bd True by (auto simp: S steps_def)
      with IH False show ?thesis by (auto intro: rtrancl_into_rtrancl)
    next
      case True
      show ?thesis unfolding True if_P [OF refl] by (rule IH)
    qed
  next
    case False
    then have IH: "(x, b) \<in> S\<^sup>*" using step.IH by (simp only: if_False)
    show ?thesis
    proof (cases "b = g c")
      case True
      then show ?thesis using IH bd R [OF c] by simp
    next
      case b: False
      then have "d \<noteq> c" using R [OF bd(1)] bd(2) by auto
      moreover have "(b, d) \<in> S" using bd False b by (auto simp: S steps_def)
      ultimately show ?thesis using IH by (auto intro: rtrancl_into_rtrancl)
    qed
  qed
qed

lemma family_live:
  assumes "links_ok ks" and "task_live ks a" and "c \<in> family ks a"
  shows "task_live ks c"
  using assms(3) unfolding family_def mem_Collect_eq
proof (induction rule: rtrancl_induct)
  case (step b d)
  then show ?case using assms(1) by (auto simp: ring_step_def task_live_def links_ok_def)
qed (rule assms(2))

lemma freed_family:
  assumes i: "kinv ks" and c: "task_live ks c" and a: "task_live ks a" "a \<noteq> c"
  shows "family (freed ks c ea e') a = family ks a - {c}"
proof
  let ?k = "freed ks c ea e'"
  have l: "links_ok ks" using i by (simp add: kinv_def rings_ok_def)
  have r: "ring_ok (dom (ks_tasks ks)) (nx ks) (pv ks)" using l by (simp add: links_ring)
  have live: "task_live ?k x \<longleftrightarrow> x \<noteq> c \<and> task_live ks x" for x
    using unlink_live [of ks c x] by (simp add: task_live_def freed_def)
  have d: "dom (ks_tasks ?k) = dom (ks_tasks ks) - {c}"
    using live by (auto simp: task_live_def)
  have "task_live ?k x" if "x \<in> family ?k a" for x
    using family_live [OF freed_rings(1) [OF i c] _ that] live a by blast
  then show "family ?k a \<subseteq> family ks a - {c}"
    using freed_rings(2) [OF i c] live by blast
  have n: "nx ?k x = ((nx ks)(pv ks c := nx ks c)) x" if "x \<in> dom (ks_tasks ks) - {c}" for x
    using that by (auto simp: nx_def freed_def unlink_def)
  have s: "ring_step ?k = steps (dom (ks_tasks ks) - {c}) ((nx ks)(pv ks c := nx ks c))"
    unfolding ring_step_steps d by (rule steps_cong) (rule n)
  show "family ks a - {c} \<subseteq> family ?k a"
  proof
    fix b assume b: "b \<in> family ks a - {c}"
    have "c \<in> dom (ks_tasks ks)" using c by (auto simp: task_live_def)
    moreover have "(a, b) \<in> (steps (dom (ks_tasks ks)) (nx ks))\<^sup>*"
      using b by (simp add: family_def ring_step_steps)
    ultimately have "(a, if b = c then pv ks c else b) \<in> (ring_step ?k)\<^sup>*"
      using r a(2) s by (intro steps_del_conv)
    then show "b \<in> family ?k a" using b by (simp add: family_def)
  qed
qed

section \<open>One turn of the loop\<close>

lemma link_update_same [simp]:
  "t\<lparr>t_ch_next := t_ch_next t\<rparr> = t" "t\<lparr>t_ch_prev := t_ch_prev t\<rparr> = (t :: smon_task)"
  "t\<lparr>t_ch_next := t_ch_next t, t_ch_prev := v\<rparr> = t\<lparr>t_ch_prev := v\<rparr>"
  "t\<lparr>t_ch_next := w, t_ch_prev := t_ch_prev t\<rparr> = t\<lparr>t_ch_next := w\<rparr>"
  by (cases t; simp)+

lemma retired_task:
  assumes "kinv ks" and "retired ks c"
  obtains t ea e where "ks_tasks ks c = Some t" "t_p t = None" "t_rb t = None" "t_envir t = Some ea"
    "ks_envirs ks ea = Some e"
  using assms by (force simp: retired_def kinv_def task_ok_def)

lemma free_child:
  assumes i: "kinv ks" and c: "nx ks head = c" "c \<noteq> head" "task_live ks head" and d: "retired ks c"
    and nl: "c \<notin> set (ks_task_list ks)"
  obtains ea e where "t_envir (the (ks_tasks ks c)) = Some ea" "ks_envirs ks ea = Some e"
    "(children_del c ks \<bind> (\<lambda>ks. modify_task c (\<lambda>t. t\<lparr>t_timer := hrtimer_cancel (t_timer t)\<rparr>) ks \<bind>
       smon_destroy_task c)) = Some (freed ks c ea (smon_release_envir e))"
proof -
  from retired_task [OF i d] obtain t ea e where t: "ks_tasks ks c = Some t" "t_p t = None"
    "t_rb t = None" "t_envir t = Some ea" "ks_envirs ks ea = Some e" .
  have l: "links_ok ks" using i by (simp add: kinv_def rings_ok_def)
  note n = ring_nodes [OF l t(1)]
  from c(3) obtain h where h: "ks_tasks ks head = Some h" by (rule task_live_Some)
  note m = ring_nodes [OF l h]
  have pc: "pv ks c = head" using m(5) c(1) by simp
  have nc: "nx ks c \<noteq> c" using n(5) pc c(2) by auto
  from n(3) obtain u where u: "ks_tasks ks (nx ks c) = Some u" by (rule task_live_Some)
  define k1 where "k1 = put_task (nx ks c) (u\<lparr>t_ch_prev := head\<rparr>) ks"
  define h1 where "h1 = (if nx ks c = head then h\<lparr>t_ch_prev := head\<rparr> else h)"
  define k2 where "k2 = put_task head (h1\<lparr>t_ch_next := nx ks c\<rparr>) k1"
  have hu: "nx ks c = head \<Longrightarrow> u = h" using u h by simp
  have k1: "ks_tasks k1 head = Some h1" using h hu by (auto simp: k1_def put_task_def h1_def)
  have del: "children_del c ks = Some k2"
    using t(1) u k1 n(1,2) pc by (simp add: children_del_def modify_task_def k1_def [symmetric] k2_def)
      (simp add: k1_def)
  have tc: "ks_tasks k2 c = Some t" using t(1) nc c(2) by (simp add: k2_def k1_def put_task_def)
  have fin: "ks_tasks k2 x = unlink ks c x" if "x \<noteq> c" for x
    using that h u hu pc by (auto simp: k2_def k1_def h1_def put_task_def unlink_def option.map_ident)
  have e2: "ks_envirs k2 = ks_envirs ks" by (simp add: k2_def k1_def put_task_def)
  define k3 where "k3 = put_task c (t\<lparr>t_timer := hrtimer_cancel (t_timer t)\<rparr>) k2"
  have "smon_destroy_task c k3 = Some (k3\<lparr>ks_envirs := (ks_envirs ks)(ea := smon_release_envir e),
      ks_tasks := (ks_tasks k3)(c := None)\<rparr>)"
    using t(3-5) e2
    by (cases "t_extra t") (simp_all add: smon_destroy_task_def k3_def put_task_def release_envir_at_def
        smon_task_extra_destroy_def)
  moreover have "(ks_tasks k3)(c := None) = unlink ks c"
    using fin by (auto simp: k3_def put_task_def unlink_def)
  moreover have "remove1 c (ks_task_list ks) = ks_task_list ks" using nl by (simp add: remove1_idem)
  ultimately have "smon_destroy_task c k3 = Some (freed ks c ea (smon_release_envir e))"
    by (simp add: freed_def k3_def k2_def k1_def put_task_def)
  then show thesis
    using t by (intro that [of ea e]) (simp_all add: del modify_task_def tc k3_def)
qed

section \<open>The whole loop\<close>

lemma freed_simps [simp]:
  "ks_task_cpu (freed ks c ea e') = ks_task_cpu ks"
  "ks_irq (freed ks c ea e') = ks_irq ks" "ks_cpu_list (freed ks c ea e') = ks_cpu_list ks"
  "ks_wait_list (freed ks c ea e') = ks_wait_list ks" "ks_rbs (freed ks c ea e') = ks_rbs ks"
  "ks_task_list (freed ks c ea e') = remove1 c (ks_task_list ks)"
  "ks_tasks (freed ks c ea e') = unlink ks c"
  by (simp_all add: freed_def)

lemma freed_retired:
  assumes "retired ks x" and "x \<noteq> c"
  shows "retired (freed ks c ea e') x"
proof -
  from assms(1) obtain t where "ks_tasks ks x = Some t" "t_p t = None" by (auto simp: retired_def)
  with assms show ?thesis by (auto simp: retired_def elim: unlink_other)
qed

lemma freed_dom: "dom (unlink ks c) = dom (ks_tasks ks) - {c}"
  using unlink_live [of ks c] by (auto simp: task_live_def)

lemma freed_next:
  assumes "links_ok ks" and "nx ks head = c" and "c \<noteq> head" and "task_live ks head"
  shows "nx (freed ks c ea e') head = nx ks c"
proof -
  from assms(4) obtain h where h: "ks_tasks ks head = Some h" by (rule task_live_Some)
  have "pv ks c = head" using ring_nodes(5) [OF assms(1) h] assms(2) by simp
  then show ?thesis using assms(3) h by (simp add: nx_def unlink_def)
qed

text \<open>What is left when the ring of \<open>head\<close> has been walked.\<close>

definition only_head :: "kstate \<Rightarrow> addr \<Rightarrow> kstate \<Rightarrow> bool" where
  "only_head ks head ks' \<longleftrightarrow> kinv ks' \<and> nx ks' head = head \<and>
     dom (ks_tasks ks') = dom (ks_tasks ks) - (family ks head - {head}) \<and>
     (\<forall>x. x \<notin> family ks head \<longrightarrow> ks_tasks ks' x = ks_tasks ks x) \<and>
     ks_task_list ks' = ks_task_list ks \<and> ks_cpu_list ks' = ks_cpu_list ks \<and>
     ks_wait_list ks' = ks_wait_list ks \<and> ks_rbs ks' = ks_rbs ks \<and> ks_irq ks' = ks_irq ks \<and> ks_task_cpu ks' = ks_task_cpu ks \<and>
     map_option (\<lambda>t. (t_p t, t_envir t, t_extra t, t_rb t)) (ks_tasks ks' head) =
     map_option (\<lambda>t. (t_p t, t_envir t, t_extra t, t_rb t)) (ks_tasks ks head)"

lemma family_singleton:
  assumes "nx ks head = head"
  shows "family ks head = {head}"
proof -
  have "c = head" if "(head, c) \<in> (ring_step ks)\<^sup>*" for c
    using that by (induction rule: rtrancl_induct) (use assms in \<open>auto simp: ring_step_steps steps_def\<close>)
  then show ?thesis by (auto simp: family_def)
qed

lemma unregister_loop_spec:
  assumes "kinv ks" and "head \<in> set (ks_task_list ks)" and "\<forall>c \<in> family ks head - {head}. retired ks c"
  shows "\<exists>ks'. unregister_loop head (nx ks head) (nx ks (nx ks head)) ks = Some ks' \<and> only_head ks head ks'"
  using assms
proof (induction "card (dom (ks_tasks ks))" arbitrary: ks rule: less_induct)
  case less
  define c where "c = nx ks head"
  have i: "kinv ks" by (rule less.prems)
  have l: "links_ok ks" using i by (simp add: kinv_def rings_ok_def)
  have hl: "task_live ks head" using task_list_live [OF i less.prems(2)] .
  then obtain h where h: "ks_tasks ks head = Some h" by (rule task_live_Some)
  show ?case
  proof (cases "c = head")
    case True
    then have "only_head ks head ks"
      using i less.prems(3) family_singleton [of ks head] by (simp add: only_head_def c_def)
    then show ?thesis using True by (subst unregister_loop.simps) (simp add: c_def)
  next
    case False
    have cf: "c \<in> family ks head"
      using family_next [OF family_self h] ring_nodes(1) [OF l h] by (simp add: c_def)
    have nl: "c \<notin> set (ks_task_list ks)"
      using i less.prems(2) cf False by (auto simp: kinv_def rings_ok_def)
    have cr: "retired ks c" using less.prems(3) cf False by blast
    from free_child [OF i c_def [symmetric] False hl cr nl] obtain ea e where
      te: "t_envir (the (ks_tasks ks c)) = Some ea" "ks_envirs ks ea = Some e" and
      run: "(children_del c ks \<bind> (\<lambda>ks. modify_task c (\<lambda>t. t\<lparr>t_timer := hrtimer_cancel (t_timer t)\<rparr>) ks \<bind>
        smon_destroy_task c)) = Some (freed ks c ea (smon_release_envir e))" .
    define k where "k = freed ks c ea (smon_release_envir e)"
    from cr obtain t where t: "ks_tasks ks c = Some t" by (auto simp: retired_def)
    have cl: "task_live ks c" using t by (simp add: task_live_def)
    have ik: "kinv k"
      unfolding k_def by (rule freed_kinv [OF i t cr _ te(2)]) (use te(1) t in simp)
    have lk: "links_ok k" using ik by (simp add: kinv_def rings_ok_def)
    have nk: "nx k head = nx ks c" unfolding k_def using freed_next [OF l c_def [symmetric] False hl] .
    have fam: "family k head = family ks head - {c}"
      unfolding k_def using freed_family [OF i cl hl] False by simp
    have tl: "ks_task_list k = ks_task_list ks" using nl by (simp add: k_def remove1_idem)
    have out: "ks_tasks k x = ks_tasks ks x" if "x \<notin> family ks head" for x
    proof -
      have "pv ks c = head" using ring_nodes(5) [OF l h] by (simp add: c_def)
      moreover have "nx ks c \<in> family ks head" using family_next [OF cf t] ring_nodes(1) [OF l t] by simp
      ultimately have "x \<noteq> c" "x \<noteq> pv ks c" "x \<noteq> nx ks c" using that cf by auto
      then show ?thesis by (simp add: k_def unlink_def option.map_ident)
    qed
    have dk: "dom (ks_tasks k) = dom (ks_tasks ks) - {c}" by (simp add: k_def freed_dom)
    have fin: "finite (dom (ks_tasks ks))" using i by (simp add: kinv_def counts_ok_def)
    have "card (dom (ks_tasks k)) < card (dom (ks_tasks ks))"
      unfolding dk using t fin by (intro card_Diff1_less) auto
    moreover have "\<forall>x \<in> family k head - {head}. retired k x"
      using less.prems(3) unfolding fam by (auto simp: k_def intro: freed_retired)
    ultimately obtain ks' where ks': "unregister_loop head (nx k head) (nx k (nx k head)) k = Some ks'"
      "only_head k head ks'" using less.hyps [OF _ ik] less.prems(2) tl by auto
    have hk: "task_live k head" using task_list_live [OF ik] less.prems(2) tl by simp
    then obtain hk' where hk': "ks_tasks k head = Some hk'" by (rule task_live_Some)
    from ring_nodes(3) [OF lk hk'] obtain n where n: "ks_tasks k (nx k head) = Some n" by (rule task_live_Some)
    then have tmp: "t_ch_next n = nx k (nx k head)" by (simp add: nx_def)
    have "unregister_loop head c (nx ks c) ks = unregister_loop head (nx k head) (nx k (nx k head)) k"
      using run n tmp False unfolding nk
      by (subst unregister_loop.simps) (auto simp: bind_eq_Some_conv k_def [symmetric])
    moreover have "map_option (\<lambda>t. (t_p t, t_envir t, t_extra t, t_rb t)) (ks_tasks k head) =
        map_option (\<lambda>t. (t_p t, t_envir t, t_extra t, t_rb t)) (ks_tasks ks head)"
      using h False by (simp add: k_def unlink_def)
    then have "only_head ks head ks'"
      using ks'(2) tl False cf out unfolding only_head_def dk fam by (auto simp: k_def)
    ultimately show ?thesis using ks'(1) by (auto simp: c_def)
  qed
qed

section \<open>Unregistering\<close>

lemma sim_retired: "sim ks ks' \<Longrightarrow> ks_irq ks' = ks_irq ks \<Longrightarrow> retired ks c \<Longrightarrow> retired ks' c"
  unfolding retired_def by (metis sim_task' skel_simps(1))

text \<open>
  The ring of \<open>a\<close> is emptied when the descendants have exited, whether the task itself still runs or not.
\<close>

lemma unregister_ring_spec:
  assumes i: "kinv ks" and a: "a \<in> set (ks_task_list ks)" and d: "\<forall>c \<in> family ks a - {a}. retired ks c"
    and t: "ks_tasks ks a = Some t"
  obtains k1 k2 u where "modify_task a (\<lambda>t. t\<lparr>t_timer := hrtimer_cancel (t_timer t)\<rparr>) ks = Some k1"
    "smon_sched_unregister_children a k1 = Some k2" "kinv k2" "ks_tasks k2 a = Some u"
    "t_p u = t_p t" "t_rb u = t_rb t" "t_envir u = t_envir t" "t_extra u = t_extra t"
    "unlink k2 a = (ks_tasks k2)(a := None)" "ks_task_list k2 = ks_task_list ks" "ks_rbs k2 = ks_rbs ks"
    "ks_cpu_list k2 = ks_cpu_list ks" "ks_wait_list k2 = ks_wait_list ks" "ks_irq k2 = ks_irq ks" "ks_task_cpu k2 = ks_task_cpu ks"
    "dom (ks_tasks k2) = dom (ks_tasks ks) - (family ks a - {a})"
    "\<forall>x. x \<notin> family ks a \<longrightarrow> ks_tasks k2 x = ks_tasks ks x"
    "list_del (task_live k2) a (ks_task_list k2) = Some (remove1 a (ks_task_list ks))"
proof -
  define k1 where "k1 = put_task a (t\<lparr>t_timer := hrtimer_cancel (t_timer t)\<rparr>) ks"
  have s: "sim ks k1" unfolding k1_def by (rule sim_put_task [OF t]) simp
  have i1: "kinv k1" by (rule sim_kinv [OF i s])
  have q1: "ks_irq k1 = ks_irq ks" "ks_task_list k1 = ks_task_list ks" "ks_rbs k1 = ks_rbs ks"
    "ks_cpu_list k1 = ks_cpu_list ks" "ks_wait_list k1 = ks_wait_list ks" "ks_task_cpu k1 = ks_task_cpu ks"
    "x \<noteq> a \<Longrightarrow> ks_tasks k1 x = ks_tasks ks x" for x
    by (simp_all add: k1_def put_task_def)
  have t1: "ks_tasks k1 a = Some (t\<lparr>t_timer := hrtimer_cancel (t_timer t)\<rparr>)" by (simp add: k1_def put_task_def)
  have m: "modify_task a (\<lambda>t. t\<lparr>t_timer := hrtimer_cancel (t_timer t)\<rparr>) ks = Some k1"
    by (simp add: modify_task_def t k1_def)
  have "\<forall>c \<in> family k1 a - {a}. retired k1 c"
    using d sim_retired [OF s q1(1)] by (simp add: sim_family [OF s])
  with unregister_loop_spec [OF i1, of a] a q1(2) obtain k2 where
    k2: "unregister_loop a (nx k1 a) (nx k1 (nx k1 a)) k1 = Some k2" "only_head k1 a k2" by auto
  have i2: "kinv k2" and l2: "links_ok k2" and n2: "nx k2 a = a"
    and o2: "ks_task_list k2 = ks_task_list ks" "ks_rbs k2 = ks_rbs ks"
    "ks_cpu_list k2 = ks_cpu_list ks" "ks_wait_list k2 = ks_wait_list ks" "ks_irq k2 = ks_irq ks" "ks_task_cpu k2 = ks_task_cpu ks"
    "dom (ks_tasks k2) = dom (ks_tasks ks) - (family ks a - {a})"
    using k2(2) q1(1-6) sim_users(3) [OF s] sim_family [OF s]
    by (simp_all add: only_head_def kinv_def rings_ok_def)
  obtain u where u: "ks_tasks k2 a = Some u" "t_p u = t_p t" "t_rb u = t_rb t" "t_envir u = t_envir t"
    "t_extra u = t_extra t"
    using k2(2) t1 by (auto simp: only_head_def)
  have p2: "pv k2 a = a" using ring_nodes(5) [OF l2 u(1)] n2 by simp
  have un: "unlink k2 a = (ks_tasks k2)(a := None)"
    by (auto simp: unlink_def fun_eq_iff n2 p2 option.map_ident)
  have loop: "smon_sched_unregister_children a k1 = Some k2"
  proof -
    have l1: "links_ok k1" using i1 by (simp add: kinv_def rings_ok_def)
    from ring_nodes [OF l1 t1] have "nx k1 a = t_ch_next t" "task_live k1 (t_ch_next t)" by simp_all
    then obtain c where "ks_tasks k1 (t_ch_next t) = Some c" "nx k1 a = t_ch_next t"
      by (auto elim: task_live_Some)
    then show ?thesis using k2(1) t1 by (simp add: smon_sched_unregister_children_def nx_def)
  qed
  have tl: "list_del (task_live k2) a (ks_task_list k2) = Some (remove1 a (ks_task_list ks))"
    using task_list_live [OF i2] list_del_live [of "ks_task_list k2" "task_live k2" a] by (simp add: o2)
  have out: "\<forall>x. x \<notin> family ks a \<longrightarrow> ks_tasks k2 x = ks_tasks ks x"
  proof (intro allI impI)
    fix x assume x: "x \<notin> family ks a"
    then have "x \<noteq> a" by auto
    moreover have "ks_tasks k2 x = ks_tasks k1 x" using k2(2) x sim_family [OF s] by (simp add: only_head_def)
    ultimately show "ks_tasks k2 x = ks_tasks ks x" using q1(7) by simp
  qed
  show thesis by (rule that [OF m loop i2 u un o2 out tl])
qed

lemma unregister_at_spec:
  assumes i: "kinv ks" and a: "a \<in> set (ks_task_list ks)" and d: "\<forall>c \<in> family ks a. retired ks c"
  obtains ks' where "unregister_at a ks = Some ks'" "kinv ks'"
    "dom (ks_tasks ks') = dom (ks_tasks ks) - family ks a" "ks_task_list ks' = remove1 a (ks_task_list ks)"
    "ks_rbs ks' = ks_rbs ks" "\<forall>x. x \<notin> family ks a \<longrightarrow> ks_tasks ks' x = ks_tasks ks x"
    "ks_cpu_list ks' = ks_cpu_list ks" "ks_wait_list ks' = ks_wait_list ks"
proof -
  from task_list_live [OF i a] obtain t where t: "ks_tasks ks a = Some t" by (rule task_live_Some)
  have x: "t_extra t \<noteq> None" using lists_okD(2) [OF i a] t by (simp add: has_extra_def)
  have ra: "retired ks a" using d family_self by blast
  then have tp: "t_p t = None" using t by (auto simp: retired_def)
  obtain k1 k2 u where m: "modify_task a (\<lambda>t. t\<lparr>t_timer := hrtimer_cancel (t_timer t)\<rparr>) ks = Some k1"
    and loop: "smon_sched_unregister_children a k1 = Some k2" and i2: "kinv k2" and u: "ks_tasks k2 a = Some u"
    "t_p u = t_p t" and xu: "t_extra u = t_extra t" and un: "unlink k2 a = (ks_tasks k2)(a := None)"
    and o2: "ks_task_list k2 = ks_task_list ks" "ks_rbs k2 = ks_rbs ks"
    "ks_cpu_list k2 = ks_cpu_list ks" "ks_wait_list k2 = ks_wait_list ks" "ks_irq k2 = ks_irq ks" "ks_task_cpu k2 = ks_task_cpu ks"
    "dom (ks_tasks k2) = dom (ks_tasks ks) - (family ks a - {a})"
    and out: "\<forall>x. x \<notin> family ks a \<longrightarrow> ks_tasks k2 x = ks_tasks ks x"
    and tl: "list_del (task_live k2) a (ks_task_list k2) = Some (remove1 a (ks_task_list ks))"
    by (rule unregister_ring_spec [OF i a _ t]) (use d in blast)+
  have r2: "retired k2 a" using ra u tp o2(5) by (simp add: retired_def)
  obtain ea e where ue: "t_rb u = None" "t_envir u = Some ea" "ks_envirs k2 ea = Some e"
    by (rule retired_task [OF i2 r2]) (use u(1) in auto)
  from x xu obtain xd where xd: "t_extra u = Some xd" by auto
  define k where "k = freed k2 a ea (smon_release_envir e)"
  have "unregister_at a ks = Some k"
  proof -
    have "smon_destroy_task a (k2\<lparr>ks_task_list := remove1 a (ks_task_list ks)\<rparr>) = Some k"
      "smon_destroy_task a (put_task a (u\<lparr>t_extra := Some y\<rparr>) (k2\<lparr>ks_task_list := remove1 a (ks_task_list ks)\<rparr>)) = Some k"
      for y
      using u ue xd by (simp_all add: smon_destroy_task_def release_envir_at_def smon_task_extra_destroy_def
          k_def freed_def un o2 put_task_def)
    then show ?thesis
      using u ue xd by (simp add: unregister_at_def del_from_tasks_def Let_def m loop tl task_envir_def smon_task_extra_rapl_stop_def)
  qed
  moreover have "kinv k" unfolding k_def by (rule freed_kinv [OF i2 u(1) r2 ue(2,3)])
  moreover have "dom (ks_tasks k) = dom (ks_tasks ks) - family ks a"
    by (auto simp: k_def freed_dom o2)
  moreover have "ks_task_list k = remove1 a (ks_task_list ks)" "ks_rbs k = ks_rbs ks"
    by (simp_all add: k_def o2)
  moreover have "\<forall>x. x \<notin> family ks a \<longrightarrow> ks_tasks k x = ks_tasks ks x"
    using out family_self by (auto simp: k_def un)
  moreover have "ks_cpu_list k = ks_cpu_list ks" "ks_wait_list k = ks_wait_list ks"
    by (simp_all add: k_def o2)
  ultimately show thesis by (rule that)
qed

section \<open>A task that still runs\<close>

lemma find_entry_freed:
  assumes "find_entry P ks xs = Some (Some a)" and "\<forall>x \<in> set xs. x \<noteq> a \<longrightarrow> ks_tasks ks' x = ks_tasks ks x"
    and "ks_tasks ks' a = None"
  shows "find_entry P ks' xs = None"
  using assms
proof (induction xs)
  case (Cons b bs)
  show ?case
  proof (cases "b = a")
    case False
    with Cons show ?thesis by (auto simp: bind_eq_Some_conv split: if_splits)
  qed (use Cons in simp)
qed simp

text \<open>
  The task is freed, but nothing takes it off the list of its processor: the search of that list for its
  process runs into the freed structure.
\<close>

lemma unregister_running_spec:
  assumes i: "kinv ks" and a: "a \<in> set (ks_task_list ks)" and d: "\<forall>c \<in> family ks a - {a}. retired ks c"
    and f: "find_entry (\<lambda>t. t_p t = Some p) ks (ks_cpu_list ks c) = Some (Some a)"
  obtains ks' where "unregister_at a ks = Some ks'" "ks_tasks ks' a = None" "ks_cpu_list ks' = ks_cpu_list ks"
    "ks_task_cpu ks' = ks_task_cpu ks" "find_entry (\<lambda>t. t_p t = Some p) ks' (ks_cpu_list ks c) = None"
proof -
  from find_entry_Some [OF f] obtain t where al: "a \<in> set (ks_cpu_list ks c)" and t: "ks_tasks ks a = Some t" "t_p t = Some p"
    by auto
  have x: "t_extra t \<noteq> None" using lists_okD(2) [OF i a] t by (simp add: has_extra_def)
  obtain k1 k2 u where m: "modify_task a (\<lambda>t. t\<lparr>t_timer := hrtimer_cancel (t_timer t)\<rparr>) ks = Some k1"
    and loop: "smon_sched_unregister_children a k1 = Some k2" and i2: "kinv k2" and u: "ks_tasks k2 a = Some u"
    "t_p u = t_p t" and xu: "t_extra u = t_extra t"
    and o2: "ks_task_list k2 = ks_task_list ks" "ks_cpu_list k2 = ks_cpu_list ks" "ks_task_cpu k2 = ks_task_cpu ks"
    and out: "\<forall>x. x \<notin> family ks a \<longrightarrow> ks_tasks k2 x = ks_tasks ks x"
    and tl: "list_del (task_live k2) a (ks_task_list k2) = Some (remove1 a (ks_task_list ks))"
    by (rule unregister_ring_spec [OF i a d t(1)])
  from kinvD [OF i2 u(1)] obtain ea e where e: "t_envir u = Some ea" "ks_envirs k2 ea = Some e" "task_envir u k2 = Some e"
    by metis
  have "task_ok k2 u" using i2 u(1) by (auto simp: kinv_def)
  then have "t_rb u \<noteq> None" using u(2) t(2) by (simp add: task_ok_def)
  then obtain r where r: "t_rb u = Some r" by auto
  with task_rb_live [OF i2 u(1)] obtain rb where rb: "ks_rbs k2 r = Some rb" by auto
  then have "rb_safe rb" using i2 by (auto simp: kinv_def)
  then obtain rb' where rel: "smon_release_rb rb = Some rb'" by (rule release_safe)
  from x xu obtain xd where xd: "t_extra u = Some xd" by auto
  define k where "k = k2\<lparr>ks_tasks := (ks_tasks k2)(a := None), ks_rbs := (ks_rbs k2)(r \<mapsto> rb'),
    ks_envirs := (ks_envirs k2)(ea := smon_release_envir e), ks_task_list := remove1 a (ks_task_list ks)\<rparr>"
  have des: "smon_destroy_task a (k2\<lparr>ks_task_list := remove1 a (ks_task_list ks)\<rparr>) = Some k"
    "smon_destroy_task a (put_task a (u\<lparr>t_extra := Some y\<rparr>) (k2\<lparr>ks_task_list := remove1 a (ks_task_list ks)\<rparr>)) = Some k" for y
    using u e r rb rel xd by (simp_all add: smon_destroy_task_def release_rb_at_def release_envir_at_def
        smon_task_extra_destroy_def k_def put_task_def put_rb_def)
  have "unregister_at a ks = Some k"
    using u e xd des
    by (simp add: unregister_at_def del_from_tasks_def Let_def m loop tl task_envir_def smon_task_extra_rapl_stop_def)
  moreover have "find_entry (\<lambda>t. t_p t = Some p) k (ks_cpu_list ks c) = None"
  proof (rule find_entry_freed [OF f])
    show "\<forall>x \<in> set (ks_cpu_list ks c). x \<noteq> a \<longrightarrow> ks_tasks k x = ks_tasks ks x"
    proof (intro ballI impI)
      fix x assume x: "x \<in> set (ks_cpu_list ks c)" "x \<noteq> a"
      then have "runnable ks x" using lists_okD(6) [OF i] by blast
      then have "\<not> retired ks x" by (auto simp: runnable_def retired_def)
      then have "x \<notin> family ks a" using d x(2) by blast
      then show "ks_tasks k x = ks_tasks ks x" using out x(2) by (simp add: k_def)
    qed
  qed (simp add: k_def)
  ultimately show thesis by (intro that [of k]) (simp_all add: k_def o2)
qed

end
