(* ===== verification/Kernel_Register.thy ===== *)
theory Kernel_Register
  imports Kernel_Unregister
begin

text \<open>
  Registering a task and a forked child: a fresh structure enters the heap, takes a reference to a
  buffer and to an environment, and is linked into the ring of its parent.
\<close>

section \<open>A fresh task\<close>

definition inserted ::
  "kstate \<Rightarrow> addr \<Rightarrow> smon_task \<Rightarrow> addr \<Rightarrow> smon_ring_buffer \<Rightarrow> addr \<Rightarrow> smon_envir \<Rightarrow> kstate" where
  "inserted ks a t r rb ea e = ks\<lparr>ks_tasks := (ks_tasks ks)(a \<mapsto> t), ks_rbs := (ks_rbs ks)(r \<mapsto> rb),
     ks_envirs := (ks_envirs ks)(ea \<mapsto> e)\<rparr>"

text \<open>The kernel's allocator never hands out an address twice, and memory bounds the tasks.\<close>

definition fresh_task :: "kstate \<Rightarrow> addr \<Rightarrow> bool" where
  "fresh_task ks a \<longleftrightarrow> ks_tasks ks a = None \<and> card (dom (ks_tasks ks)) + 1 < 2 ^ 31"

lemma inserted_simps [simp]:
  "ks_tasks (inserted ks a t r rb ea e) = (ks_tasks ks)(a \<mapsto> t)"
  "ks_rbs (inserted ks a t r rb ea e) = (ks_rbs ks)(r \<mapsto> rb)"
  "ks_envirs (inserted ks a t r rb ea e) = (ks_envirs ks)(ea \<mapsto> e)"
  "ks_evsets (inserted ks a t r rb ea e) = ks_evsets ks"
  "ks_events (inserted ks a t r rb ea e) = ks_events ks"
  "ks_task_list (inserted ks a t r rb ea e) = ks_task_list ks"
  "ks_cpu_list (inserted ks a t r rb ea e) = ks_cpu_list ks"
  "ks_wait_list (inserted ks a t r rb ea e) = ks_wait_list ks"
  "ks_irq (inserted ks a t r rb ea e) = ks_irq ks"
  "ks_pid (inserted ks a t r rb ea e) = ks_pid ks"
  "ks_task_cpu (inserted ks a t r rb ea e) = ks_task_cpu ks"
  by (simp_all add: inserted_def)

lemma inserted_users:
  assumes "ks_tasks ks a = None" and "t_rb t = Some r" and "t_envir t = Some ea"
  shows "rb_users (inserted ks a t r rb ea e) q = (if q = r then insert a (rb_users ks q) else rb_users ks q)"
    "envir_users (inserted ks a t r rb ea e) q = (if q = ea then insert a (envir_users ks q) else envir_users ks q)"
    "a \<notin> rb_users ks q" "a \<notin> envir_users ks q"
  using assms by (auto simp: rb_users_def envir_users_def)

lemma fresh_unlisted:
  assumes "kinv ks" and "ks_tasks ks a = None"
  shows "unlisted ks a" "a \<notin> set (ks_task_list ks)"
  using task_list_live [OF assms(1), of a] lists_okD(4,6) [OF assms(1), of a] assms(2)
  by (auto simp: unlisted_def runnable_def task_live_def)

lemma inserted_rings:
  assumes i: "kinv ks" and a: "ks_tasks ks a = None" and l: "t_ch_next t = a" "t_ch_prev t = a"
  shows "rings_ok (inserted ks a t r rb ea e)"
proof -
  let ?k = "inserted ks a t r rb ea e"
  have lk: "links_ok ks" using i by (simp add: kinv_def rings_ok_def)
  have n: "ks_tasks ks c = Some u \<Longrightarrow> t_ch_next u \<noteq> a \<and> t_ch_prev u \<noteq> a" for c u
    using lk a unfolding links_ok_def by force
  have "links_ok ?k"
    using lk l n by (auto simp: links_ok_def)
  moreover have "b \<in> family ks x" if "x \<in> set (ks_task_list ks)" "b \<in> family ?k x" for b x
  proof -
    have xa: "x \<noteq> a" using that(1) fresh_unlisted(2) [OF i a] by blast
    have "(x, b) \<in> (ring_step ks)\<^sup>* \<and> b \<noteq> a"
      using that(2) unfolding family_def mem_Collect_eq
    proof (induction rule: rtrancl_induct)
      case (step c d)
      then have "(c, d) \<in> ring_step ks" by (auto simp: ring_step_def)
      moreover from this have "d \<noteq> a" using n by (auto simp: ring_step_def)
      ultimately show ?case using step.IH by (auto intro: rtrancl_into_rtrancl)
    qed (use xa in simp)
    then show ?thesis by (simp add: family_def)
  qed
  ultimately show ?thesis using i by (auto simp: kinv_def rings_ok_def)
qed

text \<open>The new reference to an environment: the first one to a copy, or one more.\<close>

definition envir_ref :: "kstate \<Rightarrow> addr \<Rightarrow> smon_envir \<Rightarrow> bool" where
  "envir_ref ks ea e' \<longleftrightarrow>
     (case ks_envirs ks ea of None \<Rightarrow> envir_count e' = 1 | Some e \<Rightarrow> e' = smon_get_envir e)"

lemma inserted_counts:
  assumes i: "kinv ks" and a: "fresh_task ks a" and t: "t_rb t = Some r" "t_envir t = Some ea"
    and rb: "ks_rbs ks r = Some b" "rb_active b' = rb_active b + 1"
    and e: "envir_ref ks ea e'"
  shows "counts_ok (inserted ks a t r b' ea e')"
proof -
  have n: "ks_tasks ks a = None" "card (dom (ks_tasks ks)) + 1 < 2 ^ 31" using a by (simp_all add: fresh_task_def)
  have c: "counts_ok ks" using i by (simp add: kinv_def)
  note u = counts_users [OF c] and v = inserted_users [OF n(1) t]
  have d: "a \<notin> dom (ks_tasks ks)" using n(1) by blast
  have rc: "unat (rb_active b') = card (insert a (rb_users ks r))"
  proof -
    have "unat (rb_active b) = card (rb_users ks r)" using c rb(1) by (simp add: counts_ok_def)
    then show ?thesis using u(1,2) [of r] n(2) v(3) [of r] by (simp add: rb(2) unat_inc)
  qed
  have ec: "unat (envir_count e') = card (insert a (envir_users ks ea))"
  proof (cases "ks_envirs ks ea")
    case None
    then have "envir_users ks ea = {}"
      using i by (force simp: envir_users_def kinv_def task_ok_def)
    then show ?thesis using e None by (simp add: envir_ref_def)
  next
    case (Some e0)
    then have "unat (envir_count e0) = card (envir_users ks ea)" using c by (simp add: counts_ok_def)
    then show ?thesis
      using u(3,4) [of ea] n(2) v(4) [of ea] e Some by (simp add: envir_ref_def smon_get_envir_def unat_inc)
  qed
  show ?thesis
    unfolding counts_ok_def v(1,2)
    using c rc ec u(5) d n(2) by (auto simp: counts_ok_def)
qed

lemma inserted_kinv:
  assumes i: "kinv ks" and a: "fresh_task ks a" and l: "t_ch_next t = a" "t_ch_prev t = a"
    and t: "t_rb t = Some r" "t_envir t = Some ea" "t_p t \<noteq> None"
    and x: "\<And>x. t_extra t = Some x \<Longrightarrow> x_rb x = Some r"
    and rb: "ks_rbs ks r = Some b" "rb_safe b \<Longrightarrow> rb_safe b'" "rb_active b' = rb_active b + 1"
    and e: "envir_ref ks ea e'" "envir_wf e'" "envir_refs_ok (ks_evsets ks) e'" "task_local e' t"
  shows "kinv (inserted ks a t r b' ea e')"
proof -
  let ?k = "inserted ks a t r b' ea e'"
  have n: "ks_tasks ks a = None" using a by (simp add: fresh_task_def)
  have rbs: "ks_rbs ks q \<noteq> None \<Longrightarrow> ks_rbs ?k q \<noteq> None" for q by simp
  have old: "task_ok ?k v" if "task_ok ks v" for v
  proof -
    from that obtain eb f where f: "t_envir v = Some eb" "ks_envirs ks eb = Some f" "envir_wf f"
      "envir_refs_ok (ks_evsets ks) f" "task_local f v" by (auto simp: task_ok_def)
    have "\<exists>f'. ks_envirs ?k eb = Some f' \<and> envir_wf f' \<and> envir_refs_ok (ks_evsets ks) f' \<and> task_local f' v"
      using f e(1) by (cases "eb = ea")
        (auto simp: envir_ref_def smon_get_envir_def envir_wf_def envir_refs_ok_def task_local_def)
    moreover have "\<forall>x. t_extra v = Some x \<longrightarrow> (\<exists>q. x_rb x = Some q \<and> ks_rbs ?k q \<noteq> None)"
      using that rbs unfolding task_ok_def by metis
    ultimately show ?thesis using that f(1) rbs unfolding task_ok_def inserted_simps(4) by metis
  qed
  have new: "task_ok ?k t"
    using t e(2-4) x by (auto simp: task_ok_def)
  have ru: "runnable ks y \<Longrightarrow> runnable ?k y" "task_live ks y \<Longrightarrow> task_live ?k y"
    "has_extra ks y \<Longrightarrow> has_extra ?k y" for y
    using n by (auto simp: runnable_def task_live_def has_extra_def)
  show ?thesis
    unfolding kinv_def
  proof (intro conjI allI impI ballI)
    show "cfg_ok ?k" using i by (simp add: kinv_def cfg_ok_def)
    show "task_ok ?k v" if "ks_tasks ?k y = Some v" for y v
      using that old new i by (auto simp: kinv_def split: if_splits)
    show "rb_safe c" if "ks_rbs ?k q = Some c" for q c
      using that i rb(1,2) by (auto simp: kinv_def split: if_splits)
    show "counts_ok ?k" by (rule inserted_counts [OF i a t(1,2) rb(1,3) e(1)])
    show "lists_ok ?k" using i ru by (simp add: kinv_def lists_ok_def)
    show "rings_ok ?k" by (rule inserted_rings [OF i n l])
    fix j assume "j \<in> set (ks_irq ?k)"
    then have "irq_item_ok ks j" using i by (simp add: kinv_def)
    then show "irq_item_ok ?k j" using ru n by (cases j) auto
  qed
qed

section \<open>Linking into a ring\<close>

text \<open>Two states that differ in the links only.\<close>

definition relinked :: "kstate \<Rightarrow> kstate \<Rightarrow> bool" where
  "relinked ks ks' \<longleftrightarrow>
     (\<exists>f. (\<forall>x. ks_tasks ks' x = map_option (\<lambda>t. t\<lparr>t_ch_next := fst (f x), t_ch_prev := snd (f x)\<rparr>) (ks_tasks ks x)) \<and>
          ks' = ks\<lparr>ks_tasks := ks_tasks ks'\<rparr>)"

lemma relinked_kinv:
  assumes "kinv ks" and "relinked ks ks'" and "rings_ok ks'"
  shows "kinv ks'"
proof -
  from assms(2) obtain f where f: "\<And>x. ks_tasks ks' x =
      map_option (\<lambda>t. t\<lparr>t_ch_next := fst (f x), t_ch_prev := snd (f x)\<rparr>) (ks_tasks ks x)"
    and k: "ks' = ks\<lparr>ks_tasks := ks_tasks ks'\<rparr>" unfolding relinked_def by blast
  have same: "ks_evsets ks' = ks_evsets ks" "ks_envirs ks' = ks_envirs ks" "ks_rbs ks' = ks_rbs ks"
    "ks_events ks' = ks_events ks" "ks_task_list ks' = ks_task_list ks" "ks_cpu_list ks' = ks_cpu_list ks"
    "ks_wait_list ks' = ks_wait_list ks" "ks_irq ks' = ks_irq ks"
    by (subst k, simp)+
  have "rb_users ks' = rb_users ks" "envir_users ks' = envir_users ks" "dom (ks_tasks ks') = dom (ks_tasks ks)"
    "runnable ks' = runnable ks" "task_live ks' = task_live ks" "has_extra ks' = has_extra ks"
    by (auto simp: rb_users_def envir_users_def f runnable_def task_live_def has_extra_def fun_eq_iff)
  note u = this
  have ir: "irq_item_ok ks' i = irq_item_ok ks i" for i
    by (cases i) (auto simp: u f)
  have ok: "task_ok ks' (t\<lparr>t_ch_next := v, t_ch_prev := w\<rparr>) = task_ok ks t" for t v w
    by (simp add: task_ok_def same task_local_def)
  show ?thesis
    using assms(1,3) unfolding kinv_def lists_ok_def counts_ok_def cfg_ok_def ir
    by (auto simp: same u f ok)
qed

lemma add_child_kinv:
  assumes i: "kinv ks" and a: "task_live ks a" "nx ks a = a" and h: "task_live ks h" "a \<noteq> h"
    and nl: "a \<notin> set (ks_task_list ks)"
  obtains ks' where "children_add a h ks = Some ks'" "kinv ks'" "relinked ks ks'"
proof -
  from a(1) obtain t where t: "ks_tasks ks a = Some t" by (rule task_live_Some)
  from h(1) obtain u where u: "ks_tasks ks h = Some u" by (rule task_live_Some)
  have l: "links_ok ks" using i by (simp add: kinv_def rings_ok_def)
  note ra = ring_nodes [OF l t] and rh = ring_nodes [OF l u]
  have pa: "pv ks a = a" using ra(5) a(2) by simp
  have na: "nx ks h \<noteq> a" using rh(5) pa h(2) by auto
  from rh(3) obtain n where n: "ks_tasks ks (nx ks h) = Some n" by (rule task_live_Some)
  have nu: "nx ks h = h \<Longrightarrow> n = u" using n u by simp
  define f where "f = (nx ks)(a := nx ks h, h := a)"
  define g where "g = (pv ks)(nx ks h := a, a := h)"
  define T where "T = (\<lambda>x. map_option (\<lambda>t. t\<lparr>t_ch_next := f x, t_ch_prev := g x\<rparr>) (ks_tasks ks x))"
  define k where "k = ks\<lparr>ks_tasks := T\<rparr>"
  have kn: "nx k x = f x" "pv k x = g x" if "x \<in> dom (ks_tasks ks)" for x
    using that by (auto simp: nx_def pv_def k_def T_def)
  have D: "dom (ks_tasks k) = dom (ks_tasks ks)" by (auto simp: k_def T_def)
  have ad: "a \<in> dom (ks_tasks ks)" and hd: "h \<in> dom (ks_tasks ks)" using t u by blast+
  have R: "ring_ok (dom (ks_tasks ks)) (nx ks) (pv ks)" using l by (simp add: links_ring)
  have "ring_ok (dom (ks_tasks ks)) f g"
    unfolding f_def g_def by (rule ring_ok_add [OF R ad hd h(2) a(2)])
  then have lk: "links_ok k" unfolding links_ring D ring_ok_def using kn by metis
  have only: "b = a" if "b \<in> dom (ks_tasks ks)" "nx ks b = a" for b
    using that R pa unfolding ring_ok_def by metis
  have fam: "b \<in> family ks x" if "b \<in> family k x" "x \<noteq> a" "b \<noteq> a" for b x
  proof -
    have "ring_step k = steps (dom (ks_tasks ks)) f"
      unfolding ring_step_steps D by (rule steps_cong) (rule kn(1))
    with that(1) have "(x, b) \<in> (steps (dom (ks_tasks ks)) ((nx ks)(a := nx ks h, h := a)))\<^sup>*"
      by (simp add: family_def f_def)
    from steps_add [OF this that(2) hd only] that(3) show ?thesis by (simp add: family_def ring_step_steps)
  qed
  have tl: "ks_task_list k = ks_task_list ks" by (simp add: k_def)
  have "rings_ok k"
    unfolding rings_ok_def tl
  proof (intro conjI ballI impI lk)
    fix x b assume xb: "x \<in> set (ks_task_list ks)" "b \<in> set (ks_task_list ks)" "b \<in> family k x"
    then have "b \<in> family ks x" using nl by (intro fam) auto
    then show "b = x" using i xb(1,2) by (simp add: kinv_def rings_ok_def)
  qed
  moreover have rl: "relinked ks k"
    unfolding relinked_def by (rule exI [of _ "\<lambda>x. (f x, g x)"]) (simp add: k_def T_def)
  ultimately have "kinv k" using relinked_kinv [OF i] by blast
  moreover have "children_add a h ks = Some k"
  proof -
    define n1 where "n1 = n\<lparr>t_ch_prev := a\<rparr>"
    define k1 where "k1 = put_task (nx ks h) n1 ks"
    define k2 where "k2 = put_task a (t\<lparr>t_ch_next := nx ks h, t_ch_prev := h\<rparr>) k1"
    define u2 where "u2 = (if nx ks h = h then n1 else u)"
    have k1a: "ks_tasks k1 a = Some t" using t na by (simp add: k1_def put_task_def)
    have k2h: "ks_tasks k2 h = Some u2" using u h(2) by (simp add: k2_def k1_def put_task_def u2_def)
    have s: "t_ch_next t' = nx ks x \<and> t_ch_prev t' = pv ks x" if "ks_tasks ks x = Some t'" for x t'
      using that by (simp add: nx_def pv_def)
    have "ks_tasks (put_task h (u2\<lparr>t_ch_next := a\<rparr>) k2) x = T x" for x
    proof (cases "x = h \<or> x = a \<or> x = nx ks h")
      case True
      then show ?thesis
        using t u n na h(2) nu s [OF u] s [OF n]
        by (cases u; cases n) (auto simp: put_task_def k2_def k1_def T_def f_def g_def u2_def n1_def)
    next
      case False
      then show ?thesis
        using s [of x] by (cases "ks_tasks ks x") (auto simp: put_task_def k2_def k1_def T_def f_def g_def
          smon_task.equality)
    qed
    then have "ks_tasks (put_task h (u2\<lparr>t_ch_next := a\<rparr>) k2) = T" by blast
    then have "put_task h (u2\<lparr>t_ch_next := a\<rparr>) k2 = k"
      by (simp add: k_def put_task_def k2_def k1_def)
    then show ?thesis
      using u n k1a k2h rh(1) [symmetric]
      by (simp add: children_add_def modify_task_def Let_def k1_def [symmetric] n1_def [symmetric] k2_def [symmetric])
  qed
  ultimately show thesis using rl by (intro that)
qed

section \<open>A forked child\<close>

definition child_task :: "addr \<Rightarrow> addr \<Rightarrow> i32 \<Rightarrow> addr \<Rightarrow> addr \<Rightarrow> smon_task" where
  "child_task a p pid ea r = (zero_task a)\<lparr>t_p := Some p, t_pid := pid, t_envir := Some ea, t_rb := Some r,
     t_sample_pmc := zero_sample_pmc\<lparr>sp_pid := pid\<rparr>,
     t_sample_sched := zero_sample_sched\<lparr>ss_pid := pid\<rparr>\<rparr>"

lemma runnable_refs:
  assumes "kinv ks" and "runnable ks h"
  obtains t r rb ea e where "ks_tasks ks h = Some t" "t_rb t = Some r" "ks_rbs ks r = Some rb"
    "t_envir t = Some ea" "ks_envirs ks ea = Some e" "envir_wf e" "envir_refs_ok (ks_evsets ks) e"
  using assms by (force simp: runnable_def kinv_def task_ok_def)

lemma task_local_fresh: "envir_wf e \<Longrightarrow> t_evset t = 0 \<Longrightarrow> sp_pmc (t_sample_pmc t) = sp_pmc zero_sample_pmc \<Longrightarrow> task_local e t"
  by (simp add: task_local_def envir_wf_def pmc_wf_zero)

lemma create_child_spec:
  assumes i: "kinv ks" and a: "fresh_task ks a"
    and h: "ks_tasks ks h = Some u" "t_rb u = Some r" "ks_rbs ks r = Some rb" "t_envir u = Some ea"
      "ks_envirs ks ea = Some e" "envir_wf e" "envir_refs_ok (ks_evsets ks) e"
    and k: "k = inserted ks a (child_task a p (ks_pid ks p) ea r) r (smon_get_rb rb) ea (smon_get_envir e)"
  shows "smon_create_child (Some a) h p ks = Some (Some a, k)" "kinv k"
proof -
  show "smon_create_child (Some a) h p ks = Some (Some a, k)"
    using h by (simp add: smon_create_child_def k inserted_def child_task_def zero_task_def put_task_def
        put_rb_def put_envir_def Let_def)
  have w: "envir_wf (smon_get_envir e)" "envir_refs_ok (ks_evsets ks) (smon_get_envir e)"
    using h(6,7) by (simp_all add: smon_get_envir_def envir_wf_def envir_refs_ok_def)
  show "kinv k"
    unfolding k
  proof (rule inserted_kinv [OF i a])
    show "task_local (smon_get_envir e) (child_task a p (ks_pid ks p) ea r)"
      by (rule task_local_fresh [OF w(1)]) (simp_all add: child_task_def zero_task_def)
  qed (use h w in \<open>simp_all add: child_task_def zero_task_def rb_safe_other smon_get_rb_def envir_ref_def\<close>)
qed

lemma relinked_simps:
  assumes "relinked ks ks'"
  shows "ks_rbs ks' = ks_rbs ks" "ks_cpu_list ks' = ks_cpu_list ks" "ks_task_list ks' = ks_task_list ks"
    "ks_wait_list ks' = ks_wait_list ks" "ks_envirs ks' = ks_envirs ks" "ks_irq ks' = ks_irq ks"
    "task_live ks' x = task_live ks x" "runnable ks' x = runnable ks x" "unlisted ks' x = unlisted ks x"
    "dom (ks_tasks ks') = dom (ks_tasks ks)"
    "map_option (\<lambda>t. (t_p t, t_pid t, t_envir t, t_rb t)) (ks_tasks ks' x) =
       map_option (\<lambda>t. (t_p t, t_pid t, t_envir t, t_rb t)) (ks_tasks ks x)"
proof -
  from assms obtain f where f: "\<And>x. ks_tasks ks' x =
      map_option (\<lambda>t. t\<lparr>t_ch_next := fst (f x), t_ch_prev := snd (f x)\<rparr>) (ks_tasks ks x)"
    and k: "ks' = ks\<lparr>ks_tasks := ks_tasks ks'\<rparr>" unfolding relinked_def by blast
  show "ks_rbs ks' = ks_rbs ks" "ks_cpu_list ks' = ks_cpu_list ks" "ks_task_list ks' = ks_task_list ks"
    "ks_wait_list ks' = ks_wait_list ks" "ks_envirs ks' = ks_envirs ks" "ks_irq ks' = ks_irq ks"
    by (subst k, simp)+
  show "task_live ks' x = task_live ks x" "runnable ks' x = runnable ks x"
    "dom (ks_tasks ks') = dom (ks_tasks ks)"
    "map_option (\<lambda>t. (t_p t, t_pid t, t_envir t, t_rb t)) (ks_tasks ks' x) =
       map_option (\<lambda>t. (t_p t, t_pid t, t_envir t, t_rb t)) (ks_tasks ks x)"
    by (auto simp: runnable_def task_live_def f option.map_comp comp_def)
  show "unlisted ks' x = unlisted ks x"
    unfolding unlisted_def by (subst (1 2) k) simp
qed

lemma map_option_eq_SomeE:
  assumes "map_option f x = map_option f y" and "y = Some b"
  obtains a where "x = Some a" "f a = f b"
  using assms by (cases x) auto

lemma inserted_grow:
  assumes "ks_rbs ks r = Some b" and "grows up b b'"
  shows "buffers_grow up ks (inserted ks a t r b' ea e)"
  using assms by (simp add: buffers_grow_def)

lemma relinked_grow: "relinked ks ks' \<Longrightarrow> buffers_grow up ks ks'"
  by (rule buffers_same) (rule relinked_simps(1))

text \<open>The child shares the parent's environment and buffer, whose counts grow by one.\<close>

lemma register_child_spec:
  assumes i: "kinv ks" and a: "fresh_task ks a" and h: "runnable ks h"
  obtains ks' u t where "smon_sched_register_child (Some a) h p ks = Some (0, ks')" "kinv ks'"
    "ks_tasks ks h = Some u" "ks_tasks ks' a = Some t" "t_p t = Some p" "t_pid t = ks_pid ks p"
    "t_envir t = t_envir u" "t_rb t = t_rb u"
    "ks_cpu_list ks' = (ks_cpu_list ks)(ks_task_cpu ks p := a # ks_cpu_list ks (ks_task_cpu ks p))"
    "dom (ks_tasks ks') = insert a (dom (ks_tasks ks))" "\<And>q. ks_rbs ks q \<noteq> None \<Longrightarrow> ks_rbs ks' q \<noteq> None"
    "buffers_grow True ks ks'"
proof -
  from runnable_refs [OF i h] obtain u r rb ea e where u: "ks_tasks ks h = Some u" "t_rb u = Some r"
    "ks_rbs ks r = Some rb" "t_envir u = Some ea" "ks_envirs ks ea = Some e" "envir_wf e"
    "envir_refs_ok (ks_evsets ks) e" .
  define t0 where "t0 = child_task a p (ks_pid ks p) ea r"
  define k where "k = inserted ks a t0 r (smon_get_rb rb) ea (smon_get_envir e)"
  note c = create_child_spec [OF i a u, of k p, folded t0_def, OF k_def]
  have an: "ks_tasks ks a = None" using a by (simp add: fresh_task_def)
  then have ah: "a \<noteq> h" using u(1) by auto
  define t1 where "t1 = t0\<lparr>t_timer := hrtimer_init, t_kt_remain := 0\<rparr>"
  define k1 where "k1 = put_task a t1 k"
  have ka: "ks_tasks k a = Some t0" by (simp add: k_def)
  have s1: "sim k k1"
    unfolding k1_def by (rule sim_put_task [OF ka]) (simp add: t1_def)
  have i1: "kinv k1" by (rule sim_kinv [OF c(2) s1])
  have k1a: "ks_tasks k1 a = Some t1" by (simp add: k1_def put_task_def)
  have live: "task_live k1 a" "task_live k1 h"
    using u(1) ah by (simp_all add: task_live_def k1_def put_task_def k_def)
  have na: "nx k1 a = a" by (simp add: nx_def k1a t1_def t0_def child_task_def zero_task_def)
  have k1l: "ks_task_list k1 = ks_task_list ks" "ks_cpu_list k1 = ks_cpu_list ks"
    "ks_wait_list k1 = ks_wait_list ks" "ks_task_cpu k1 = ks_task_cpu ks"
    by (simp_all add: k1_def put_task_def k_def)
  have "a \<notin> set (ks_task_list k1)" using fresh_unlisted(2) [OF i an] by (simp add: k1l)
  from add_child_kinv [OF i1 live(1) na live(2) ah this] obtain k2 where k2:
    "children_add a h k1 = Some k2" "kinv k2" "relinked k1 k2" .
  note r2 = relinked_simps [OF k2(3)]
  have "ks_tasks k1 h = Some u" using u(1) ah by (simp add: k1_def put_task_def k_def)
  from r2(7) [of h] live(2) obtain u2 where u2: "ks_tasks k2 h = Some u2" by (auto elim: task_live_Some)
  define k3 where "k3 = put_task h (u2\<lparr>t_n_children := t_n_children u2 + 1\<rparr>) k2"
  have s3: "sim k2 k3" unfolding k3_def by (rule sim_put_task [OF u2]) simp
  have i3: "kinv k3" by (rule sim_kinv [OF k2(2) s3])
  have "runnable k1 a" using k1a by (simp add: runnable_def t1_def t0_def child_task_def)
  then have ru: "runnable k3 a" using r2(8) [of a] sim_users(5) [OF s3] by simp
  have un: "unlisted k3 a"
    using sim_unlisted [OF s3] r2(9) [of a] fresh_unlisted(1) [OF i an] k1l by (simp add: unlisted_def)
  from add_to_cpu_kinv [OF i3 ru un, of "ks_task_cpu ks p"] obtain k4 where
    k4: "add_to_cpu (ks_task_cpu ks p) a k3 = Some k4" "kinv k4"
    "k4 = k3\<lparr>ks_cpu_list := (ks_cpu_list k3)(ks_task_cpu ks p := a # ks_cpu_list k3 (ks_task_cpu ks p))\<rparr>" .
  have "ks_tasks k1 h = Some u" using u(1) ah by (simp add: k1_def put_task_def k_def)
  from map_option_eq_SomeE [OF r2(11) [of h] this] u2 have "t_p u2 = t_p u" by auto
  moreover have "t_p u \<noteq> None" using h u(1) by (simp add: runnable_def)
  ultimately obtain q where q: "t_p u2 = Some q" by auto
  have "ks_tasks k3 h = Some (u2\<lparr>t_n_children := t_n_children u2 + 1\<rparr>)" by (simp add: k3_def put_task_def)
  then have run: "smon_sched_register_child (Some a) h p ks = Some (0, k4)"
    using c(1) k2(1) u2 k4(1) q
    by (simp add: smon_sched_register_child_def Let_def modify_task_def ka t1_def [symmetric] k1_def [symmetric]
        k3_def [symmetric])
  from map_option_eq_SomeE [OF r2(11) [of a] k1a] obtain t2 where t2: "ks_tasks k2 a = Some t2"
    "(t_p t2, t_pid t2, t_envir t2, t_rb t2) = (t_p t1, t_pid t1, t_envir t1, t_rb t1)" .
  have t4: "ks_tasks k4 a = Some t2" using t2(1) ah by (simp add: k4(3) k3_def put_task_def)
  have dm: "dom (ks_tasks k4) = insert a (dom (ks_tasks ks))"
  proof -
    have "dom (ks_tasks k4) = dom (ks_tasks k2)" using u2 by (auto simp: k4(3) k3_def put_task_def)
    then show ?thesis using r2(10) by (auto simp: k1_def put_task_def k_def)
  qed
  have "ks_rbs k4 q \<noteq> None" if "ks_rbs ks q \<noteq> None" for q
    using that r2(1) by (simp add: k4(3) k3_def put_task_def k1_def k_def)
  moreover have "buffers_grow True ks k4"
  proof -
    have "buffers_grow True ks k" unfolding k_def by (rule inserted_grow [OF u(3)]) (blast intro: grow_get)
    moreover have "buffers_grow True k3 k4" by (rule buffers_same) (simp add: k4(3))
    ultimately show ?thesis using sim_grow [OF s1] relinked_grow [OF k2(3)] sim_grow [OF s3]
      by (blast intro: buffers_grow_trans)
  qed
  moreover have "ks_cpu_list k4 = (ks_cpu_list ks)(ks_task_cpu ks p := a # ks_cpu_list ks (ks_task_cpu ks p))"
    using r2(2) k1l(2) by (simp add: k4(3) k3_def put_task_def)
  ultimately show thesis
    using that [OF run k4(2) u(1) t4] t2(2) u(2,4) dm by (simp add: t1_def t0_def child_task_def)
qed

lemma fork_safe:
  assumes i: "kinv ks" and a: "\<And>a. alloc = Some a \<Longrightarrow> fresh_task ks a"
  shows "safe True ks (smon_sched_process_fork alloc parent child ks)"
  unfolding smon_sched_process_fork_def Let_def
proof (rule find_safe [OF i cpu_list_live [OF i] _ safe_Some [OF i]])
  fix h t assume h: "h \<in> set (ks_cpu_list ks (ks_task_cpu ks parent))" "ks_tasks ks h = Some t"
  have ru: "runnable ks h" using lists_okD(6) [OF i h(1)] .
  from runnable_refs [OF i ru] h(2) obtain r where r: "t_rb t = Some r" "ks_rbs ks r \<noteq> None" by force
  from kinvD [OF i h(2)] obtain e where e: "task_envir t ks = Some e" by metis
  define g where "g = (\<lambda>ks'. if envir_option_fork e
      then case msr_rdtsc (ks_mach ks') of (tsc, m) \<Rightarrow>
        smon_sample_write (t_rb t) SAMPLE_TYPE_FORK
          (fork_image \<lparr>sf_timestamp = tsc, sf_parent = t_pid t, sf_child = ks_pid ks' child\<rparr>) (ks'\<lparr>ks_mach := m\<rparr>)
      else Some ks')"
  have g: "safe True k (g k)" if k: "kinv k" "ks_rbs k r \<noteq> None" for k
  proof -
    have "keeps k (smon_sample_write (t_rb t) SAMPLE_TYPE_FORK (fork_image s) (k\<lparr>ks_mach := m\<rparr>))" for s m
    proof (rule keeps_trans [OF sim_mach write_keeps])
      show "kinv (k\<lparr>ks_mach := m\<rparr>)" by (rule sim_kinv [OF k(1) sim_mach])
      show "t_rb t = Some q \<Longrightarrow> ks_rbs (k\<lparr>ks_mach := m\<rparr>) q \<noteq> None" for q using r k(2) by simp
    qed (rule image_bytes)
    then have "keeps k (g k)" by (auto simp: g_def sim_refl split: prod.splits intro!: keeps_Some)
    then show ?thesis using k(1) by (rule keeps_safe)
  qed
  have first: "\<exists>k. (if envir_option_inherit e then smon_sched_register_child alloc h child ks \<bind> (\<lambda>(r, ks). Some ks)
       else Some ks) = Some k \<and> kinv k \<and> ks_rbs k r \<noteq> None \<and> buffers_grow True ks k"
  proof (cases alloc)
    case None
    then show ?thesis using i r by (simp add: smon_sched_register_child_def smon_create_child_def Let_def buffers_same)
  next
    case (Some a)
    from register_child_spec [OF i assms(2) [OF Some] ru, of child] obtain k where
      "smon_sched_register_child (Some a) h child ks = Some (0, k)" "kinv k"
      "\<And>q. ks_rbs ks q \<noteq> None \<Longrightarrow> ks_rbs k q \<noteq> None" "buffers_grow True ks k" by metis
    with Some i r buffers_same [of ks ks] show ?thesis by auto
  qed
  then obtain k where k: "(if envir_option_inherit e
      then smon_sched_register_child alloc h child ks \<bind> (\<lambda>(r, ks). Some ks) else Some ks) = Some k"
    "kinv k" "ks_rbs k r \<noteq> None" and grow: "buffers_grow True ks k" by blast
  show "safe True ks (ks_tasks ks h \<bind> (\<lambda>t. task_envir t ks \<bind> (\<lambda>e.
    (if envir_option_inherit e then smon_sched_register_child alloc h child ks \<bind> (\<lambda>(r, ks). Some ks)
     else Some ks) \<bind> (\<lambda>ks. if envir_option_fork e
      then case msr_rdtsc (ks_mach ks) of (tsc, m) \<Rightarrow>
        smon_sample_write (t_rb t) SAMPLE_TYPE_FORK
          (fork_image \<lparr>sf_timestamp = tsc, sf_parent = t_pid t, sf_child = ks_pid ks child\<rparr>) (ks\<lparr>ks_mach := m\<rparr>)
      else Some ks))))"
    using safe_from [OF grow g [OF k(2,3)]] by (simp add: h(2) e k(1) g_def cong: if_cong)
qed

section \<open>A registered task\<close>

text \<open>What the caller of the registration has to provide.\<close>

definition register_ok :: "addr option \<Rightarrow> addr option \<Rightarrow> bool \<Rightarrow> smon_envir \<Rightarrow> addr \<Rightarrow> kstate \<Rightarrow> bool" where
  "register_ok alloc envir_alloc extra_alloc envir r ks \<longleftrightarrow>
     (\<forall>a. alloc = Some a \<longrightarrow> fresh_task ks a) \<and> (\<forall>ea. envir_alloc = Some ea \<longrightarrow> ks_envirs ks ea = None) \<and>
     extra_alloc \<and> envir_wf envir \<and> envir_refs_ok (ks_evsets ks) envir \<and> ks_rbs ks r \<noteq> None"

definition new_task :: "addr \<Rightarrow> addr \<Rightarrow> i32 \<Rightarrow> addr \<Rightarrow> smon_envir \<Rightarrow> addr \<Rightarrow> smon_task" where
  "new_task a p pid ea e r = (zero_task a)\<lparr>t_p := Some p, t_pid := pid, t_envir := Some ea, t_rb := Some r,
     t_sample_pmc := zero_sample_pmc\<lparr>sp_pid := pid\<rparr>,
     t_sample_sched := zero_sample_sched\<lparr>ss_pid := pid\<rparr>,
     t_extra := Some \<lparr>x_rapl_sample = zero_sample_rapl, x_rapl_sample_time = sample_time e,
         x_rapl_timer = hrtimer_init, x_timer_flags = 0, x_info_sample = zero_sample_info, x_rb = Some r\<rparr>\<rparr>"

lemma create_task_spec:
  assumes i: "kinv ks" and ok: "register_ok (Some a) (Some ea) True envir r ks"
  obtains e rb rb' where "smon_create_envir True envir = Some e" "ks_rbs ks r = Some rb"
    "rb' = (if batch_size envir > 0 then (smon_get_rb rb)\<lparr>rb_batch := batch_size envir\<rparr> else smon_get_rb rb)"
    "smon_create_task (Some a) (Some ea) True pid envir r ks =
       Some (Some a, inserted ks a (new_task a (find_process pid ks) pid ea e r) r rb' ea e)"
    "kinv (inserted ks a (new_task a (find_process pid ks) pid ea e r) r rb' ea e)"
proof -
  have a: "fresh_task ks a" "ks_envirs ks ea = None" "envir_wf envir" "envir_refs_ok (ks_evsets ks) envir"
    using ok by (simp_all add: register_ok_def)
  obtain e where e: "smon_create_envir True envir = Some e"
    by (simp add: smon_create_envir_def Let_def)
  from ok obtain rb where rb: "ks_rbs ks r = Some rb" by (auto simp: register_ok_def)
  define rb' where "rb' = (if batch_size envir > 0 then (smon_get_rb rb)\<lparr>rb_batch := batch_size envir\<rparr>
    else smon_get_rb rb)"
  define t where "t = new_task a (find_process pid ks) pid ea e r"
  note w = create_envir_wf [OF e a(3)] and f = create_envir_refs_ok [OF e a(3,4)]
  have run: "smon_create_task (Some a) (Some ea) True pid envir r ks = Some (Some a, inserted ks a t r rb' ea e)"
    using e rb by (simp add: smon_create_task_def Let_def put_envir_def put_rb_def put_task_def rb'_def t_def
        new_task_def zero_task_def smon_task_extra_create_def inserted_def)
  have "kinv (inserted ks a t r rb' ea e)"
  proof (rule inserted_kinv [OF i a(1)])
    show "task_local e t" by (rule task_local_fresh [OF w]) (simp_all add: t_def new_task_def zero_task_def)
    show "envir_ref ks ea e" using a(2) create_envir_fields(1) [OF e] by (simp add: envir_ref_def)
  qed (use w f rb in \<open>auto simp: t_def new_task_def zero_task_def rb'_def rb_safe_other smon_get_rb_def\<close>)
  with that [OF e rb rb'_def] run show thesis by (simp add: t_def)
qed

lemma enlist_kinv:
  assumes i: "kinv ks" and a: "has_extra ks a" "nx ks a = a" "a \<notin> set (ks_task_list ks)"
  shows "kinv (ks\<lparr>ks_task_list := a # ks_task_list ks\<rparr>)"
proof -
  define ks' where "ks' = ks\<lparr>ks_task_list := a # ks_task_list ks\<rparr>"
  have l: "links_ok ks" using i by (simp add: kinv_def rings_ok_def)
  from a(1) obtain t where t: "ks_tasks ks a = Some t" by (auto simp: has_extra_def)
  have pa: "pv ks a = a" using ring_nodes(5) [OF l t] a(2) by simp
  have "x = a" if "(x, a) \<in> (ring_step ks)\<^sup>*" for x
    using that
  proof (induction rule: converse_rtrancl_induct)
    case (step y z)
    then obtain u where "ks_tasks ks y = Some u" "nx ks y = a" by (auto simp: ring_step_def nx_def)
    then show ?case using ring_nodes(5) [OF l] pa by fastforce
  qed simp
  then have fam: "a \<in> family ks x \<longleftrightarrow> x = a" for x by (auto simp: family_def)
  have "family ks' = family ks" by (simp add: ks'_def family_def ring_step_def fun_eq_iff)
  moreover have "links_ok ks'" using l by (simp add: ks'_def links_ok_def)
  ultimately have "rings_ok ks'"
    using i fam family_singleton [OF a(2)] unfolding rings_ok_def kinv_def by (auto simp: ks'_def)
  moreover have "counts_ok ks' = counts_ok ks"
    by (simp add: ks'_def counts_ok_def rb_users_def envir_users_def)
  moreover have "task_ok ks' = task_ok ks" by (simp add: ks'_def task_ok_def fun_eq_iff)
  moreover have "cfg_ok ks' = cfg_ok ks" by (simp add: ks'_def cfg_ok_def)
  moreover have "irq_item_ok ks' j = irq_item_ok ks j" for j by (cases j) (simp_all add: ks'_def task_live_def has_extra_def)
  moreover have "lists_ok ks'" using i a by (simp add: kinv_def lists_ok_def ks'_def has_extra_def runnable_def)
  ultimately show ?thesis
    using i unfolding ks'_def [symmetric] kinv_def by (simp add: ks'_def)
qed

lemma add_wait_kinv:
  assumes i: "kinv ks" and r: "runnable ks a" and u: "unlisted ks a"
  shows "list_add (task_live ks) a (ks_wait_list ks) = Some (a # ks_wait_list ks)"
    "kinv (ks\<lparr>ks_wait_list := a # ks_wait_list ks\<rparr>)"
proof -
  show "list_add (task_live ks) a (ks_wait_list ks) = Some (a # ks_wait_list ks)"
    by (rule list_add_live [OF wait_list_live [OF i]])
  have "lists_ok (ks\<lparr>ks_wait_list := a # ks_wait_list ks\<rparr>)"
    using i r u by (auto simp: kinv_def lists_ok_def runnable_def has_extra_def unlisted_def)
  then show "kinv (ks\<lparr>ks_wait_list := a # ks_wait_list ks\<rparr>)"
    using kinv_lists [OF i, where cl = "ks_cpu_list ks" and wl = "a # ks_wait_list ks"] by simp
qed

text \<open>
  The task is on the list of the registered tasks, and waits for its first \<^verbatim>\<open>exec\<close> or is on the
  list of the processor its process is on.
\<close>

definition task_added :: "addr \<Rightarrow> smon_envir \<Rightarrow> kstate \<Rightarrow> kstate \<Rightarrow> bool" where
  "task_added a envir ks ks' \<longleftrightarrow> ks_task_list ks' = a # ks_task_list ks \<and>
     (let c = ks_task_cpu ks (the (t_p (the (ks_tasks ks' a))))
      in if envir_option_exec envir
         then ks_wait_list ks' = a # ks_wait_list ks \<and> ks_cpu_list ks' = ks_cpu_list ks
         else ks_wait_list ks' = ks_wait_list ks \<and> ks_cpu_list ks' = (ks_cpu_list ks)(c := a # ks_cpu_list ks c))"

lemma register_task_fail:
  assumes "alloc = None \<or> envir_alloc = None"
  shows "smon_sched_register_task alloc envir_alloc x pid envir r ks = Some (- 1, ks)"
  using assms by (auto simp: smon_sched_register_task_def smon_create_task_def smon_create_envir_def Let_def
      split: option.splits)

text \<open>The extra data is filled in without a test of its allocation, the buffer without a test that it is there.\<close>

lemma register_no_extra:
  "smon_sched_register_task (Some a) (Some ea) False pid envir r ks = None"
  by (simp add: smon_sched_register_task_def smon_create_task_def smon_create_envir_def smon_task_extra_create_def Let_def)

lemma register_no_buffer:
  assumes "ks_rbs ks r = None"
  shows "smon_sched_register_task (Some a) (Some ea) x pid envir r ks = None"
  using assms
  by (simp add: smon_sched_register_task_def smon_create_task_def smon_create_envir_def Let_def put_envir_def)

lemma register_task_spec:
  assumes i: "kinv ks" and ok: "register_ok (Some a) (Some ea) True envir r ks"
  obtains ks' where "smon_sched_register_task (Some a) (Some ea) True pid envir r ks = Some (0, ks')" "kinv ks'"
    "task_added a envir ks ks'" "dom (ks_tasks ks') = insert a (dom (ks_tasks ks))"
    "map_option t_pid (ks_tasks ks' a) = Some pid" "buffers_grow True ks ks'"
    "map_option t_rb (ks_tasks ks' a) = Some (Some r)"
    "map_option t_p (ks_tasks ks' a) = Some (Some (find_process pid ks))"
proof -
  from create_task_spec [OF i ok, of pid] obtain e rb rb' where
    rb: "ks_rbs ks r = Some rb"
      "rb' = (if batch_size envir > 0 then (smon_get_rb rb)\<lparr>rb_batch := batch_size envir\<rparr> else smon_get_rb rb)" and
    c: "smon_create_task (Some a) (Some ea) True pid envir r ks =
       Some (Some a, inserted ks a (new_task a (find_process pid ks) pid ea e r) r rb' ea e)"
    "kinv (inserted ks a (new_task a (find_process pid ks) pid ea e r) r rb' ea e)" by metis
  define p where "p = find_process pid ks"
  define t0 where "t0 = new_task a p pid ea e r"
  define k where "k = inserted ks a t0 r rb' ea e"
  define t1 where "t1 = t0\<lparr>t_timer := hrtimer_init, t_kt_remain := 0\<rparr>"
  define k1 where "k1 = put_task a t1 k"
  define k2 where "k2 = k1\<lparr>ks_task_list := a # ks_task_list ks\<rparr>"
  have an: "ks_tasks ks a = None" using ok by (simp add: register_ok_def fresh_task_def)
  note un = fresh_unlisted [OF i an]
  have ka: "ks_tasks k a = Some t0" by (simp add: k_def)
  have "sim k k1" unfolding k1_def by (rule sim_put_task [OF ka]) (simp add: t1_def)
  then have i1: "kinv k1" using c(2) by (auto intro: sim_kinv simp: k_def t0_def p_def)
  have "grows True rb (smon_get_rb rb)" by (blast intro: grow_get)
  then have "grows True rb rb'" unfolding rb(2) by (auto intro: rtranclp.rtrancl_into_rtrancl grow_batch)
  then have "buffers_grow True ks k" unfolding k_def by (rule inserted_grow [OF rb(1)])
  then have grow: "buffers_grow True ks k2"
    by (rule buffers_grow_trans) (rule buffers_same, simp add: k2_def k1_def put_task_def)
  have t1: "ks_tasks k1 a = Some t1" by (simp add: k1_def put_task_def)
  have q1: "ks_task_list k1 = ks_task_list ks" "ks_cpu_list k1 = ks_cpu_list ks" "ks_wait_list k1 = ks_wait_list ks"
    "ks_task_cpu k1 = ks_task_cpu ks"
    "dom (ks_tasks k1) = insert a (dom (ks_tasks ks))"
    by (auto simp: k1_def put_task_def k_def)
  have f1: "nx k1 a = a" "t_p t1 = Some p" "t_pid t1 = pid" "t_extra t1 \<noteq> None" "t_rb t1 = Some r"
    by (simp_all add: nx_def t1 t1_def t0_def new_task_def zero_task_def)
  have l1: "has_extra k1 a" using t1 f1(4) by (simp add: has_extra_def)
  have i2: "kinv k2" using enlist_kinv [OF i1 l1 f1(1)] un(2) by (simp add: k2_def q1(1))
  have t2: "ks_tasks k2 a = Some t1" by (simp add: k2_def t1)
  have r2: "runnable k2 a" using t2 f1(2) by (simp add: runnable_def)
  have u2: "unlisted k2 a" using un(1) by (simp add: unlisted_def k2_def q1)
  have start: "smon_sched_register_task (Some a) (Some ea) True pid envir r ks =
      (if envir_option_exec envir
       then list_add (task_live k2) a (ks_wait_list k2) \<bind> (\<lambda>wl. Some (0, k2\<lparr>ks_wait_list := wl\<rparr>))
       else smon_task_extra_start a k2 \<bind> (\<lambda>ks. ks_tasks k2 a \<bind> (\<lambda>t. t_p t \<bind> (\<lambda>p.
         add_to_cpu (ks_task_cpu ks p) a ks \<bind> (\<lambda>ks. Some (0, ks))))))"
  proof -
    have tl: "list_add (task_live k1) a (ks_task_list k1) = Some (a # ks_task_list k1)"
      using task_list_live [OF i1] by (intro list_add_live) blast
    have w: "ks_wait_list k2 = ks_wait_list k1" by (simp add: k2_def)
    show ?thesis
      using c(1) f1(4) t2 t1
      by (simp add: smon_sched_register_task_def add_to_tasks_def add_to_wait_def p_def [symmetric] t0_def [symmetric] k_def [symmetric]
          modify_task_def ka t1_def [symmetric] k1_def [symmetric]
          tl [unfolded q1(1)] q1(1) k2_def [symmetric] f1(2) Let_def w
          cong: if_cong)
  qed
  show thesis
  proof (cases "envir_option_exec envir")
    case True
    note w = add_wait_kinv [OF i2 r2 u2]
    have "buffers_grow True ks (k2\<lparr>ks_wait_list := a # ks_wait_list k2\<rparr>)"
      using grow by (rule buffers_grow_trans) (simp add: buffers_same)
    then show thesis
      by (intro that [OF _ w(2)]) (use start w(1) True t2 f1 q1 in \<open>simp_all add: task_added_def k2_def p_def\<close>)
  next
    case False
    from f1(4) obtain x where "t_extra t1 = Some x" by blast
    from extra_start_keeps [OF i2 t2 this] obtain k3 where k3: "smon_task_extra_start a k2 = Some k3" "sim k2 k3"
      by (rule keepsE)
    have i3: "kinv k3" by (rule sim_kinv [OF i2 k3(2)])
    have r3: "runnable k3 a" "unlisted k3 a"
      using r2 u2 sim_users(5) [OF k3(2)] sim_unlisted [OF k3(2)] by simp_all
    from add_to_cpu_kinv [OF i3 r3, of "ks_task_cpu ks p"] obtain k4 where
      k4: "add_to_cpu (ks_task_cpu ks p) a k3 = Some k4" "kinv k4"
      "k4 = k3\<lparr>ks_cpu_list := (ks_cpu_list k3)(ks_task_cpu ks p := a # ks_cpu_list k3 (ks_task_cpu ks p))\<rparr>" .
    from sim_task' [OF k3(2) t2] obtain t3 where t3: "ks_tasks k3 a = Some t3" "skel t3 = skel t1" by metis
    note s3 = simD [OF k3(2)]
    have s: "ks_task_cpu k3 = ks_task_cpu ks" "ks_task_list k3 = a # ks_task_list ks"
      "ks_cpu_list k3 = ks_cpu_list ks" "ks_wait_list k3 = ks_wait_list ks"
      using s3 q1 by (simp_all add: k2_def)
    have "buffers_grow True ks k4"
      using buffers_grow_trans [OF grow sim_grow [OF k3(2)]]
      by (rule buffers_grow_trans) (simp add: buffers_same k4(3))
    moreover have d: "dom (ks_tasks k3) = insert a (dom (ks_tasks ks))"
      using sim_users(3) [OF k3(2)] q1 by (simp add: k2_def)
    ultimately show thesis
      by (intro that [OF _ k4(2)])
        (use start False k3(1) k4(1,3) t2 t3 f1 s d skel_simps(1,2,6) [OF t3(2)] in
          \<open>simp_all add: task_added_def p_def\<close>)
  qed
qed

end
