(* ===== verification/Example_States.thy ===== *)
theory Example_States
  imports Kernel_Register Kernel_Unregister
begin

text \<open>
  Small concrete states of the driver, on which the hypotheses of the properties are shown to hold:
  one event, one event-set, one buffer of two pages and at most one task.
\<close>

definition ex_event :: smon_event where
  "ex_event = \<lparr>ev_tag = ''inst'', perfevtsel = 0x4300C0\<rparr>"

definition ex_evset :: smon_evset where
  "ex_evset = \<lparr>es_tag = ''set'', evids = [0, - 1, - 1, - 1], fixed_ctrl = 0x333, global_ctrl = 0x700000001\<rparr>"

definition ex_config :: smon_config where
  "ex_config = \<lparr>ev_tab = \<lparr>events = Some (Some ex_event # replicate 63 None), n_events = 1\<rparr>,
     es_tab = \<lparr>evsets = Some (Some ex_evset # replicate 63 None), n_evsets = 1\<rparr>\<rparr>"

definition ex_envir :: smon_envir where
  "ex_envir = \<lparr>esids = replicate 32 0, n_esids = 1, sample_time = 10, batch_size = 1,
     options = ENVOP_INH OR ENVOP_FORK, envir_count = 1\<rparr>"

definition ex_rb :: "u32 \<Rightarrow> smon_ring_buffer" where
  "ex_rb act = \<lparr>rb_n_pages = 2, rb_size = 8192, rb_data = (\<lambda>_ _. 0), rb_head = 0, rb_tail = 0,
     rb_items = 0, rb_batch = 1, rb_active = act, rb_irq = False\<rparr>"

definition ex_mach :: smon_mach where
  "ex_mach = \<lparr>regs = (\<lambda>_ _. 0), cpu_id = 0, tsc_src = of_nat, tsc_n = 1\<rparr>"

text \<open>The task of the process at 5 with the pid 7, still running or exited.\<close>

definition ex_task :: "bool \<Rightarrow> smon_task" where
  "ex_task running = (zero_task 20)\<lparr>t_p := (if running then Some 5 else None), t_pid := 7,
     t_envir := Some 30, t_timer := \<lparr>tm_active = running, tm_kt = 10000000\<rparr>, t_timer_flags := SMON_TIMER_ON,
     t_extra := Some \<lparr>x_rapl_sample = zero_sample_rapl, x_rapl_sample_time = 10, x_rapl_timer = hrtimer_init,
       x_timer_flags = 0, x_info_sample = zero_sample_info, x_rb = Some 10\<rparr>,
     t_rb := (if running then Some 10 else None)\<rparr>"

text \<open>The driver without a task, and with one.\<close>

definition ex_idle :: kstate where
  "ex_idle = \<lparr>ks_mach = ex_mach, ks_events = ev_tab ex_config, ks_evsets = es_tab ex_config,
     ks_tasks = Map.empty, ks_envirs = Map.empty, ks_rbs = [10 \<mapsto> ex_rb 0], ks_task_list = [],
     ks_cpu_list = (\<lambda>_. []), ks_wait_list = [], ks_irq = [], ks_pid = (\<lambda>p. of_nat p + 2),
     ks_task_cpu = (\<lambda>_. 0), ks_processes = [5, 6], ks_init_task = 1, ks_online_cpus = 1\<rparr>"

definition ex_kernel :: "bool \<Rightarrow> kstate" where
  "ex_kernel running = ex_idle\<lparr>ks_tasks := [20 \<mapsto> ex_task running], ks_envirs := [30 \<mapsto> ex_envir],
     ks_rbs := [10 \<mapsto> ex_rb (if running then 1 else 0)], ks_task_list := [20],
     ks_cpu_list := (\<lambda>c. if c = 0 \<and> running then [20] else [])\<rparr>"

lemmas ex_defs = ex_event_def ex_evset_def ex_config_def ex_envir_def ex_rb_def ex_mach_def ex_task_def
  ex_idle_def ex_kernel_def zero_task_def

lemma ex_entries:
  "event_entries (ev_tab ex_config) = [ex_event]" "evset_entries (es_tab ex_config) = [ex_evset]"
  by (simp_all add: ex_config_def event_entries_def evset_entries_def slots_entries_def)

lemma ex_config_inv: "config_inv ex_config"
  unfolding config_inv_def ex_entries
  by (auto simp: ex_config_def event_inv_def evset_inv_def slots_inv_def evset_refs_ok_def ex_evset_def
      event_entries_def slots_entries_def nth_Cons')

lemma ex_rb_inv: "rb_inv (ex_rb n) []"
proof -
  have "rb_geom (ex_rb n)" by (auto simp: rb_geom_def ex_rb_def intro!: bexI [of _ 1])
  then have "rb_holds (ex_rb n) []" by (simp add: rb_holds_def ex_rb_def rb_cap_def)
  then show ?thesis unfolding rb_inv_def by (intro exI [of _ "[]"]) (simp add: ex_rb_def)
qed

lemma ex_rb_safe: "rb_safe (ex_rb n)"
  by (auto simp: ex_rb_def rb_safe_def rb_geom_def rb_cap_def intro!: bexI [of _ 1])

lemma ex_envir_ok: "envir_wf ex_envir" "envir_refs_ok (es_tab ex_config) ex_envir"
  by (simp_all add: envir_wf_def envir_refs_ok_def ex_entries ex_envir_def MUX_EVSETS_def)

lemma ex_cfg_ok:
  assumes "ks_events ks = ev_tab ex_config" and "ks_evsets ks = es_tab ex_config"
  shows "cfg_ok ks"
proof -
  have "\<lparr>ev_tab = ev_tab ex_config, es_tab = es_tab ex_config\<rparr> = ex_config" by simp
  moreover have "length (evids ex_evset) = MAX_GP_CTRS" by (simp add: ex_evset_def MAX_GP_CTRS_def)
  ultimately show ?thesis using ex_config_inv by (simp only: cfg_ok_def assms ex_entries) simp
qed

lemma ex_idle_inv: "kinv ex_idle"
  unfolding kinv_def
proof (intro conjI)
  show "cfg_ok ex_idle" by (rule ex_cfg_ok) (simp_all add: ex_idle_def)
  show "counts_ok ex_idle" by (simp add: counts_ok_def ex_idle_def rb_users_def ex_rb_def)
qed (auto simp: ex_idle_def ex_rb_safe lists_ok_def rings_ok_def links_ok_def)

lemma ex_task_fields:
  "t_envir (ex_task b) = Some 30" "t_evset (ex_task b) = 0" "t_ch_next (ex_task b) = 20" "t_ch_prev (ex_task b) = 20"
  "t_rb (ex_task b) = (if b then Some 10 else None)" "t_p (ex_task b) = (if b then Some 5 else None)"
  "t_pid (ex_task b) = 7" "\<exists>x. t_extra (ex_task b) = Some x \<and> x_rb x = Some 10"
  "t_timer_flags (ex_task b) = 1" "t_sample_pmc (ex_task b) = zero_sample_pmc" "t_tsc_tmp (ex_task b) = 0"
  by (simp_all add: ex_task_def zero_task_def SMON_TIMER_ON_def)

text \<open>The fields of the state with one task.\<close>

lemma ex_kernel_fields:
  "ks_tasks (ex_kernel b) = [20 \<mapsto> ex_task b]" "ks_envirs (ex_kernel b) = [30 \<mapsto> ex_envir]"
  "ks_rbs (ex_kernel b) = [10 \<mapsto> ex_rb (if b then 1 else 0)]" "ks_task_list (ex_kernel b) = [20]"
  "ks_cpu_list (ex_kernel b) = (\<lambda>c. if c = 0 \<and> b then [20] else [])" "ks_wait_list (ex_kernel b) = []"
  "ks_irq (ex_kernel b) = []" "ks_events (ex_kernel b) = ev_tab ex_config" "ks_evsets (ex_kernel b) = es_tab ex_config"
  "ks_task_cpu (ex_kernel b) = (\<lambda>_. 0)" "ks_mach (ex_kernel b) = ex_mach" "ks_pid (ex_kernel b) = (\<lambda>p. of_nat p + 2)"
  by (simp_all add: ex_kernel_def ex_idle_def)

lemma ex_family: "family (ex_kernel b) 20 = {20}"
proof -
  have r: "ring_step (ex_kernel b) = {(20, 20)}"
    by (auto simp: ring_step_def ex_kernel_fields ex_task_fields split: if_splits)
  have "(20, c) \<in> {(20, 20)}\<^sup>* \<Longrightarrow> c = 20" for c :: addr
    by (induction rule: rtrancl_induct) auto
  then show ?thesis by (auto simp: family_def r)
qed

lemma ex_task_ok: "task_ok (ex_kernel b) (ex_task b)"
proof -
  have "task_local ex_envir (ex_task b)"
    using pmc_wf_zero by (simp add: task_local_def ex_task_fields ex_envir_def)
  then show ?thesis
    unfolding task_ok_def using ex_envir_ok ex_task_fields(8) [of b]
    by (auto simp: ex_task_fields(1,5,6) ex_kernel_fields)
qed

lemma ex_lists_ok: "lists_ok (ex_kernel b)"
proof -
  have "has_extra (ex_kernel b) 20" using ex_task_fields(8) [of b] by (auto simp: has_extra_def ex_kernel_fields)
  moreover have "b \<longrightarrow> runnable (ex_kernel b) 20" by (simp add: runnable_def ex_kernel_fields ex_task_fields(6))
  ultimately show ?thesis by (auto simp: lists_ok_def ex_kernel_fields)
qed

lemma ex_kernel_inv: "kinv (ex_kernel b)"
  unfolding kinv_def
proof (intro conjI)
  show "cfg_ok (ex_kernel b)" by (rule ex_cfg_ok) (simp_all add: ex_kernel_fields)
  have u: "rb_users (ex_kernel b) 10 = (if b then {20} else {})" "envir_users (ex_kernel b) 30 = {20}"
    by (auto simp: rb_users_def envir_users_def ex_kernel_fields ex_task_fields(1,5) split: if_splits)
  show "counts_ok (ex_kernel b)"
    unfolding counts_ok_def using u by (auto simp: ex_kernel_fields ex_rb_def ex_envir_def)
  show "rings_ok (ex_kernel b)"
    by (auto simp: rings_ok_def links_ok_def ex_kernel_fields ex_task_fields(3,4) split: if_splits)
qed (auto simp: ex_kernel_fields ex_rb_safe ex_task_ok ex_lists_ok)

end
