(* ===== verification/Prop_Tables.thy ===== *)
theory Prop_Tables
  imports Example_States
begin

text \<open>
  The properties of the tables, of the environments, and of the registers that the driver programs.
\<close>

section \<open>Tables\<close>

lemma ex_config_reach: "config_reach ex_config"
proof -
  have e: "smon_event_init True event_table0 = (0, \<lparr>events = Some (replicate 64 None), n_events = 0\<rparr>)"
    by (simp add: smon_event_init_def event_table0_def MAX_EVENTS_def)
  have s: "smon_evset_init True evset_table0 = (0, \<lparr>evsets = Some (replicate 64 None), n_evsets = 0\<rparr>)"
    by (simp add: smon_evset_init_def evset_table0_def MAX_EVSETS_def)
  let ?c0 = "\<lparr>ev_tab = \<lparr>events = Some (replicate 64 None), n_events = 0\<rparr>,
      es_tab = \<lparr>evsets = Some (replicate 64 None), n_evsets = 0\<rparr>\<rparr>"
  have r: "replicate 64 x = x # replicate 63 x" for x :: "'a option"
    using replicate_Suc [of 63 x] by simp
  have "smon_set_event True ex_event (ev_tab ?c0) = Some (0, ev_tab ex_config)"
    by (simp add: smon_set_event_def MAX_EVENTS_def slot_store_def ex_config_def r)
  from config_next [OF config_start [OF e s] set_event [of True ex_event ?c0, OF this]]
  have c1: "config_reach (?c0\<lparr>ev_tab := ev_tab ex_config\<rparr>)" .
  have "smon_set_evset True ex_evset (ev_tab ex_config) (es_tab ?c0) = Some (0, es_tab ex_config)"
    by (simp add: smon_set_evset_def MAX_EVSETS_def slot_store_def ex_config_def r ex_evset_def
        smon_get_event_def slot_load_def)
  from config_next [OF c1 set_evset [of True ex_evset "?c0\<lparr>ev_tab := ev_tab ex_config\<rparr>"]] this
  show ?thesis by (simp add: ex_config_def)
qed

text \<open>
  C25: in every state the two registration ioctls can lead to, every event id of a registered
  event-set that is not negative names a registered event, so programming the counters never meets
  an id without an event.
\<close>

theorem evset_events_registered:
  assumes "config_reach c" and "smon_get_evset i (es_tab c) = Some (Some s)"
    and "e \<in> set (evids s)" and "0 \<le> sint e"
  shows "\<exists>ev. smon_get_event e (ev_tab c) = Some (Some ev)"
proof -
  have c: "event_inv (ev_tab c)" "evset_inv (es_tab c)"
    "\<forall>s \<in> set (evset_entries (es_tab c)). evset_refs_ok (ev_tab c) s"
    using config_reach_inv [OF assms(1)] by (simp_all add: config_inv_def)
  have "s \<in> set (evset_entries (es_tab c))"
    using assms(2) by (auto simp: evset_get_spec [OF c(2)] split: if_splits)
  then have "unat e < length (event_entries (ev_tab c))"
    using c(3) assms(3,4) by (auto simp: evset_refs_ok_def)
  then show ?thesis by (simp add: event_get_spec [OF c(1)])
qed

theorem evset_events_registered_witness:
  "\<exists>ev. smon_get_event 0 (ev_tab ex_config) = Some (Some ev)"
proof -
  have "smon_get_evset 0 (es_tab ex_config) = Some (Some ex_evset)"
    by (simp add: smon_get_evset_def ex_config_def slot_load_def)
  from evset_events_registered [OF ex_config_reach this, of 0] show ?thesis by (simp add: ex_evset_def)
qed

text \<open>
  C27: an id once given stays good: whatever is registered afterwards, with whatever result, the ids
  of the events and of the event-sets that were there before name the same entries.
\<close>

theorem ids_stay_valid:
  assumes "config_reach c" and "config_step\<^sup>*\<^sup>* c c'"
  shows "(smon_get_event i (ev_tab c) = Some (Some e) \<longrightarrow> smon_get_event i (ev_tab c') = Some (Some e)) \<and>
    (smon_get_evset j (es_tab c) = Some (Some s) \<longrightarrow> smon_get_evset j (es_tab c') = Some (Some s))"
proof -
  have "config_inv c' \<and>
      (smon_get_event i (ev_tab c) = Some (Some e) \<longrightarrow> smon_get_event i (ev_tab c') = Some (Some e)) \<and>
      (smon_get_evset j (es_tab c) = Some (Some s) \<longrightarrow> smon_get_evset j (es_tab c') = Some (Some s))"
    using assms(2)
  proof (induction rule: rtranclp_induct)
    case base
    show ?case using config_reach_inv [OF assms(1)] by simp
  next
    case (step d d')
    then have d: "event_inv (ev_tab d)" "evset_inv (es_tab d)" by (simp_all add: config_inv_def)
    show ?case using step.hyps(2)
    proof (rule config_stepE)
      fix a x r t assume t: "d' = d\<lparr>ev_tab := t\<rparr>" "smon_set_event a x (ev_tab d) = Some (r, t)"
      show ?thesis using step.IH config_step_inv [OF step.hyps(2)] ev.lookup_stable [OF t(2) d(1)] t(1) by auto
    next
      fix a x r t assume t: "d' = d\<lparr>es_tab := t\<rparr>" "smon_set_evset a x (ev_tab d) (es_tab d) = Some (r, t)"
      show ?thesis using step.IH config_step_inv [OF step.hyps(2)] es.lookup_stable [OF t(2) d(2) d(1)] t(1) by auto
    qed
  qed
  then show ?thesis by blast
qed

theorem ids_stay_valid_witness:
  "\<exists>c'. config_step ex_config c' \<and> smon_get_event 0 (ev_tab c') = Some (Some ex_event) \<and>
     smon_get_evset 0 (es_tab c') = Some (Some ex_evset)"
proof -
  obtain r t where "smon_set_event True ex_event (ev_tab ex_config) = Some (r, t)"
    using event_set_spec [of "ev_tab ex_config"] ex_config_inv by (meson config_inv_def)
  then have s: "config_step ex_config (ex_config\<lparr>ev_tab := t\<rparr>)" by (rule set_event)
  have "smon_get_event 0 (ev_tab ex_config) = Some (Some ex_event)"
    "smon_get_evset 0 (es_tab ex_config) = Some (Some ex_evset)"
    by (simp_all add: smon_get_event_def smon_get_evset_def ex_config_def slot_load_def)
  with ids_stay_valid [OF ex_config_reach r_into_rtranclp [of config_step, OF s]] s show ?thesis by blast
qed

text \<open>
  C26: the answer to the registration of an event-set: the table is full, the allocation fails, an
  event is unknown, in this order of tests, and then the table is as it was; otherwise the event-set
  is found under the id that is the number of event-sets there were.
\<close>

theorem evset_registration:
  assumes "config_reach c"
  shows "\<exists>r t. smon_set_evset a s (ev_tab c) (es_tab c) = Some (r, t) \<and>
    r = (if n_evsets (es_tab c) = MAX_EVSETS then - SMEMAXES
         else if \<not> a then - SMENOMEM
         else if \<exists>e \<in> set (evids s). 0 \<le> sint e \<and> smon_get_event e (ev_tab c) = Some None then - SMENOEVT
         else 0) \<and>
    (r \<noteq> 0 \<longrightarrow> t = es_tab c) \<and>
    (r = 0 \<longrightarrow> smon_get_evset (n_evsets (es_tab c)) t = Some (Some s) \<and> n_evsets t = n_evsets (es_tab c) + 1)"
proof -
  have c: "event_inv (ev_tab c)" "evset_inv (es_tab c)"
    using config_reach_inv [OF assms] by (simp_all add: config_inv_def)
  from c(2) obtain arr where arr: "unat (n_evsets (es_tab c)) \<le> 64"
    "length (evset_entries (es_tab c)) = unat (n_evsets (es_tab c))" by (rule evset_invE)
  have refs: "(\<exists>e \<in> set (evids s). 0 \<le> sint e \<and> smon_get_event e (ev_tab c) = Some None) \<longleftrightarrow>
      \<not> evset_refs_ok (ev_tab c) s"
    by (auto simp: evset_refs_ok_def event_get_spec [OF c(1)])
  have ev: "evids_exist (ev_tab c) (evids s) = Some (evset_refs_ok (ev_tab c) s)"
    using c(1) by (simp add: evids_exist_spec evset_refs_ok_def)
  from evset_set_spec [OF c(2,1), of a s] obtain r t where
    t: "smon_set_evset a s (ev_tab c) (es_tab c) = Some (r, t)" by blast
  have full: "r = 0 \<Longrightarrow> smon_get_evset (n_evsets (es_tab c)) t = Some (Some s)"
    using es.lookup_new [of a s "ev_tab c" "es_tab c" t] t c arr(2) by simp
  show ?thesis unfolding refs
    by (intro exI [of _ r] exI [of _ t])
      (use t ev full in \<open>auto simp: smon_set_evset_def sme_defs bind_eq_Some_conv split: if_splits\<close>)
qed

theorem evset_registration_witness:
  "\<exists>t. smon_set_evset True (ex_evset\<lparr>evids := [1, - 1, - 1, - 1]\<rparr>) (ev_tab ex_config) (es_tab ex_config) =
     Some (- SMENOEVT, t)"
proof -
  have "smon_get_event 1 (ev_tab ex_config) = Some None" "n_evsets (es_tab ex_config) \<noteq> MAX_EVSETS"
    by (simp_all add: smon_get_event_def ex_config_def MAX_EVSETS_def)
  with evset_registration [OF ex_config_reach, of True "ex_evset\<lparr>evids := [1, - 1, - 1, - 1]\<rparr>"]
  show ?thesis by (auto simp: ex_evset_def)
qed

section \<open>Environments\<close>

text \<open>
  The event-sets of an environment take turns: in every round of as many advances as there are
  event-sets, each of them is the current one exactly once, in order, from the first one on.
\<close>

lemma evsets_take_turns:
  assumes "envir_wf e" and "j < unat (n_esids e)"
  shows "evset_after e (k * unat (n_esids e) + j) = Some (of_nat j)"
proof -
  from evset_after_round_robin [OF assms(1), of "k * unat (n_esids e) + j"] assms(2) obtain x where
    x: "evset_after e (k * unat (n_esids e) + j) = Some x" "unat x = j" by auto
  then show ?thesis by (metis of_nat_unat ucast_id)
qed

text \<open>
  The driver's copy of an environment keeps the event-set ids, has one reference and a sample time
  that is not zero; in the statistics mode it has the first event-set alone, and of the options only
  inheriting and starting at the first exec are left beside the mode.
\<close>

lemma envir_copy:
  assumes "smon_create_envir True e = Some e'"
  shows "envir_count e' = 1 \<and> esids e' = esids e \<and> sample_time e' \<noteq> 0 \<and>
    (if envir_option_stat e
     then n_esids e' = 1 \<and> envir_option_stat e' \<and> \<not> envir_option_rapl e' \<and> \<not> envir_option_cpu e' \<and>
       \<not> envir_option_fork e' \<and> \<not> envir_option_sched e' \<and>
       envir_option_inherit e' = envir_option_inherit e \<and> envir_option_exec e' = envir_option_exec e
     else n_esids e' = n_esids e \<and> options e' = options e)"
  using create_envir_fields [OF assms] create_envir_stat [OF assms] by auto

section \<open>Registers\<close>

text \<open>
  C19: what is read from the counters when a task is switched out is what they hold again after it is
  switched in, whatever other tasks did to the registers in between: reading them once more gives the
  same sample.
\<close>

theorem counters_restored:
  assumes "smon_pmc_read (Some s) m = Some p" and "length (evids s) = MAX_GP_CTRS"
  shows "smon_pmc_read (Some s) (smon_pmc_start s (smon_pmc_write p m')) = Some p"
proof -
  have w: "pmc_wf p" by (rule pmc_read_wf [OF assms])
  have d: "i < 4 \<Longrightarrow> IA32_FX_CTR i \<noteq> IA32_PERF_GLOBAL_CTRL" "i < 4 \<Longrightarrow> IA32_GP_CTR i \<noteq> IA32_PERF_GLOBAL_CTRL" for i
    using ctr_regs_disjoint(4,5) [of i 0] by simp_all
  have f: "smon_pmc_read (Some s) (smon_pmc_start s k) = smon_pmc_read (Some s) k" for k
    using assms(2) by (simp add: smon_pmc_read_def smon_pmc_start_def msr_read_write d MAX_FX_CTRS_def MAX_GP_CTRS_def
        in_set_enumerate_eq split_beta cong: map_cong if_cong)
  have "pmc_masked s p = p"
    using assms by (auto simp: smon_pmc_read_def pmc_masked_def in_set_enumerate_eq nth_enumerate_eq
        intro!: nth_equalityI)
  then show ?thesis unfolding f using pmc_read_write [OF w assms(2)] by simp
qed

theorem counters_restored_witness:
  "smon_pmc_read (Some ex_evset) (smon_pmc_start ex_evset (smon_pmc_write \<lparr>fx = [3, 0, 0], gp = [9, 0, 0, 0]\<rparr> ex_mach)) =
     Some \<lparr>fx = [3, 0, 0], gp = [9, 0, 0, 0]\<rparr>"
proof -
  define m where "m = ex_mach\<lparr>regs := (\<lambda>c r. if r = 0x309 then 3 else if r = 0x4C1 then 9 else 0)\<rparr>"
  have "smon_pmc_read (Some ex_evset) m = Some \<lparr>fx = [3, 0, 0], gp = [9, 0, 0, 0]\<rparr>"
    by (simp add: smon_pmc_read_def ex_evset_def m_def ex_mach_def msr_read_regs fx_enabled_def MAX_FX_CTRS_def
        ia32_defs upt_conv_Cons)
  from counters_restored [OF this] show ?thesis by (simp add: ex_evset_def MAX_GP_CTRS_def)
qed

text \<open>
  C35: the units that the information sample reports are the powers of two that the bits of the unit
  register stand for, except for the energy exponent 31, whose unit comes out negative.
\<close>

theorem rapl_units:
  "let r = unat (msr_read MSR_RAPL_POWER_UNIT m); u = smon_rapl_get_info m in
     sint (power_units u) = 2 ^ (r mod 16) \<and>
     sint (energy_units u) = (if r div 256 mod 32 = 31 then - (2 ^ 31) else 2 ^ (r div 256 mod 32)) \<and>
     sint (time_units u) = 2 ^ (r div 65536 mod 16)"
proof -
  define v where "v = msr_read MSR_RAPL_POWER_UNIT m"
  have m: "unat (v AND 0xf) = unat v mod 16"
    using unat_and_mask [of v 4] by (simp add: mask_eq_exp_minus_1)
  have sh: "unat (signed_drop_bit 8 v AND 0x1f) = unat v div 256 mod 32"
    "unat (signed_drop_bit 16 v AND 0xf) = unat v div 65536 mod 16"
  proof -
    have k: "(0x1f :: u64) = mask 5" "(0xf :: u64) = mask 4" by (simp_all add: mask_eq_exp_minus_1)
    have "signed_drop_bit 8 v AND 0x1f = drop_bit 8 v AND mask 5" unfolding k
      by (rule bit_word_eqI) (auto simp: bit_simps)
    moreover have "signed_drop_bit 16 v AND 0xf = drop_bit 16 v AND mask 4" unfolding k
      by (rule bit_word_eqI) (auto simp: bit_simps)
    ultimately show "unat (signed_drop_bit 8 v AND 0x1f) = unat v div 256 mod 32"
      "unat (signed_drop_bit 16 v AND 0xf) = unat v div 65536 mod 16"
      by (simp_all add: unat_and_mask drop_bit_eq_div unat_div)
  qed
  have b: "unat v mod 16 < 31" "unat v div 65536 mod 16 < 31" by (rule less_trans [of _ 16], simp_all)+
  have e: "unat v div 256 mod 32 < 31" if "unat v div 256 mod 32 \<noteq> 31"
    using that mod_less_divisor [of 32 "unat v div 256"] by linarith
  show ?thesis
    using b e by (auto simp: smon_rapl_get_info_def Let_def sh m sint_int_shift_1 int_shift_1_31 simp flip: v_def
        simp del: unat_and_mask)
qed

end
