(* ===== verification/Device_Mmap.thy ===== *)
theory Device_Mmap
  imports Ring_Fifo
begin

text \<open>
  The file operations of \<^verbatim>\<open>driver/main.c\<close> on a ring buffer: \<^verbatim>\<open>smon_mmap\<close> creates it,
  \<^verbatim>\<open>smon_vma_fault\<close> shows its pages, \<^verbatim>\<open>smon_poll\<close> tells the reader what there is to read. \<^verbatim>\<open>filp->private_data\<close> is an
  option: NULL before the mapping.
\<close>

definition POLLIN :: u32 where "POLLIN = 0x0001"
definition POLLRDNORM :: u32 where "POLLRDNORM = 0x0040"
definition POLLHUP :: u32 where "POLLHUP = 0x0010"
definition ENODEV :: i32 where "ENODEV = 19"

lemmas poll_defs = POLLIN_def POLLRDNORM_def POLLHUP_def

definition smon_poll :: "smon_ring_buffer option \<Rightarrow> u32" where
  "smon_poll private_data =
     (case private_data of
        None \<Rightarrow> 0
      | Some rb \<Rightarrow>
          if smon_rb_batch_available rb
          then if smon_rb_is_active rb then 0 OR (POLLIN OR POLLRDNORM) else 0 OR POLLHUP
          else if \<not> smon_rb_is_empty rb \<and> \<not> smon_rb_is_active rb then 0 OR POLLHUP
          else 0)"

definition is_power_of_2 :: "u64 \<Rightarrow> bool" where
  "is_power_of_2 n \<longleftrightarrow> n \<noteq> 0 \<and> n AND (n - 1) = 0"

text \<open>
  \<^verbatim>\<open>smon_create_rb\<close> takes an \<^verbatim>\<open>unsigned int\<close>: the number of pages is cut to 32 bits
  after the checks. The allocator's answers are arguments, as for \<^verbatim>\<open>smon_create_rb\<close>.
\<close>

definition smon_mmap ::
  "bool \<Rightarrow> bool \<Rightarrow> (nat \<Rightarrow> bool) \<Rightarrow> (nat \<Rightarrow> nat \<Rightarrow> u8) \<Rightarrow> u64 \<Rightarrow> u64 \<Rightarrow>
     smon_ring_buffer option \<Rightarrow> (i32 \<times> smon_ring_buffer option \<times> nat list) option" where
  "smon_mmap rb_ok data_ok page_ok junk vm_start vm_end private_data =
     (let n_pages = drop_bit PAGE_SHIFT (vm_end - vm_start)
      in if n_pages < 2 then Some (- ENODEV, private_data, [])
         else if \<not> is_power_of_2 n_pages then Some (- ENODEV, private_data, [])
         else do {
           (r, pages) \<leftarrow> smon_create_rb rb_ok data_ok page_ok junk (ucast n_pages);
           case r of
             None \<Rightarrow> Some (- ENODEV, private_data, pages)
           | Some rb \<Rightarrow> Some (0, Some rb, pages)
         })"

text \<open>\<^verbatim>\<open>smon_vma_close\<close> frees the buffer's pages and forgets the buffer: the pages freed.\<close>

definition smon_vma_close :: "smon_ring_buffer option \<Rightarrow> nat list \<times> smon_ring_buffer option" where
  "smon_vma_close vm_private_data =
     (case vm_private_data of
        None \<Rightarrow> ([], None)
      | Some rb \<Rightarrow> (smon_destroy_rb rb, None))"

text \<open>
  The handler of page faults in the mapping: the page at the offset \<open>pgoff\<close>, or none, which the kernel
  turns into an access error of the process.
\<close>

definition smon_vma_fault :: "smon_ring_buffer \<Rightarrow> u64 \<Rightarrow> (nat \<Rightarrow> u8) option" where
  "smon_vma_fault rb pgoff = smon_rb_get_page rb (ucast pgoff)"

section \<open>What poll reports\<close>

lemma poll_in:
  "smon_poll d AND POLLIN \<noteq> 0 \<longleftrightarrow> (\<exists>rb. d = Some rb \<and> smon_rb_batch_available rb \<and> smon_rb_is_active rb)"
  by (cases d) (auto simp: smon_poll_def poll_defs)

lemma poll_hup:
  "smon_poll d AND POLLHUP \<noteq> 0 \<longleftrightarrow>
     (\<exists>rb. d = Some rb \<and> \<not> smon_rb_is_active rb \<and> (smon_rb_batch_available rb \<or> \<not> smon_rb_is_empty rb))"
  by (cases d) (auto simp: smon_poll_def poll_defs)

section \<open>Powers of two\<close>

lemma and_pred_exp: "0 < m \<Longrightarrow> (m :: nat) AND (m - 1) = 0 \<Longrightarrow> \<exists>k. m = 2 ^ k"
proof (induction m rule: less_induct)
  case (less m)
  have r: "m AND (m - 1) =
      of_bool (odd m \<and> odd (m - 1)) + 2 * ((m div 2) AND ((m - 1) div 2))"
    by (rule and_rec)
  show ?case
  proof (cases "even m")
    case True
    then obtain j where j: "m = 2 * j" by (elim evenE)
    then have "0 < j" "(m - 1) div 2 = j - 1" using less.prems(1) by auto
    moreover from this have "j AND (j - 1) = 0" using r less.prems(2) j by simp
    ultimately obtain k where "j = 2 ^ k" using less.IH [of j] j by auto
    then show ?thesis using j by (intro exI [of _ "Suc k"]) simp
  next
    case False
    then obtain j where j: "m = 2 * j + 1" by (elim oddE)
    then have "j AND j = 0" using r less.prems(2) by simp
    then show ?thesis using j by (intro exI [of _ 0]) simp
  qed
qed

lemma power_of_2_unat:
  assumes "is_power_of_2 n"
  obtains k where "unat n = 2 ^ k"
proof -
  have n: "n \<noteq> 0" "n AND (n - 1) = 0" using assms by (simp_all add: is_power_of_2_def)
  have "unat n AND unat (n - 1) = 0"
    using n(2) unsigned_and_eq [of n "n - 1", where 'a = nat] by simp
  moreover have "unat (n - 1) = unat n - 1" using n(1) by (simp add: unat_minus_one)
  moreover have "0 < unat n" using n(1) by (simp add: unat_gt_0)
  ultimately show thesis using and_pred_exp [of "unat n"] that by auto
qed

lemma power_of_2I:
  assumes "unat (n :: u64) = 2 ^ k"
  shows "is_power_of_2 n"
proof -
  have n0: "n \<noteq> 0" using assms by auto
  have "(2 ^ k :: nat) AND mask k = 0" by (simp add: take_bit_eq_mask [symmetric])
  then have "(2 ^ k :: nat) AND (2 ^ k - 1) = 0" by (simp add: mask_eq_exp_minus_1)
  then have "unat n AND unat (n - 1) = 0" using n0 assms by (simp add: unat_minus_one)
  then have "unat (n AND (n - 1)) = 0" by (simp add: unsigned_and_eq)
  then have "n AND (n - 1) = 0" by (metis unat_eq_zero)
  then show ?thesis using n0 by (simp add: is_power_of_2_def)
qed

text \<open>A mapping that succeeds gives the file an empty buffer of the right shape.\<close>

lemma mmap_holds:
  assumes "smon_mmap a b ok junk vs ve d = Some (0, Some rb, ps)"
    and "drop_bit PAGE_SHIFT (ve - vs) < 2 ^ 32"
  shows "rb_inv rb []" "unat (rb_n_pages rb) = unat (drop_bit PAGE_SHIFT (ve - vs))" "rb_active rb = 0"
    "rb_tail rb = 0" "rb_size rb = rb_n_pages rb * PAGE_SIZE"
proof -
  define n where "n = drop_bit PAGE_SHIFT (ve - vs)"
  have n: "\<not> n < 2" "is_power_of_2 n"
    and c: "smon_create_rb a b ok junk (ucast n) = Some (Some rb, ps)"
    using assms(1)
    by (auto simp: smon_mmap_def Let_def ENODEV_def bind_eq_Some_conv simp flip: n_def
        split: if_splits option.splits)
  from n(2) obtain k where k: "unat n = 2 ^ k" by (rule power_of_2_unat)
  have u: "unat (ucast n :: u32) = unat n"
    using assms(2) unfolding unat_ucast by (simp add: word_less_nat_alt flip: n_def)
  have "2 \<le> unat n" using n(1) by (simp add: word_less_nat_alt)
  then have "1 \<le> k" using k by (cases k) auto
  from create_rb_holds [OF c _ this] u k
  show "rb_inv rb []" "unat (rb_n_pages rb) = unat (drop_bit PAGE_SHIFT (ve - vs))" "rb_active rb = 0"
    by (auto simp: n_def)
  show "rb_tail rb = 0" "rb_size rb = rb_n_pages rb * PAGE_SIZE"
    using c by (auto simp: smon_create_rb_def bind_eq_Some_conv split: if_splits option.splits)
qed

section \<open>Mappings of \<open>2\<^sup>3\<^sup>2\<close> pages or more\<close>

lemma cut_pages:
  assumes "unat (n :: u64) = 2 ^ k" and "32 \<le> k"
  shows "(ucast n :: u32) = 0"
proof -
  have "unat (ucast n :: u32) = 2 ^ k mod 2 ^ 32" using assms(1) by (simp add: unat_ucast take_bit_eq_mod)
  also have "\<dots> = 0" using le_imp_power_dvd [OF assms(2), of "2 :: nat"] by (rule dvd_imp_mod_0)
  finally show ?thesis by (metis unat_eq_zero)
qed

lemma mmap_huge:
  assumes "unat (drop_bit PAGE_SHIFT (ve - vs)) = 2 ^ k" and "32 \<le> k"
  obtains rb where "smon_mmap True True ok junk vs ve d = Some (0, Some rb, [])" "rb_n_pages rb = 0"
proof -
  define n where "n = drop_bit PAGE_SHIFT (ve - vs)"
  have "(2 :: nat) ^ 1 \<le> 2 ^ k" using assms(2) by (intro power_increasing) simp_all
  then have "\<not> n < 2" "is_power_of_2 n" "(ucast n :: u32) = 0"
    using assms power_of_2I [of n k] cut_pages [of n k] by (simp_all add: word_less_nat_alt n_def)
  then show thesis using that by (simp add: smon_mmap_def Let_def smon_create_rb_def flip: n_def)
qed

lemma mmap_huge_rb:
  assumes "smon_mmap a b ok junk vs ve d = Some (0, Some rb, ps)" and "\<not> drop_bit PAGE_SHIFT (ve - vs) < 2 ^ 32"
  shows "rb_n_pages rb = 0" "sample_size_of ty = Some sz \<Longrightarrow> smon_rb_write ty s rb = None"
proof -
  define n where "n = drop_bit PAGE_SHIFT (ve - vs)"
  have n: "is_power_of_2 n" and c: "smon_create_rb a b ok junk (ucast n) = Some (Some rb, ps)"
    using assms(1)
    by (auto simp: smon_mmap_def Let_def ENODEV_def bind_eq_Some_conv simp flip: n_def
        split: if_splits option.splits)
  from n obtain k where k: "unat n = 2 ^ k" by (rule power_of_2_unat)
  have "2 ^ 32 \<le> unat n" using assms(2) by (simp add: word_less_nat_alt flip: n_def)
  then have "32 \<le> k" using k by (metis one_less_numeral_iff power_le_imp_le_exp semiring_norm(76))
  then have "(ucast n :: u32) = 0" by (rule cut_pages [OF k])
  then have rb: "rb_n_pages rb = 0" "rb_size rb = 0" "rb_head rb = 0" "rb_tail rb = 0"
    using c by (auto simp: smon_create_rb_def split: if_splits)
  then show "rb_n_pages rb = 0" by simp
  show "smon_rb_write ty s rb = None" if "sample_size_of ty = Some sz"
  proof -
    from that have "sz \<le> 96" by (auto simp: sample_size_of_def sizeof_defs split: if_splits)
    then show ?thesis using that rb
      by (simp add: smon_rb_write_def rb_put_def rb_copy_def Let_def header_size_def RB_SPACE_def RB_SPACE_of_def
          RB_COUNT_of_def RB_PAGE_SPACE_def HEAD_PAGE_def HEAD_OFFSET_def smon_rb_stuff_page_def)
  qed
qed

lemma mmap_first_page:
  assumes "unat (drop_bit PAGE_SHIFT (ve - vs)) = 2 ^ k" and "0 < k" and "k \<le> 10" and "\<not> ok 0"
  shows "smon_mmap True True ok junk vs ve d = None"
proof -
  define n where "n = drop_bit PAGE_SHIFT (ve - vs)"
  have "(2 :: nat) ^ 1 \<le> 2 ^ k" "(2 :: nat) ^ k \<le> 2 ^ 10" using assms(2,3) by (intro power_increasing; simp)+
  then have b: "2 \<le> unat n" "unat n \<le> 1024" using assms(1) by (simp_all add: n_def)
  have u: "unat (ucast n :: u32) = unat n" using b by (simp add: unat_ucast take_bit_eq_mod)
  have "first_failure ok (unat n) = Some 0" using assms(4) b(1) by (simp add: first_failure_Some)
  moreover have "\<not> n < 2" "\<not> ucast n > SMON_MAX_PAGES"
    using b u by (simp_all add: word_less_nat_alt SMON_MAX_PAGES_def)
  ultimately show ?thesis using power_of_2I [of n k] assms(1)
    by (simp add: smon_mmap_def Let_def smon_create_rb_def u flip: n_def)
qed

lemma mmap_sizes:
  fixes ve vs :: u64 and junk :: "nat \<Rightarrow> nat \<Rightarrow> u8" and d :: "smon_ring_buffer option"
  defines "n \<equiv> unat (drop_bit PAGE_SHIFT (ve - vs))" and "m \<equiv> smon_mmap True True (\<lambda>_. True) junk vs ve d"
  shows "if n \<in> (^) 2 ` {1..10}
    then \<exists>rb ps. m = Some (0, Some rb, ps) \<and> rb_inv rb [] \<and> unat (rb_n_pages rb) = n \<and> rb_active rb = 0
    else if n \<in> (^) 2 ` {32..51} then \<exists>rb. m = Some (0, Some rb, []) \<and> rb_n_pages rb = 0
    else m = Some (- ENODEV, d, [])"
proof -
  define w where "w = drop_bit PAGE_SHIFT (ve - vs)"
  have nw: "n = unat w" by (simp add: n_def w_def)
  have top: "n < 2 ^ 52"
  proof -
    have "unat (ve - vs) < 2 ^ 64" by (rule order_less_le_trans [OF unsigned_less]) simp
    then have "unat (ve - vs) div 2 ^ 12 < 2 ^ 52" by (simp add: less_mult_imp_div_less)
    then show ?thesis by (simp add: n_def PAGE_SHIFT_def unat_drop_bit_eq drop_bit_eq_div unat_div)
  qed
  consider k where "n = 2 ^ k" "k \<in> {1..10}" | k where "n = 2 ^ k" "k \<in> {32..51}"
    | "n \<notin> (^) 2 ` {1..10}" "n \<notin> (^) 2 ` {32..51}" by blast
  then show ?thesis
  proof cases
    case (1 k)
    have "(2 :: nat) ^ 1 \<le> 2 ^ k" "(2 :: nat) ^ k \<le> 2 ^ 10" using 1 by (intro power_increasing; simp)+
    then have b: "2 \<le> n" "n \<le> 1024" using 1 by simp_all
    then have lt: "drop_bit PAGE_SHIFT (ve - vs) < 2 ^ 32" by (simp add: word_less_nat_alt n_def)
    have u: "unat (ucast w :: u32) = n"
      using b by (simp add: nw unat_ucast take_bit_eq_mod)
    have c: "\<not> w < 2" "\<not> ucast w > SMON_MAX_PAGES"
      using b u by (simp_all add: word_less_nat_alt SMON_MAX_PAGES_def nw)
    obtain rb ps where r: "m = Some (0, Some rb, ps)"
      using c power_of_2I [of w k] 1(1)
      by (simp add: nw m_def smon_mmap_def Let_def smon_create_rb_def first_failure_None [THEN iffD2] flip: w_def)
    from mmap_holds [OF r [unfolded m_def] lt] r 1 show ?thesis by (auto simp flip: n_def)
  next
    case (2 k)
    have "n \<notin> (^) 2 ` {1..10}"
    proof
      assume "n \<in> (^) 2 ` {1..10}"
      then obtain j where "(2 :: nat) ^ j = 2 ^ k" "j \<le> 10" using 2 by auto
      then show False using 2(2) by simp
    qed
    moreover from mmap_huge [of ve vs k "\<lambda>_. True" junk d] 2 obtain rb where
      "m = Some (0, Some rb, [])" "rb_n_pages rb = 0" by (auto simp: n_def m_def)
    ultimately show ?thesis using 2 by auto
  next
    case 3
    have "w < 2 \<or> \<not> is_power_of_2 w \<or> ucast w > SMON_MAX_PAGES"
    proof (rule ccontr)
      assume a: "\<not> (w < 2 \<or> \<not> is_power_of_2 w \<or> ucast w > SMON_MAX_PAGES)"
      then obtain k where k: "n = 2 ^ k" using power_of_2_unat nw by metis
      have "2 \<le> n" using a by (simp add: nw word_less_nat_alt)
      then have "1 \<le> k" using k by (cases k) auto
      moreover have "k < 52" using top unfolding k by (rule power_less_imp_less_exp [rotated]) simp
      ultimately have r: "10 < k" "k < 32" using 3 k by (force simp: image_iff)+
      then have "(2 :: nat) ^ 11 \<le> 2 ^ k" "(2 :: nat) ^ k \<le> 2 ^ 31" by (intro power_increasing; simp)+
      then have "unat (ucast w :: u32) = n" "2048 \<le> n" using k by (simp_all add: nw unat_ucast take_bit_eq_mod)
      then show False using a by (simp add: word_less_nat_alt SMON_MAX_PAGES_def)
    qed
    then have "m = Some (- ENODEV, d, [])"
      by (auto simp: m_def smon_mmap_def Let_def smon_create_rb_def simp flip: w_def)
    then show ?thesis using 3 by simp
  qed
qed

end
