(* ===== verification/User_Rb.thy ===== *)
theory User_Rb
  imports Device_Mmap
begin

text \<open>
  \<^verbatim>\<open>tool/src/rb.c\<close>: the reader's cursor over the mapped ring buffer. The reader's memory is
  a function from addresses to bytes, \<open>None\<close> where nothing is mapped: a load there is a fault.
\<close>

record smon_rb =
  ur_addr :: u64
  ur_tail :: u64
  ur_size :: u32
  ur_n_pages :: u32
  ur_consumed :: u32

definition smon_rb_init :: "u64 \<Rightarrow> u32 \<Rightarrow> smon_rb" where
  "smon_rb_init addr mmap_pages =
     \<lparr>ur_addr = addr, ur_tail = 0, ur_size = mmap_pages * PAGE_SIZE, ur_n_pages = mmap_pages,
      ur_consumed = 0\<rparr>"

definition smon_rb_page :: "smon_rb \<Rightarrow> u32" where
  "smon_rb_page rb = ucast (drop_bit PAGE_SHIFT (ur_tail rb))"

definition smon_rb_offset :: "smon_rb \<Rightarrow> u32" where
  "smon_rb_offset rb = ucast (ur_tail rb AND ucast (PAGE_SIZE - 1))"

definition smon_rb_cursor :: "smon_rb \<Rightarrow> u64" where
  "smon_rb_cursor rb = ur_addr rb + ur_tail rb"

definition smon_rb_consume :: "u32 \<Rightarrow> smon_rb \<Rightarrow> smon_rb" where
  "smon_rb_consume sz rb =
     (let tmp = ur_tail rb;
          tmp = tmp + ucast sz;
          tmp = tmp AND ucast (push_bit PAGE_SHIFT (ur_n_pages rb - 1) OR (PAGE_SIZE - 1))
      in rb\<lparr>ur_tail := tmp, ur_consumed := ur_consumed rb + sz\<rparr>)"

definition smon_rb_flush :: "smon_rb \<Rightarrow> u32 \<times> smon_rb" where
  "smon_rb_flush rb = (ur_consumed rb, rb\<lparr>ur_consumed := 0\<rparr>)"

definition smon_rb_count :: "smon_rb \<Rightarrow> u64 \<Rightarrow> u64 \<Rightarrow> u32" where
  "smon_rb_count rb from to = ucast (to - from) AND (ur_size rb - 1)"

definition smon_rb_page_next :: "smon_rb \<Rightarrow> smon_rb" where
  "smon_rb_page_next rb =
     (let old_tail = ur_tail rb;
          rb = rb\<lparr>ur_tail := ur_tail rb + push_bit PAGE_SHIFT 1\<rparr>;
          rb = rb\<lparr>ur_tail := ur_tail rb AND ucast (push_bit PAGE_SHIFT (ur_n_pages rb - 1))\<rparr>
      in rb\<lparr>ur_consumed := ur_consumed rb + smon_rb_count rb old_tail (ur_tail rb)\<rparr>)"

section \<open>Mapped memory\<close>

text \<open>
  The mapping of a ring buffer at the address \<open>addr\<close>, filled page by page by the driver's
  \<open>smon_vma_fault\<close>; a page that it does not return is an access error.
\<close>

definition mapped :: "u64 \<Rightarrow> smon_ring_buffer \<Rightarrow> u64 \<Rightarrow> u8 option" where
  "mapped addr rb a =
     (let k = a - addr
      in if unat k < unat (rb_size rb)
         then map_option (\<lambda>page. page (unat (k AND 0xFFF))) (smon_vma_fault rb (drop_bit PAGE_SHIFT k))
         else None)"

definition load :: "(u64 \<Rightarrow> u8 option) \<Rightarrow> u64 \<Rightarrow> nat \<Rightarrow> u8 list option" where
  "load mem a n = those (map (\<lambda>i. mem (a + of_nat i)) [0..<n])"

lemma mapped_flat:
  assumes "rb_geom rb" and "k < rb_cap rb"
  shows "mapped addr rb (addr + of_nat k) = Some (flat rb k)"
proof -
  note b = rb_geom_bounds [OF assms(1)]
  have k: "k < 4194304" using assms(2) b(9) by linarith
  then have u: "unat (of_nat k :: u64) = k" by (simp add: unat_of_nat)
  have m: "(0xFFF :: u64) = mask 12" by (simp add: mask_eq_exp_minus_1)
  have o: "unat ((of_nat k :: u64) AND 0xFFF) = k mod 4096"
    unfolding m unat_and_mask u by simp
  have p: "unat (drop_bit 12 (of_nat k :: u64)) = k div 4096"
    unfolding unat_drop_bit_eq u by (simp add: drop_bit_eq_div)
  have "k div 4096 < unat (rb_n_pages rb)"
    using assms(2) b(5) by (simp add: div_less_iff_less_mult mult.commute)
  moreover have p': "unat (ucast (drop_bit 12 (of_nat k :: u64)) :: u32) = k div 4096"
    unfolding unat_ucast p using k by simp
  ultimately have "ucast (drop_bit 12 (of_nat k :: u64)) < rb_n_pages rb"
    by (simp add: word_less_nat_alt)
  then show ?thesis
    using assms(2) u o p' unfolding mapped_def
    by (simp add: Let_def rb_cap_def smon_vma_fault_def smon_rb_get_page_def PAGE_SHIFT_def flat_def)
qed

lemma those_map_Some: "(\<And>x. x \<in> set xs \<Longrightarrow> f x = Some (g x)) \<Longrightarrow> those (map f xs) = Some (map g xs)"
  by (induction xs) auto

text \<open>A load of bytes of one page yields the bytes the layout speaks of.\<close>

lemma load_rd:
  assumes g: "rb_geom rb" and "p mod 4096 + n \<le> 4096"
  shows "load (mapped addr rb) (addr + of_nat (p mod rb_cap rb)) n = Some (rd (flat rb) (rb_cap rb) p n)"
  unfolding load_def rd_def
proof (rule those_map_Some)
  fix i assume "i \<in> set [0..<n]"
  then have i: "p mod 4096 + i < 4096" using assms(2) by simp
  note b = rb_geom_bounds [OF g]
  have e: "(p + i) mod rb_cap rb = p mod rb_cap rb + i"
    using b(6) i by (rule add_mod_of_same_block)
  have "(p + i) mod rb_cap rb < rb_cap rb" using b(8) by simp
  from mapped_flat [OF g this, of addr] show
    "mapped addr rb (addr + of_nat (p mod rb_cap rb) + of_nat i) = Some (flat rb ((p + i) mod rb_cap rb))"
    unfolding e by (simp add: add.assoc)
qed

section \<open>Moving the cursor\<close>

text \<open>The reader's cursor is at the position \<open>p\<close> of the mapping of \<open>rb\<close>.\<close>

definition at_pos :: "smon_ring_buffer \<Rightarrow> nat \<Rightarrow> smon_rb \<Rightarrow> bool" where
  "at_pos rb p u \<longleftrightarrow> ur_tail u = of_nat (p mod rb_cap rb) \<and> ur_n_pages u = rb_n_pages rb \<and>
     ur_size u = rb_size rb"

definition ur_advance :: "smon_ring_buffer \<Rightarrow> nat \<Rightarrow> nat \<Rightarrow> smon_rb \<Rightarrow> smon_rb" where
  "ur_advance rb p q u =
     u\<lparr>ur_tail := of_nat (q mod rb_cap rb), ur_consumed := ur_consumed u + of_nat (q - p)\<rparr>"

lemma at_pos_advance: "at_pos rb p u \<Longrightarrow> at_pos rb q (ur_advance rb p q u)"
  by (simp add: at_pos_def ur_advance_def)

lemma ur_advance_trans:
  "p \<le> q \<Longrightarrow> q \<le> r \<Longrightarrow> ur_advance rb q r (ur_advance rb p q u) = ur_advance rb p r u"
  by (simp add: ur_advance_def flip: of_nat_add)

lemma ur_advance_refl: "at_pos rb p u \<Longrightarrow> ur_advance rb p p u = u"
  by (simp add: at_pos_def ur_advance_def)

lemma ur_advance_addr [simp]: "ur_addr (ur_advance rb p q u) = ur_addr u"
  by (simp add: ur_advance_def)

lemma cursor_at_pos: "at_pos rb p u \<Longrightarrow> smon_rb_cursor u = ur_addr u + of_nat (p mod rb_cap rb)"
  by (simp add: smon_rb_cursor_def at_pos_def)

lemma ucast_mask_32_64: "k \<le> 32 \<Longrightarrow> (ucast (mask k :: u32) :: u64) = mask k"
  by (rule bit_word_eqI) (auto simp: bit_simps)

lemma ucast_of_nat_small: "n < 2 ^ 32 \<Longrightarrow> (ucast (of_nat n :: u32) :: u64) = of_nat n"
  by (rule word_unat_eqI) (simp add: unat_ucast unat_of_nat)

lemma consume_at_pos:
  assumes g: "rb_geom rb" and u: "at_pos rb p u" and "n < 4194304"
  shows "smon_rb_consume (of_nat n) u = ur_advance rb p (p + n) u"
proof -
  from g obtain k where k: "k \<le> 10" "rb_n_pages rb = 2 ^ k" "rb_cap rb = 2 ^ (12 + k)"
    by (rule rb_geomE)
  note b = rb_geom_bounds [OF g]
  have m: "push_bit PAGE_SHIFT (ur_n_pages u - 1) OR (PAGE_SIZE - 1) = mask (12 + k)"
    using u k(2) unfolding page_mask PAGE_SHIFT_def by (simp add: at_pos_def exp_minus_1_mask trim_mask)
  have "p mod rb_cap rb < rb_cap rb" using b(8) by simp
  then have s: "unat (of_nat (p mod rb_cap rb) + of_nat n :: u64) = p mod rb_cap rb + n"
    using assms(3) b(9) by (simp add: unat_of_nat flip: of_nat_add)
  have "(of_nat (p mod rb_cap rb) + of_nat n :: u64) AND mask (12 + k) = of_nat ((p + n) mod rb_cap rb)"
  proof (rule word_unat_eqI)
    have "(p + n) mod rb_cap rb < rb_cap rb" using b(8) by simp
    then have "(p + n) mod rb_cap rb < 4194304" using b(9) by linarith
    then show "unat ((of_nat (p mod rb_cap rb) + of_nat n :: u64) AND mask (12 + k)) =
        unat (of_nat ((p + n) mod rb_cap rb) :: u64)"
      unfolding unat_and_mask s by (simp add: unat_of_nat k(3) [symmetric] mod_add_left_eq)
  qed
  then show ?thesis
    using u k(1) assms(3) unfolding smon_rb_consume_def m
    by (simp add: Let_def at_pos_def ur_advance_def ucast_mask_32_64 ucast_of_nat_small)
qed

lemma and_push_mask: "(x :: u64) AND push_bit 12 (mask k) = push_bit 12 (take_bit k (drop_bit 12 x))"
  by (rule bit_word_eqI) (auto simp: bit_simps)

lemma unat_and_push_mask:
  assumes "k \<le> 10"
  shows "unat ((x :: u64) AND push_bit 12 (mask k)) = (unat x div 4096) * 4096 mod 2 ^ (12 + k)"
proof -
  define y where "y = take_bit k (drop_bit 12 x)"
  have u: "unat y = unat x div 4096 mod 2 ^ k"
    unfolding y_def unsigned_take_bit_eq unat_drop_bit_eq
    by (simp only: take_bit_eq_mod drop_bit_eq_div) simp
  have "unat x div 4096 mod 2 ^ k < (2::nat) ^ k" by simp
  also have "(2::nat) ^ k \<le> 2 ^ 10" using assms by (intro power_increasing) auto
  finally have "unat (push_bit 12 y) = 4096 * unat y"
    by (simp add: push_bit_eq_mult unat_word_ariths u)
  moreover have "4096 * (unat x div 4096 mod 2 ^ k) = 4096 * (unat x div 4096) mod 2 ^ (12 + k)"
    by (simp only: mult_mod_right power_add) simp
  ultimately show ?thesis by (simp only: and_push_mask y_def [symmetric] u mult.commute [of _ 4096])
qed

lemma ucast_push_mask: "k \<le> 10 \<Longrightarrow> (ucast (push_bit 12 (mask k :: u32)) :: u64) = push_bit 12 (mask k)"
  by (rule bit_word_eqI) (auto simp: bit_simps)

lemma unat_rb_count:
  assumes "rb_geom rb" and "ur_size u = rb_size rb" and "unat b \<le> rb_cap rb"
  shows "unat (smon_rb_count u b e) = (unat e + rb_cap rb - unat b) mod rb_cap rb"
proof -
  from assms(1) obtain k where k: "k \<le> 10" "rb_size rb = 2 ^ (12 + k)" "rb_cap rb = 2 ^ (12 + k)"
    by (rule rb_geomE)
  have d: "(2::nat) ^ (12 + k) dvd 2 ^ LENGTH(32)"
    by (rule le_imp_power_dvd) (use k(1) in simp)
  have "unat (ucast (e - b) :: u32) mod 2 ^ (12 + k) = unat (e - b) mod 2 ^ (12 + k)"
    unfolding unat_ucast by (rule mod_mod_cancel [OF d])
  moreover have "unat (e - b) mod 2 ^ (12 + k) = (unat e + 2 ^ (12 + k) - unat b) mod 2 ^ (12 + k)"
    using assms(3) k by (intro unat_diff_mod_exp) simp_all
  ultimately show ?thesis
    unfolding smon_rb_count_def assms(2) k(2,3) exp_minus_1_mask unat_and_mask by simp
qed

lemma page_next_at_pos:
  assumes g: "rb_geom rb" and u: "at_pos rb p u"
  shows "smon_rb_page_next u = ur_advance rb p (next_page p) u"
proof -
  from g obtain k where k: "k \<le> 10" "rb_n_pages rb = 2 ^ k" "rb_cap rb = 2 ^ (12 + k)"
    by (rule rb_geomE)
  note b = rb_geom_bounds [OF g]
  define S t where "S = rb_cap rb" and "t = p mod S"
  define tail' where "tail' = (ur_tail u + push_bit PAGE_SHIFT 1) AND
      ucast (push_bit PAGE_SHIFT (ur_n_pages u - 1))"
  have t: "t < S" "S \<le> 4194304" "8192 \<le> S" using b(8,9) by (simp_all add: t_def S_def)
  have ut: "ur_tail u = of_nat t" using u by (simp add: at_pos_def t_def S_def)
  moreover have "t < 2 ^ LENGTH(64)" using t by simp
  ultimately have "unat (ur_tail u) = t" by (metis unat_of_nat mod_less)
  note ut = ut this
  have n: "ur_n_pages u = 2 ^ k" using u k(2) by (simp add: at_pos_def)
  have sum: "unat (ur_tail u + push_bit 12 1) = t + 4096"
    using t ut(2) by (simp add: unat_word_ariths)
  have "unat tail' = (t + 4096) div 4096 * 4096 mod S"
    unfolding tail'_def PAGE_SHIFT_def n exp_minus_1_mask ucast_push_mask [OF k(1)]
      unat_and_push_mask [OF k(1)] sum by (simp add: S_def k(3))
  also have "(t + 4096) div 4096 = t div 4096 + 1" by simp
  finally have nt: "unat tail' = next_page t mod S" by (simp only: next_page_def)
  then have nt': "unat tail' = next_page p mod S"
    using next_page_mod [OF b(6), of p] by (simp add: t_def S_def)
  have tl: "tail' = of_nat (next_page p mod S)"
    by (rule word_unat_eqI) (use t in \<open>simp add: nt' unat_of_nat less_le_trans [OF mod_less_divisor]\<close>)
  have "t mod 4096 = p mod 4096" using b(6) by (simp add: t_def S_def mod_mod_cancel)
  then have d: "next_page t - t = next_page p - p" by (simp add: next_page_eq)
  have "next_page t < t + S" using t by (simp add: next_page_eq)
  then have "(next_page t mod S + S - t) mod S = next_page t - t"
    using t next_page_gt [of t] by (intro count_span) simp_all
  then have "unat (smon_rb_count (u\<lparr>ur_tail := tail'\<rparr>) (ur_tail u) tail') = next_page p - p"
    using unat_rb_count [OF g, of "u\<lparr>ur_tail := tail'\<rparr>" "ur_tail u" tail'] u t ut nt d
    by (simp add: at_pos_def S_def)
  moreover have "next_page p - p < 2 ^ 32" by (simp add: next_page_eq)
  ultimately have c: "smon_rb_count (u\<lparr>ur_tail := tail'\<rparr>) (ur_tail u) tail' = of_nat (next_page p - p)"
    by (intro word_unat_eqI) (simp add: unat_of_nat)
  have "smon_rb_page_next u =
      u\<lparr>ur_tail := tail', ur_consumed := ur_consumed u + smon_rb_count (u\<lparr>ur_tail := tail'\<rparr>) (ur_tail u) tail'\<rparr>"
    unfolding smon_rb_page_next_def tail'_def by (simp add: Let_def)
  then show ?thesis unfolding c unfolding tl by (simp add: ur_advance_def S_def)
qed

end
