(* ===== verification/Reader.thy ===== *)
theory Reader
  imports User_Rb Ring_Fifo Sample_Data
begin

text \<open>
  \<^verbatim>\<open>read_samples\<close> of \<^verbatim>\<open>tool/src/profile.c\<close>, the loop that takes samples out of the mapped
  buffer, and its agreement with the driver's ring buffer: what was written is what is printed.
  A load outside the mapping and a loop that does not end are both the value \<open>None\<close>.
\<close>

section \<open>The loop\<close>

datatype read_result = Printed smon_sample | Next_page | End_of_file | Unknown

definition take_sample ::
  "(u64 \<Rightarrow> u8 option) \<Rightarrow> nat \<Rightarrow> (u8 list \<Rightarrow> smon_sample) \<Rightarrow> smon_rb \<Rightarrow> (read_result \<times> smon_rb) option" where
  "take_sample mem n dec rb =
     (let rb = smon_rb_consume (of_nat header_size) rb
      in do {
        bs \<leftarrow> load mem (smon_rb_cursor rb) n;
        Some (Printed (dec bs), smon_rb_consume (of_nat n) rb)
      })"

definition take_info :: "(u64 \<Rightarrow> u8 option) \<Rightarrow> smon_rb \<Rightarrow> (read_result \<times> smon_rb) option" where
  "take_info mem rb =
     (let sample_header = smon_rb_cursor rb;
          rb = smon_rb_consume (of_nat header_size) rb
      in do {
        bs \<leftarrow> load mem (sample_header + of_nat header_size) sizeof_info;
        Some (Printed (InfoSample (dec_info bs)), smon_rb_consume (of_nat sizeof_info) rb)
      })"

text \<open>The body of the loop: the \<^verbatim>\<open>switch\<close> on the type of the header at the cursor.\<close>

definition read_one :: "(u64 \<Rightarrow> u8 option) \<Rightarrow> smon_rb \<Rightarrow> (read_result \<times> smon_rb) option" where
  "read_one mem rb = do {
     hdr \<leftarrow> load mem (smon_rb_cursor rb) header_size;
     let ty = (le_word hdr :: u32);
     if ty = SAMPLE_TYPE_PMC then take_sample mem sizeof_pmc (\<lambda>bs. PmcSample (dec_pmc bs)) rb
     else if ty = SAMPLE_TYPE_RAPL then take_sample mem sizeof_rapl (\<lambda>bs. RaplSample (dec_rapl bs)) rb
     else if ty = SAMPLE_TYPE_CPU then take_sample mem sizeof_cpu (\<lambda>bs. CpuSample (dec_cpu bs)) rb
     else if ty = SAMPLE_TYPE_SCHED then take_sample mem sizeof_sched (\<lambda>bs. SchedSample (dec_sched bs)) rb
     else if ty = SAMPLE_TYPE_FORK then take_sample mem sizeof_fork (\<lambda>bs. ForkSample (dec_fork bs)) rb
     else if ty = SAMPLE_TYPE_INFO then take_info mem rb
     else if ty = SAMPLE_TYPE_PAD then Some (Next_page, smon_rb_page_next rb)
     else if ty = SAMPLE_TYPE_EOF then Some (End_of_file, rb)
     else Some (Unknown, rb)
   }"

text \<open>
  A pad decrements \<open>n_samples\<close> before the loop increments it; the end of file is counted. The first
  component of the result is false at the early return on an unknown header.
\<close>

partial_function (option) read_loop ::
  "(u64 \<Rightarrow> u8 option) \<Rightarrow> i32 \<Rightarrow> nat \<Rightarrow> bool \<Rightarrow> smon_rb \<Rightarrow> smon_sample list \<Rightarrow>
   (bool \<times> nat \<times> smon_rb \<times> smon_sample list) option" where
  "read_loop mem nr n eof rb out =
     (if int n < sint nr \<and> \<not> eof
      then Option.bind (read_one mem rb) (\<lambda>r. case r of
          (Printed s, rb') \<Rightarrow> read_loop mem nr (n + 1) eof rb' (out @ [s])
        | (Next_page, rb') \<Rightarrow> read_loop mem nr n eof rb' out
        | (End_of_file, rb') \<Rightarrow> read_loop mem nr (n + 1) True rb' out
        | (Unknown, rb') \<Rightarrow> Some (False, n, rb', out))
      else Some (True, n, rb, out))"

text \<open>
  The result: what \<^verbatim>\<open>read_samples\<close> returns, the arguments of its call to
  \<^verbatim>\<open>smon_read_samples\<close> if it makes one, the cursor and the samples printed.
\<close>

definition read_samples ::
  "(u64 \<Rightarrow> u8 option) \<Rightarrow> i32 \<Rightarrow> smon_rb \<Rightarrow> (i32 \<times> (u32 \<times> u32) option \<times> smon_rb \<times> smon_sample list) option"
where
  "read_samples mem nr_samples rb = do {
     (ok, n_samples, rb, out) \<leftarrow> read_loop mem nr_samples 0 False rb [];
     if \<not> ok then Some (- 1, None, rb, out)
     else let (bytes, rb) = smon_rb_flush rb
          in Some (0, Some (of_nat n_samples, bytes), rb, out)
   }"

section \<open>One item\<close>

lemma header_load:
  assumes "rb_geom rb" and "at_pos rb p u" and "p mod 4096 + 4 \<le> 4096"
    and "rd (flat rb) (rb_cap rb) p 4 = le_bytes 4 ty"
  shows "load (mapped (ur_addr u) rb) (smon_rb_cursor u) header_size = Some (le_bytes 4 ty)"
  using load_rd [OF assms(1,3), of "ur_addr u"] assms(2,4)
  by (simp add: cursor_at_pos header_size_def)

lemma rec_header:
  assumes "item_at m S p (Rec ty bs)"
  shows "p mod 4096 + 4 + length bs \<le> 4096" "rd m S p 4 = le_bytes 4 ty" "rd m S (p + 4) (length bs) = bs"
  using assms rd_append [of m S p 4 "length bs"] by (auto simp: header_size_def len_simps)

lemma consume_header:
  "rb_geom rb \<Longrightarrow> at_pos rb p u \<Longrightarrow>
     smon_rb_consume (of_nat header_size) u = ur_advance rb p (p + 4) u"
  using consume_at_pos [of rb p u 4] by (simp add: header_size_def)

lemma body_block:
  assumes "rb_geom rb" and "item_at (flat rb) (rb_cap rb) p (Rec ty bs)" and "bs \<noteq> []"
  shows "(p + 4) mod rb_cap rb = p mod rb_cap rb + 4" "(p + 4) mod 4096 + length bs \<le> 4096"
proof -
  have l: "p mod 4096 + 4 < 4096" using rec_header(1) [OF assms(2)] assms(3) by (cases bs) auto
  show "(p + 4) mod rb_cap rb = p mod rb_cap rb + 4"
    using rb_geom_bounds(6) [OF assms(1)] l by (rule add_mod_of_same_block)
  have "(p + 4) mod 4096 = p mod 4096 + 4" using dvd_refl l by (rule add_mod_of_same_block)
  then show "(p + 4) mod 4096 + length bs \<le> 4096" using rec_header(1) [OF assms(2)] by simp
qed

lemma take_sample_at:
  assumes g: "rb_geom rb" and u: "at_pos rb p u"
    and i: "item_at (flat rb) (rb_cap rb) p (Rec ty bs)" "bs \<noteq> []"
  shows "take_sample (mapped (ur_addr u) rb) (length bs) dec u =
           Some (Printed (dec bs), ur_advance rb p (p + 4 + length bs) u)"
proof -
  define v where "v = ur_advance rb p (p + 4) u"
  have v: "at_pos rb (p + 4) v" unfolding v_def using u by (rule at_pos_advance)
  have "load (mapped (ur_addr u) rb) (smon_rb_cursor v) (length bs) = Some bs"
    using load_rd [OF g body_block(2) [OF g i], of "ur_addr u"] rec_header(3) [OF i(1)]
    by (simp add: cursor_at_pos [OF v]) (simp add: v_def)
  moreover have "smon_rb_consume (of_nat (length bs)) v = ur_advance rb (p + 4) (p + 4 + length bs) v"
    using rec_header(1) [OF i(1)] by (intro consume_at_pos g v) simp
  ultimately show ?thesis
    unfolding take_sample_def Let_def consume_header [OF g u] v_def [symmetric]
    by (simp add: v_def ur_advance_trans)
qed

lemma take_info_at:
  assumes g: "rb_geom rb" and u: "at_pos rb p u"
    and i: "item_at (flat rb) (rb_cap rb) p (Rec ty bs)" "length bs = sizeof_info"
  shows "take_info (mapped (ur_addr u) rb) u =
           Some (Printed (InfoSample (dec_info bs)), ur_advance rb p (p + 4 + length bs) u)"
proof -
  have ne: "bs \<noteq> []" using i(2) by (auto simp: sizeof_info_def)
  from at_pos_advance [OF u, of "p + 4"] have "smon_rb_cursor u + of_nat header_size =
      smon_rb_cursor (ur_advance rb p (p + 4) u)"
    by (simp add: cursor_at_pos [OF u] cursor_at_pos body_block(1) [OF g i(1) ne] header_size_def)
  then have "take_info (mapped (ur_addr u) rb) u =
      take_sample (mapped (ur_addr u) rb) (length bs) (\<lambda>b. InfoSample (dec_info b)) u"
    by (simp add: take_info_def take_sample_def Let_def i(2) consume_header [OF g u])
  then show ?thesis by (simp add: take_sample_at [OF g u i(1) ne])
qed

lemma read_one_pad:
  assumes g: "rb_geom rb" and u: "at_pos rb p u" and i: "item_at (flat rb) (rb_cap rb) p Pad"
  shows "read_one (mapped (ur_addr u) rb) u = Some (Next_page, ur_advance rb p (item_end p Pad) u)"
proof -
  have "load (mapped (ur_addr u) rb) (smon_rb_cursor u) header_size = Some (le_bytes 4 SAMPLE_TYPE_PAD)"
    using i by (intro header_load [OF g u]) (auto simp: header_size_def)
  then show ?thesis
    by (simp add: read_one_def sample_type_defs page_next_at_pos [OF g u])
qed

lemma read_one_eof:
  assumes g: "rb_geom rb" and u: "at_pos rb p u"
    and i: "item_at (flat rb) (rb_cap rb) p (Rec SAMPLE_TYPE_EOF bs)"
  shows "read_one (mapped (ur_addr u) rb) u = Some (End_of_file, u)"
proof -
  have "load (mapped (ur_addr u) rb) (smon_rb_cursor u) header_size = Some (le_bytes 4 SAMPLE_TYPE_EOF)"
    using rec_header [OF i] by (intro header_load [OF g u]) auto
  then show ?thesis by (simp add: read_one_def sample_type_defs)
qed

lemma decode_sample_cases:
  assumes "decode_sample ty bs = Some s"
  obtains "ty = SAMPLE_TYPE_PMC" "s = PmcSample (dec_pmc bs)"
  | "ty = SAMPLE_TYPE_RAPL" "s = RaplSample (dec_rapl bs)"
  | "ty = SAMPLE_TYPE_CPU" "s = CpuSample (dec_cpu bs)"
  | "ty = SAMPLE_TYPE_SCHED" "s = SchedSample (dec_sched bs)"
  | "ty = SAMPLE_TYPE_FORK" "s = ForkSample (dec_fork bs)"
  | "ty = SAMPLE_TYPE_INFO" "s = InfoSample (dec_info bs)"
  using assms by (auto simp: decode_sample_def split: if_splits)

lemma sample_sizes:
  "sample_size_of SAMPLE_TYPE_PMC = Some sizeof_pmc" "sample_size_of SAMPLE_TYPE_RAPL = Some sizeof_rapl"
  "sample_size_of SAMPLE_TYPE_CPU = Some sizeof_cpu" "sample_size_of SAMPLE_TYPE_SCHED = Some sizeof_sched"
  "sample_size_of SAMPLE_TYPE_FORK = Some sizeof_fork" "sample_size_of SAMPLE_TYPE_INFO = Some sizeof_info"
  by (simp_all add: sample_size_of_def sample_type_defs)

lemma read_one_switch:
  assumes "load mem (smon_rb_cursor u) header_size = Some (le_bytes 4 ty)"
  shows "ty = SAMPLE_TYPE_PMC \<Longrightarrow> read_one mem u = take_sample mem sizeof_pmc (\<lambda>b. PmcSample (dec_pmc b)) u"
    "ty = SAMPLE_TYPE_RAPL \<Longrightarrow> read_one mem u = take_sample mem sizeof_rapl (\<lambda>b. RaplSample (dec_rapl b)) u"
    "ty = SAMPLE_TYPE_CPU \<Longrightarrow> read_one mem u = take_sample mem sizeof_cpu (\<lambda>b. CpuSample (dec_cpu b)) u"
    "ty = SAMPLE_TYPE_SCHED \<Longrightarrow> read_one mem u = take_sample mem sizeof_sched (\<lambda>b. SchedSample (dec_sched b)) u"
    "ty = SAMPLE_TYPE_FORK \<Longrightarrow> read_one mem u = take_sample mem sizeof_fork (\<lambda>b. ForkSample (dec_fork b)) u"
    "ty = SAMPLE_TYPE_INFO \<Longrightarrow> read_one mem u = take_info mem u"
  by (simp_all add: read_one_def assms sample_type_defs)

lemma read_one_rec:
  assumes g: "rb_geom rb" and u: "at_pos rb p u"
    and i: "item_at (flat rb) (rb_cap rb) p (Rec ty bs)" and d: "decode_sample ty bs = Some s"
  shows "read_one (mapped (ur_addr u) rb) u = Some (Printed s, ur_advance rb p (item_end p (Rec ty bs)) u)"
proof -
  have "load (mapped (ur_addr u) rb) (smon_rb_cursor u) header_size = Some (le_bytes 4 ty)"
    using rec_header [OF i] by (intro header_load [OF g u]) auto
  note switch = read_one_switch [OF this]
  have sz: "sample_size_of ty = Some (length bs)" using i by simp
  from d sz have ne: "bs \<noteq> []" by (auto elim!: decode_sample_cases simp: sample_sizes sizeof_defs)
  note t = take_sample_at [OF g u i ne] and defs = sample_sizes header_size_def
  from d show ?thesis
  proof (cases rule: decode_sample_cases)
    case 1
    then show ?thesis using switch(1) t sz by (simp add: defs)
  next
    case 2
    then show ?thesis using switch(2) t sz by (simp add: defs)
  next
    case 3
    then show ?thesis using switch(3) t sz by (simp add: defs)
  next
    case 4
    then show ?thesis using switch(4) t sz by (simp add: defs)
  next
    case 5
    then show ?thesis using switch(5) t sz by (simp add: defs)
  next
    case 6
    then show ?thesis using switch(6) take_info_at [OF g u i] sz by (simp add: defs)
  qed
qed

section \<open>The whole loop\<close>

fun decodes :: "rb_item \<Rightarrow> smon_sample \<Rightarrow> bool" where
  "decodes (Rec ty bs) s \<longleftrightarrow> decode_sample ty bs = Some s"
| "decodes Pad s \<longleftrightarrow> False"

text \<open>A run of items that does not end in a pad: the reader stops right after its last record.\<close>

definition closed_run :: "rb_item list \<Rightarrow> bool" where
  "closed_run xs \<longleftrightarrow> (xs \<noteq> [] \<longrightarrow> last xs \<noteq> Pad)"

lemma closed_run_Cons: "closed_run (x # xs) \<Longrightarrow> closed_run xs"
  by (auto simp: closed_run_def split: if_splits)

lemma closed_run_recs: "closed_run xs \<Longrightarrow> xs \<noteq> [] \<Longrightarrow> recs xs \<noteq> []"
  by (induction xs rule: rev_induct) (auto simp: closed_run_def recs_def)

lemma closed_run_split:
  "n \<le> length (recs xs) \<Longrightarrow>
     \<exists>a b. xs = a @ b \<and> closed_run a \<and> recs a = take n (recs xs) \<and> recs b = drop n (recs xs)"
proof (induction xs arbitrary: n)
  case Nil
  then show ?case by (auto simp: closed_run_def)
next
  case (Cons x xs)
  show ?case
  proof (cases "n = 0")
    case True
    then show ?thesis by (intro exI [of _ "[]"] exI [of _ "x # xs"]) (simp add: closed_run_def)
  next
    case False
    define m where "m = (if x = Pad then n else n - 1)"
    have "m \<le> length (recs xs)" using Cons.prems False by (cases x) (auto simp: m_def)
    from Cons.IH [OF this] obtain a b where ab: "xs = a @ b" "closed_run a"
      "recs a = take m (recs xs)" "recs b = drop m (recs xs)" by blast
    have "closed_run (x # a)"
    proof (cases "a = []")
      case True
      then have "m = 0 \<or> recs xs = []" using ab(3) by simp
      then have "x \<noteq> Pad" using False Cons.prems by (auto simp: m_def)
      then show ?thesis using True by (simp add: closed_run_def)
    next
      case a: False
      then show ?thesis using ab(2) by (simp add: closed_run_def)
    qed
    moreover have "recs (x # a) = take n (recs (x # xs))" "recs b = drop n (recs (x # xs))"
      using ab(3,4) False by (cases x; cases n; simp add: m_def)+
    ultimately show ?thesis using ab(1) by (intro exI [of _ "x # a"] exI [of _ b]) simp
  qed
qed

lemma read_loop_skip:
  assumes g: "rb_geom rb"
  shows "laid (flat rb) (rb_cap rb) p xs \<Longrightarrow> at_pos rb p u \<Longrightarrow> list_all2 decodes (recs xs) ss \<Longrightarrow>
     int (n + length (recs xs)) < sint nr \<or> closed_run xs \<and> int (n + length (recs xs)) \<le> sint nr \<Longrightarrow>
     read_loop (mapped (ur_addr u) rb) nr n False u out =
     read_loop (mapped (ur_addr u) rb) nr (n + length (recs xs)) False
       (ur_advance rb p (span p xs) u) (out @ ss)"
proof (induction xs arbitrary: p u n out ss)
  case Nil
  then show ?case by (simp add: ur_advance_refl)
next
  case (Cons x xs)
  define q where "q = item_end p x"
  define v where "v = ur_advance rb p q u"
  have x: "item_at (flat rb) (rb_cap rb) p x" and l: "laid (flat rb) (rb_cap rb) q xs"
    using Cons.prems(1) by (simp_all add: q_def)
  have v: "at_pos rb q v" unfolding v_def using Cons.prems(2) by (rule at_pos_advance)
  have va: "ur_addr v = ur_addr u" by (simp add: v_def)
  have n: "int n < sint nr"
    using Cons.prems(4) closed_run_recs [of "x # xs"] by (cases "recs (x # xs)") auto
  have c: "closed_run (x # xs) \<longrightarrow> closed_run xs" by (blast intro: closed_run_Cons)
  have adv: "ur_advance rb q (span q xs) v = ur_advance rb p (span p (x # xs)) u"
    using item_end_gt [of p x] span_ge [of q xs]
    by (simp add: v_def q_def ur_advance_trans less_imp_le)
  note IH = Cons.IH [OF l v, unfolded va adv]
  show ?case
  proof (cases x)
    case Pad
    have one: "read_one (mapped (ur_addr u) rb) u = Some (Next_page, v)"
      using read_one_pad [OF g Cons.prems(2)] x Pad by (simp add: v_def q_def)
    show ?thesis
      using IH [of ss n out] Cons.prems(3,4) Pad n c
      by (subst read_loop.simps) (auto simp: one)
  next
    case (Rec ty bs)
    then obtain s ss' where ss: "ss = s # ss'" "decode_sample ty bs = Some s"
      "list_all2 decodes (recs xs) ss'"
      using Cons.prems(3) by (auto simp: list_all2_Cons1)
    have one: "read_one (mapped (ur_addr u) rb) u = Some (Printed s, v)"
      using read_one_rec [OF g Cons.prems(2) _ ss(2)] x Rec by (simp add: v_def q_def)
    show ?thesis
      using IH [OF ss(3), of "n + 1" "out @ [s]"] Cons.prems(4) Rec n ss(1) c
      by (subst read_loop.simps) (auto simp: one)
  qed
qed

lemma advance_flush:
  assumes "at_pos rb p u" and "ur_consumed u = 0"
  shows "ur_consumed (ur_advance rb p q u) = of_nat (q - p)"
    "at_pos rb q (snd (smon_rb_flush (ur_advance rb p q u)))"
    "ur_addr (snd (smon_rb_flush (ur_advance rb p q u))) = ur_addr u"
    "ur_consumed (snd (smon_rb_flush (ur_advance rb p q u))) = 0"
  using assms at_pos_advance [OF assms(1), of q]
  by (simp_all add: ur_advance_def smon_rb_flush_def at_pos_def)

text \<open>A read of exactly the records of a prefix of the buffer, with the counts that
  are reported to the driver.\<close>

lemma read_samples_prefix:
  assumes h: "rb_holds rb (xs @ ys)" and u: "at_pos rb (unat (rb_tail rb)) u" "ur_consumed u = 0"
    and c: "closed_run xs" and d: "list_all2 decodes (recs xs) ss"
    and nr: "sint nr = int (length (recs xs))"
  obtains u' bytes where
    "read_samples (mapped (ur_addr u) rb) nr u = Some (0, Some (nr, bytes), u', ss)"
    "unat bytes = span (unat (rb_tail rb)) xs - unat (rb_tail rb)"
    "at_pos rb (span (unat (rb_tail rb)) xs) u'" "ur_addr u' = ur_addr u" "ur_consumed u' = 0"
proof -
  define p q where "p = unat (rb_tail rb)" and "q = span p xs"
  have g: "rb_geom rb" and l: "laid (flat rb) (rb_cap rb) p xs"
    using h by (simp_all add: rb_holds_def p_def)
  have "q \<le> span q ys" "span q ys < p + rb_cap rb"
    using h by (simp_all add: rb_holds_def p_def q_def span_ge)
  then have small: "q - p < 2 ^ 32" using rb_geom_bounds(9) [OF g] by simp
  have nn: "(of_nat (length (recs xs)) :: u32) = nr"
    using arg_cong [OF nr, of "word_of_int :: int \<Rightarrow> u32"] by simp
  have "read_loop (mapped (ur_addr u) rb) nr 0 False u [] =
      read_loop (mapped (ur_addr u) rb) nr (length (recs xs)) False (ur_advance rb p q u) ss"
    using read_loop_skip [OF g l _ d, of u 0 nr "[]"] u nr c by (simp add: p_def q_def)
  then have "read_loop (mapped (ur_addr u) rb) nr 0 False u [] =
      Some (True, length (recs xs), ur_advance rb p q u, ss)"
    using nr by (simp add: read_loop.simps)
  then have "read_samples (mapped (ur_addr u) rb) nr u =
      Some (0, Some (nr, of_nat (q - p)), snd (smon_rb_flush (ur_advance rb p q u)), ss)"
    using advance_flush [of rb p u q] u nn
    by (simp add: read_samples_def p_def smon_rb_flush_def Let_def)
  then show thesis
    using advance_flush [of rb p u q] u small
    by (intro that [of "of_nat (q - p)" "snd (smon_rb_flush (ur_advance rb p q u))"])
      (simp_all add: p_def q_def unat_of_nat)
qed

text \<open>The last read, of more records than there are, ends at the end-of-file header, which stays.\<close>

lemma read_samples_eof:
  assumes h: "rb_holds rb (xs @ Rec SAMPLE_TYPE_EOF [] # ys)"
    and u: "at_pos rb (unat (rb_tail rb)) u" "ur_consumed u = 0"
    and d: "list_all2 decodes (recs xs) ss" and nr: "int (length (recs xs)) < sint nr"
  obtains u' bytes where
    "read_samples (mapped (ur_addr u) rb) nr u = Some (0, Some (of_nat (length ss + 1), bytes), u', ss)"
    "unat bytes = span (unat (rb_tail rb)) xs - unat (rb_tail rb)"
    "at_pos rb (span (unat (rb_tail rb)) xs) u'" "ur_addr u' = ur_addr u" "ur_consumed u' = 0"
proof -
  define p q where "p = unat (rb_tail rb)" and "q = span p xs"
  define v where "v = ur_advance rb p q u"
  have g: "rb_geom rb" and l: "laid (flat rb) (rb_cap rb) p xs"
    and e: "item_at (flat rb) (rb_cap rb) q (Rec SAMPLE_TYPE_EOF [])"
    using h by (simp_all add: rb_holds_def p_def q_def)
  have "q \<le> span p (xs @ Rec SAMPLE_TYPE_EOF [] # ys)"
    by (simp only: span_append q_def span_ge)
  then have "q < p + rb_cap rb" using h by (simp add: rb_holds_def p_def)
  then have small: "q - p < 2 ^ 32" using rb_geom_bounds(9) [OF g] by simp
  have v: "at_pos rb q v" using u unfolding v_def by (intro at_pos_advance) (simp add: p_def)
  have "read_one (mapped (ur_addr v) rb) v = Some (End_of_file, v)"
    using read_one_eof [OF g v e] .
  then have "read_loop (mapped (ur_addr u) rb) nr (length (recs xs)) False v ss =
      Some (True, length (recs xs) + 1, v, ss)"
    using nr by (simp add: read_loop.simps [of _ _ "length (recs xs)"] v_def)
      (simp add: read_loop.simps)
  then have "read_loop (mapped (ur_addr u) rb) nr 0 False u [] =
      Some (True, length (recs xs) + 1, v, ss)"
    using read_loop_skip [OF g l _ d, of u 0 nr "[]"] u nr by (simp add: p_def q_def v_def)
  then have "read_samples (mapped (ur_addr u) rb) nr u =
      Some (0, Some (of_nat (length ss + 1), of_nat (q - p)), snd (smon_rb_flush v), ss)"
    using advance_flush [of rb p u q] u list_all2_lengthD [OF d]
    by (simp add: read_samples_def p_def smon_rb_flush_def Let_def v_def)
  then show thesis
    using advance_flush [of rb p u q] u small
    by (intro that [of "of_nat (q - p)" "snd (smon_rb_flush v)"])
      (simp_all add: p_def q_def v_def unat_of_nat)
qed

end
