(* ===== verification/Pipeline.thy ===== *)
theory Pipeline
  imports Reader Device_Mmap
begin

text \<open>
  The path of a sample from the driver to the output: the writers of \<^verbatim>\<open>driver/rb.c\<close>,
  \<^verbatim>\<open>smon_poll\<close>, and the body of the loop of \<^verbatim>\<open>start_sampling\<close> with \<^verbatim>\<open>read_samples\<close>
  and the \<^verbatim>\<open>SMON_IOCREAD\<close> call it ends with (\<^verbatim>\<open>tool/src/profile.c\<close>,
  \<^verbatim>\<open>tool/src/driver.c\<close>).
\<close>

record session =
  se_rb :: smon_ring_buffer
  se_ur :: smon_rb
  se_out :: "smon_sample list"

text \<open>One call of \<^verbatim>\<open>read_samples\<close>: the driver drops what the call reports as read.\<close>

definition session_read :: "i32 \<Rightarrow> session \<Rightarrow> (i32 \<times> session) option" where
  "session_read nr st = do {
     (err, report, u, ss) \<leftarrow> read_samples (mapped (ur_addr (se_ur st)) (se_rb st)) nr (se_ur st);
     Some (err,
       \<lparr>se_rb = (case report of None \<Rightarrow> se_rb st
                 | Some (items, bytes) \<Rightarrow> smon_rb_read items bytes (se_rb st)),
        se_ur = u, se_out = se_out st @ ss\<rparr>)
   }"

text \<open>
  The body of the loop of \<^verbatim>\<open>start_sampling\<close> after \<^verbatim>\<open>poll\<close> returned 1, with the events that
  \<^verbatim>\<open>smon_poll\<close> reports: the values of \<open>err\<close> and of \<open>done\<close>.
\<close>

definition sampling_round :: "i32 \<Rightarrow> session \<Rightarrow> (i32 \<times> bool \<times> session) option" where
  "sampling_round batch_size st =
     (let revents = smon_poll (Some (se_rb st))
      in if revents AND POLLIN \<noteq> 0
         then do { (err, st) \<leftarrow> session_read batch_size st; Some (err, False, st) }
         else if revents AND POLLHUP \<noteq> 0
         then do { (err, st) \<leftarrow> session_read (ur_size (se_ur st)) st; Some (err, True, st) }
         else Some (0, False, st))"

datatype pipe_op = Emit u32 smon_sample | Round

fun pipe_exec :: "i32 \<Rightarrow> pipe_op \<Rightarrow> session \<Rightarrow> session option" where
  "pipe_exec batch (Emit pad s) st = do {
     rb \<leftarrow> smon_rb_write (sample_type s) (sample_image pad s) (se_rb st);
     Some (st\<lparr>se_rb := rb\<rparr>)
   }"
| "pipe_exec batch Round st = map_option (\<lambda>(err, d, st). st) (sampling_round batch st)"

fun pipe_op_wf :: "pipe_op \<Rightarrow> bool" where
  "pipe_op_wf (Emit pad s) \<longleftrightarrow> sample_wf s"
| "pipe_op_wf Round \<longleftrightarrow> True"

text \<open>The samples that found room, in the order they were written.\<close>

fun accepted :: "i32 \<Rightarrow> pipe_op list \<Rightarrow> session \<Rightarrow> smon_sample list" where
  "accepted batch [] st = []"
| "accepted batch (x # xs) st =
     (case x of Emit pad s \<Rightarrow> if rb_fits (se_rb st) (length (sample_image pad s)) then [s] else []
      | Round \<Rightarrow> []) @
     (case pipe_exec batch x st of None \<Rightarrow> [] | Some st' \<Rightarrow> accepted batch xs st')"

section \<open>The driver and the reader agree\<close>

text \<open>
  The reader's cursor is the driver's tail and the buffer holds the samples \<open>ss\<close>, the end of file
  after them if \<open>e\<close>.
\<close>

definition eof_rec :: "bool \<Rightarrow> rb_item list" where
  "eof_rec e = (if e then [Rec SAMPLE_TYPE_EOF []] else [])"

definition synced :: "i32 \<Rightarrow> bool \<Rightarrow> session \<Rightarrow> smon_sample list \<Rightarrow> bool" where
  "synced batch e st ss \<longleftrightarrow>
     (\<exists>rs. rb_inv (se_rb st) (rs @ eof_rec e) \<and> list_all2 decodes rs ss) \<and>
     at_pos (se_rb st) (unat (rb_tail (se_rb st))) (se_ur st) \<and> ur_consumed (se_ur st) = 0 \<and>
     (batch \<noteq> 0 \<longrightarrow> rb_batch (se_rb st) = batch)"

lemma emit_step:
  assumes "synced b False st ss" and "sample_wf s"
  obtains st' where "pipe_exec b (Emit pad s) st = Some st'"
    "synced b False st' (ss @ (if rb_fits (se_rb st) (length (sample_image pad s)) then [s] else []))"
    "se_out st' = se_out st" "rb_active (se_rb st') = rb_active (se_rb st)"
proof -
  from assms(1) obtain rs where rs: "rb_inv (se_rb st) rs" "list_all2 decodes rs ss"
    by (auto simp: synced_def eof_rec_def)
  from rb_inv_write [OF rs(1) sample_size_image [OF assms(2)] order_refl, of pad] obtain rb' where w:
    "smon_rb_write (sample_type s) (sample_image pad s) (se_rb st) = Some rb'"
    "rb_same (se_rb st) rb'"
    "if rb_fits (se_rb st) (length (sample_image pad s))
     then rb_inv rb' (rs @ [Rec (sample_type s) (sample_image pad s)]) else rb_inv rb' rs"
    by (elim exE conjE) (rule that, auto split: if_splits)
  have "at_pos rb' (unat (rb_tail rb')) (se_ur st)"
    using assms(1) w(2) by (simp add: synced_def at_pos_def rb_same_def rb_cap_def)
  moreover have "\<exists>rs'. rb_inv rb' rs' \<and>
      list_all2 decodes rs' (ss @ (if rb_fits (se_rb st) (length (sample_image pad s)) then [s] else []))"
  proof (cases "rb_fits (se_rb st) (length (sample_image pad s))")
    case True
    have "list_all2 decodes (rs @ [Rec (sample_type s) (sample_image pad s)]) (ss @ [s])"
      using rs(2) decode_sample_image [OF assms(2)] by (simp add: list_all2_appendI)
    with w(3) True show ?thesis by auto
  qed (use w(3) rs(2) in auto)
  ultimately have "synced b False (st\<lparr>se_rb := rb'\<rparr>)
      (ss @ (if rb_fits (se_rb st) (length (sample_image pad s)) then [s] else []))"
    using assms(1) w(2) by (simp add: synced_def rb_same_def eof_rec_def)
  then show thesis using that [of "st\<lparr>se_rb := rb'\<rparr>"] w(1,2) by (simp add: rb_same_def)
qed

lemma synced_prefix:
  assumes "synced b e st ss" and "n \<le> length ss"
  obtains xs ys where "rb_holds (se_rb st) (xs @ ys)" "closed_run xs" "length (recs xs) = n"
    "list_all2 decodes (recs xs) (take n ss)"
    "unat (rb_items (se_rb st)) = length (recs (xs @ ys))"
    "\<exists>rs. recs ys = rs @ eof_rec e \<and> list_all2 decodes rs (drop n ss)"
proof -
  from assms(1) obtain rs where rs: "rb_inv (se_rb st) (rs @ eof_rec e)" "list_all2 decodes rs ss"
    by (auto simp: synced_def)
  from rs(1) obtain zs where zs: "rb_holds (se_rb st) zs" "recs zs = rs @ eof_rec e"
    "unat (rb_items (se_rb st)) = length (recs zs)" by (auto simp: rb_inv_def)
  have l: "length rs = length ss" using rs(2) by (rule list_all2_lengthD)
  then have n: "n \<le> length rs" using assms(2) by simp
  then have "n \<le> length (recs zs)" using zs(2) by simp
  from closed_run_split [OF this] obtain xs ys where s: "zs = xs @ ys" "closed_run xs"
    "recs xs = take n (recs zs)" "recs ys = drop n (recs zs)" by blast
  have "recs xs = take n rs" "recs ys = drop n rs @ eof_rec e" using s(3,4) zs(2) n by simp_all
  moreover have d: "list_all2 decodes (take n rs) (take n ss)" "list_all2 decodes (drop n rs) (drop n ss)"
    using rs(2) by (simp_all add: list_all2_takeI list_all2_dropI)
  moreover have "length (recs xs) = n" using calculation(1) n by simp
  ultimately show thesis using zs(1,3) s(2) unfolding s(1) by (intro that [of xs ys]) auto
qed

lemma session_read_spec:
  assumes s: "synced b e st ss" and n: "unat nr \<le> length ss"
  obtains st' where "session_read nr st = Some (0, st')" "synced b e st' (drop (unat nr) ss)"
    "se_out st' = se_out st @ take (unat nr) ss" "rb_active (se_rb st') = rb_active (se_rb st)"
proof -
  from synced_prefix [OF s n] obtain xs ys rs where xy: "rb_holds (se_rb st) (xs @ ys)"
    "closed_run xs" "length (recs xs) = unat nr" "list_all2 decodes (recs xs) (take (unat nr) ss)"
    "unat (rb_items (se_rb st)) = length (recs (xs @ ys))"
    "recs ys = rs @ eof_rec e" "list_all2 decodes rs (drop (unat nr) ss)" by metis
  have u: "at_pos (se_rb st) (unat (rb_tail (se_rb st))) (se_ur st)" "ur_consumed (se_ur st) = 0"
    using s by (simp_all add: synced_def)
  have "unat nr < 2 ^ 31"
    using holds_length(2) [OF xy(1)] xy(3) by simp
  then have "sint nr = int (unat nr)" by (rule sint_small)
  then have nr: "sint nr = int (length (recs xs))" by (simp add: xy(3))
  from read_samples_prefix [OF xy(1) u xy(2,4) nr] obtain u' bytes where r:
    "read_samples (mapped (ur_addr (se_ur st)) (se_rb st)) nr (se_ur st) =
       Some (0, Some (nr, bytes), u', take (unat nr) ss)"
    "unat bytes = span (unat (rb_tail (se_rb st))) xs - unat (rb_tail (se_rb st))"
    "at_pos (se_rb st) (span (unat (rb_tail (se_rb st))) xs) u'" "ur_consumed u' = 0" by metis
  define st' where "st' = \<lparr>se_rb = smon_rb_read nr bytes (se_rb st), se_ur = u',
      se_out = se_out st @ take (unat nr) ss\<rparr>"
  have "rb_inv (se_rb st') (rs @ eof_rec e)"
    using rb_inv_read [OF xy(1,5) xy(3) [symmetric] r(2)] xy(6) by (simp add: st'_def)
  moreover have "at_pos (se_rb st') (unat (rb_tail (se_rb st'))) u'"
    using r(3) rb_read_prefix(2) [OF xy(1) r(2), of nr]
    by (simp add: st'_def at_pos_def rb_cap_def rb_read_same)
  ultimately have "synced b e st' (drop (unat nr) ss)"
    using s r(4) xy(7) by (auto simp: synced_def st'_def rb_read_same)
  moreover have "session_read nr st = Some (0, st')"
    by (simp add: session_read_def r(1) st'_def)
  ultimately show thesis by (intro that [of st']) (simp_all add: st'_def rb_read_same)
qed

lemma synced_items:
  assumes "synced b e st ss"
  shows "unat (rb_items (se_rb st)) = length ss + (if e then 1 else 0)"
proof -
  from assms obtain rs where "rb_inv (se_rb st) (rs @ eof_rec e)" "list_all2 decodes rs ss"
    by (auto simp: synced_def)
  then show ?thesis by (auto simp: rb_inv_def eof_rec_def list_all2_lengthD)
qed

text \<open>A round while there are writers takes one batch, when there is one.\<close>

lemma round_in:
  assumes s: "synced b False st ss" and a: "smon_rb_is_active (se_rb st)"
  obtains st' where
    "sampling_round b st = Some (0, False, st')"
    "synced b False st' (if unat b \<le> length ss then drop (unat b) ss else ss)"
    "se_out st' = se_out st @ (if unat b \<le> length ss then take (unat b) ss else [])"
    "rb_active (se_rb st') = rb_active (se_rb st)"
proof (cases "smon_rb_batch_available (se_rb st)")
  case avail: True
  have True: "unat b \<le> length ss"
  proof (cases "b = 0")
    case False
    then show ?thesis
      using avail synced_items [OF s] s by (simp add: smon_rb_batch_available_def word_le_nat_alt synced_def)
  qed simp
  from avail have p: "smon_poll (Some (se_rb st)) AND POLLIN \<noteq> 0"
    using a by (simp add: poll_in)
  from session_read_spec [OF s True] obtain st' where r: "session_read b st = Some (0, st')"
    "synced b False st' (drop (unat b) ss)" "se_out st' = se_out st @ take (unat b) ss"
    "rb_active (se_rb st') = rb_active (se_rb st)" .
  show thesis
    by (rule that [of st']) (use p r True in \<open>simp_all add: sampling_round_def Let_def\<close>)
next
  case False
  have "unat b = 0 \<or> length ss < unat b"
    using False synced_items [OF s] s by (auto simp: smon_rb_batch_available_def word_le_nat_alt synced_def unat_eq_0)
  then have few: "(if unat b \<le> length ss then drop (unat b) ss else ss) = ss"
    "(if unat b \<le> length ss then take (unat b) ss else []) = []" by auto
  from False have "\<not> smon_poll (Some (se_rb st)) AND POLLIN \<noteq> 0" "\<not> smon_poll (Some (se_rb st)) AND POLLHUP \<noteq> 0"
    using a by (simp_all add: poll_in poll_hup)
  then have "sampling_round b st = Some (0, False, st)"
    by (simp add: sampling_round_def Let_def)
  with s show thesis by (intro that [of st]) (simp_all only: few, simp_all)
qed

lemma pipe_step:
  assumes s: "synced b False st ss" and a: "smon_rb_is_active (se_rb st)" and w: "pipe_op_wf x"
  obtains st' ss' where "pipe_exec b x st = Some st'" "synced b False st' ss'"
    "rb_active (se_rb st') = rb_active (se_rb st)"
    "se_out st' @ ss' = se_out st @ ss @
       (case x of Emit pad s \<Rightarrow> if rb_fits (se_rb st) (length (sample_image pad s)) then [s] else []
        | Round \<Rightarrow> [])"
proof (cases x)
  case (Emit pad smp)
  with w have "sample_wf smp" by simp
  from emit_step [OF s this, of pad] obtain st' where "pipe_exec b (Emit pad smp) st = Some st'"
    "synced b False st' (ss @ (if rb_fits (se_rb st) (length (sample_image pad smp)) then [smp] else []))"
    "se_out st' = se_out st" "rb_active (se_rb st') = rb_active (se_rb st)" .
  with Emit show thesis by (intro that [of st']) simp_all
next
  case Round
  from round_in [OF s a] obtain st' where r: "sampling_round b st = Some (0, False, st')"
    "synced b False st' (if unat b \<le> length ss then drop (unat b) ss else ss)"
    "se_out st' = se_out st @ (if unat b \<le> length ss then take (unat b) ss else [])"
    "rb_active (se_rb st') = rb_active (se_rb st)" .
  show thesis
    by (rule that [OF _ r(2)]) (use r Round in simp_all)
qed

lemma pipe_run:
  assumes "synced b False st ss" and "smon_rb_is_active (se_rb st)" and "list_all pipe_op_wf xs"
  shows "\<exists>st' ss'. fold_opt (pipe_exec b) xs st = Some st' \<and> synced b False st' ss' \<and>
    rb_active (se_rb st') = rb_active (se_rb st) \<and> se_out st' @ ss' = se_out st @ ss @ accepted b xs st"
  using assms
proof (induction xs arbitrary: st ss)
  case Nil
  then show ?case by auto
next
  case (Cons x xs)
  have "pipe_op_wf x" using Cons.prems(3) by simp
  from pipe_step [OF Cons.prems(1,2) this] obtain st1 ss1 where 1: "pipe_exec b x st = Some st1"
    "synced b False st1 ss1" "rb_active (se_rb st1) = rb_active (se_rb st)"
    "se_out st1 @ ss1 = se_out st @ ss @
       (case x of Emit pad s \<Rightarrow> if rb_fits (se_rb st) (length (sample_image pad s)) then [s] else []
        | Round \<Rightarrow> [])" .
  have "smon_rb_is_active (se_rb st1)" using 1(3) Cons.prems(2) by (simp add: smon_rb_is_active_def)
  from Cons.IH [OF 1(2) this] Cons.prems(3) 1(3) obtain st' ss' where
    "fold_opt (pipe_exec b) xs st1 = Some st'" "synced b False st' ss'"
    "rb_active (se_rb st') = rb_active (se_rb st)" "se_out st' @ ss' = se_out st1 @ ss1 @ accepted b xs st1" by auto
  moreover from this(4) have "se_out st' @ ss' = (se_out st1 @ ss1) @ accepted b xs st1" by simp
  ultimately show ?case using 1(1) unfolding 1(4) by auto
qed

section \<open>The end of the stream\<close>

lemma release_last:
  assumes s: "synced b False st ss" and "rb_active (se_rb st) = 1" and f: "rb_fits (se_rb st) 0"
  obtains rb' where "smon_release_rb (se_rb st) = Some rb'" "rb_active rb' = 0"
    "synced b True (st\<lparr>se_rb := rb'\<rparr>) ss"
proof -
  from s obtain rs where rs: "rb_inv (se_rb st) rs" "list_all2 decodes rs ss"
    by (auto simp: synced_def eof_rec_def)
  from rs(1) have g: "rb_geom (se_rb st)" by (auto simp: rb_inv_def rb_holds_def)
  from release_rb_spec [OF rs(1)] assms(2) f obtain rb' where r: "smon_release_rb (se_rb st) = Some rb'"
    "rb_active rb' = 0" "rb_size rb' = rb_size (se_rb st)" "rb_tail rb' = rb_tail (se_rb st)"
    "rb_n_pages rb' = rb_n_pages (se_rb st)" "rb_batch rb' = rb_batch (se_rb st)"
    "rb_inv rb' (rs @ eof_rec True)"
    by (auto simp: eof_rec_def)
  with s rs r show thesis
    by (intro that [of rb']) (auto simp: synced_def at_pos_def rb_cap_def)
qed

lemma recs_snoc: "recs zs = rs @ [r] \<Longrightarrow> \<exists>xs ys. zs = xs @ r # ys \<and> recs xs = rs"
proof (induction zs rule: rev_induct)
  case (snoc z zs)
  show ?case
  proof (cases z)
    case Pad
    then have "recs zs = rs @ [r]" using snoc.prems by simp
    from snoc.IH [OF this] obtain xs ys where "zs = xs @ r # ys" "recs xs = rs" by blast
    then have "zs @ [z] = xs @ r # (ys @ [z]) \<and> recs xs = rs" by simp
    then show ?thesis by blast
  next
    case (Rec ty bs)
    then have "zs @ [z] = zs @ r # [] \<and> recs zs = rs" using snoc.prems by simp
    then show ?thesis by blast
  qed
qed simp

lemma round_hup:
  assumes s: "synced b True st ss" and a: "rb_active (se_rb st) = 0"
  obtains st' where "sampling_round b st = Some (0, True, st')" "se_out st' = se_out st @ ss"
proof -
  define rb u where "rb = se_rb st" and "u = se_ur st"
  from s obtain rs zs where zs: "rb_holds rb zs" "recs zs = rs @ [Rec SAMPLE_TYPE_EOF []]"
    "list_all2 decodes rs ss" by (auto simp: synced_def eof_rec_def rb_inv_def rb_def)
  from recs_snoc [OF zs(2)] obtain xs ys where
    xy: "zs = xs @ Rec SAMPLE_TYPE_EOF [] # ys" "recs xs = rs" by blast
  have h: "rb_holds rb (xs @ Rec SAMPLE_TYPE_EOF [] # ys)" using zs(1) xy(1) by simp
  then have g: "rb_geom rb" by (simp add: rb_holds_def)
  have u: "at_pos rb (unat (rb_tail rb)) u" "ur_consumed u = 0"
    using s by (simp_all add: synced_def rb_def u_def)
  have "unat (ur_size u) = rb_cap rb" using u(1) by (simp add: at_pos_def rb_cap_def)
  moreover have "4 * length (recs zs) < rb_cap rb" using zs(1) by (rule holds_length)
  moreover have "rb_cap rb \<le> 4194304" using rb_geom_bounds(9) [OF g] .
  ultimately have nr: "int (length (recs xs)) < sint (ur_size u)"
    using zs(2) xy(2) by (simp add: sint_small)
  have "list_all2 decodes (recs xs) ss" using zs(3) xy(2) by simp
  from read_samples_eof [OF h u this nr] obtain u' bytes where r:
    "read_samples (mapped (ur_addr u) rb) (ur_size u) u =
       Some (0, Some (of_nat (length ss + 1), bytes), u', ss)" .
  define st' where "st' = \<lparr>se_rb = smon_rb_read (of_nat (length ss + 1)) bytes rb, se_ur = u',
      se_out = se_out st @ ss\<rparr>"
  have sr: "session_read (ur_size (se_ur st)) st = Some (0, st')"
    using r unfolding session_read_def rb_def [symmetric] u_def [symmetric] by (simp add: st'_def)
  have "4 * length (recs zs) \<le> span (unat (rb_tail rb)) zs - unat (rb_tail rb)"
    using span_recs [of "unat (rb_tail rb)" zs] by simp
  then have "\<not> smon_rb_is_empty rb"
    using holds_count(1) [OF zs(1)] zs(2) by (auto simp: smon_rb_is_empty_def)
  moreover have "\<not> smon_rb_is_active rb" using a by (simp add: smon_rb_is_active_def rb_def)
  ultimately have "\<not> smon_poll (Some (se_rb st)) AND POLLIN \<noteq> 0" "smon_poll (Some (se_rb st)) AND POLLHUP \<noteq> 0"
    by (simp_all add: poll_in poll_hup rb_def)
  then have "sampling_round b st = Some (0, True, st')"
    by (simp add: sampling_round_def Let_def sr)
  then show thesis by (rule that) (simp add: st'_def)
qed

section \<open>A whole session\<close>

text \<open>
  The buffer as \<^verbatim>\<open>smon_create_task\<close> leaves it for the first task of an environment with the batch size
  \<open>b\<close> (0 keeps the default), and the reader's cursor at the start of \<^verbatim>\<open>start_sampling\<close>.
\<close>

definition new_session :: "i32 \<Rightarrow> u64 \<Rightarrow> smon_ring_buffer \<Rightarrow> session" where
  "new_session b addr rb =
     \<lparr>se_rb = (if b > 0 then (smon_get_rb rb)\<lparr>rb_batch := b\<rparr> else smon_get_rb rb),
      se_ur = smon_rb_init addr (rb_n_pages rb), se_out = []\<rparr>"

lemma new_session_synced:
  assumes "smon_mmap p q ok junk vs ve d = Some (0, Some rb, ps)"
    and "drop_bit PAGE_SHIFT (ve - vs) < 2 ^ 32"
  shows "synced b False (new_session b addr rb) []" "rb_active (se_rb (new_session b addr rb)) = 1"
    "se_out (new_session b addr rb) = []"
proof -
  note m = mmap_holds [OF assms]
  define rb' u where "rb' = rb\<lparr>rb_active := rb_active rb + 1, rb_batch := (if b > 0 then b else rb_batch rb)\<rparr>"
    and "u = smon_rb_init addr (rb_n_pages rb)"
  have st: "new_session b addr rb = \<lparr>se_rb = rb', se_ur = u, se_out = []\<rparr>"
    by (simp add: new_session_def smon_get_rb_def rb'_def u_def)
  have i: "rb_inv rb' []" unfolding rb'_def rb_inv_batch rb_inv_active by (rule m(1))
  have a: "at_pos rb' (unat (rb_tail rb')) u"
    unfolding at_pos_def u_def rb'_def smon_rb_init_def by (simp add: m(4,5))
  have "ur_consumed u = 0" "b \<noteq> 0 \<longrightarrow> rb_batch rb' = b"
    by (simp_all add: u_def rb'_def smon_rb_init_def word_gt_0)
  with i a show "synced b False (new_session b addr rb) []"
    unfolding synced_def st by (simp add: eof_rec_def)
  show "rb_active (se_rb (new_session b addr rb)) = 1" by (simp add: st rb'_def m(3))
  show "se_out (new_session b addr rb) = []" by (simp add: st)
qed

end
