(* ===== verification/Prop_Buffer.thy ===== *)
theory Prop_Buffer
  imports Example_States Pipeline
begin

text \<open>
  The properties of the ring buffer, of its mapping into the monitoring program, and of the reader.
\<close>

section \<open>A concrete buffer\<close>

definition ex_session :: session where
  "ex_session = \<lparr>se_rb = ex_rb 1, se_ur = smon_rb_init 65536 2, se_out = []\<rparr>"

abbreviation ex_fork :: smon_sample where
  "ex_fork \<equiv> ForkSample \<lparr>sf_timestamp = 7, sf_parent = 3, sf_child = 4\<rparr>"

lemma ex_rb_fits: "rb_fits (ex_rb n) 16" "rb_fits (ex_rb n) 0"
  by (simp_all add: rb_fits_def rb_need_def ex_rb_def RB_COUNT_def RB_COUNT_of_def header_size_def rb_cap_def)

lemma ex_session_synced: "synced 1 False ex_session []"
proof -
  have "rb_inv (ex_rb 1) ([] @ eof_rec False)" using ex_rb_inv by (simp add: eof_rec_def)
  then show ?thesis unfolding synced_def ex_session_def
    by (auto simp: at_pos_def smon_rb_init_def ex_rb_def PAGE_SIZE_def intro!: exI [of _ "[]"])
qed

lemma ex_session_one:
  obtains st where "pipe_exec 1 (Emit 0 ex_fork) ex_session = Some st" "synced 1 False st [ex_fork]"
    "rb_active (se_rb st) = 1"
proof -
  have f: "rb_fits (se_rb ex_session) (length (sample_image 0 ex_fork))"
    using ex_rb_fits by (simp add: ex_session_def image_length sizeof_fork_def)
  from emit_step [OF ex_session_synced, of ex_fork 0] f obtain st where
    "pipe_exec 1 (Emit 0 ex_fork) ex_session = Some st" "synced 1 False st [ex_fork]"
    "rb_active (se_rb st) = rb_active (se_rb ex_session)" by auto
  then show thesis using that by (simp add: ex_session_def ex_rb_def)
qed

lemma ex_session_room:
  assumes "pipe_exec 1 (Emit 0 ex_fork) ex_session = Some st"
  shows "rb_fits (se_rb st) 0"
proof -
  have "rb_head (se_rb st) = 20 \<and> rb_tail (se_rb st) = 0 \<and> rb_size (se_rb st) = 8192"
    using assms by (auto simp: ex_session_def ex_rb_def smon_rb_write_def rb_put_def rb_copy_def Let_def
      sample_size_of_def sample_type_defs sizeof_defs header_size_def HEAD_OFFSET_def HEAD_PAGE_def PAGE_SIZE_def
      PAGE_SHIFT_def RB_SPACE_def RB_SPACE_of_def RB_COUNT_of_def RB_PAGE_SPACE_def HEAD_TRIM_PAGE_def RB_PAGEMASK_def
      image_length bind_eq_Some_conv split: if_splits)
  then show ?thesis by (simp add: rb_fits_def rb_need_def RB_COUNT_def RB_COUNT_of_def header_size_def rb_cap_def)
qed

section \<open>The buffer as a queue\<close>

text \<open>
  C12: writing a sample never faults; when the buffer has room for it, the pad of a page that is closed
  early included, it is the new last record, otherwise it is dropped and the records are as they were;
  the reader is woken up exactly when a batch is complete.
\<close>

theorem write_is_enqueue:
  assumes "rb_inv rb rs" and "sample_wf s"
  shows "\<exists>rb'. smon_rb_write (sample_type s) (sample_image pad s) rb = Some rb' \<and> rb_same rb rb' \<and>
    (if rb_fits rb (length (sample_image pad s))
     then rb_inv rb' (rs @ [Rec (sample_type s) (sample_image pad s)]) \<and>
       (rb_irq rb' \<longleftrightarrow> rb_irq rb \<or> rb_items rb' \<ge> rb_batch rb)
     else rb_inv rb' rs \<and> rb_irq rb' = rb_irq rb)"
  using rb_inv_write [OF assms(1) sample_size_image [OF assms(2), of pad] order_refl]
  by (simp only: take_all [OF order_refl])

theorem write_is_enqueue_witness:
  "\<exists>rb'. smon_rb_write SAMPLE_TYPE_FORK (sample_image 0 ex_fork) (ex_rb 1) = Some rb' \<and>
     rb_inv rb' [Rec SAMPLE_TYPE_FORK (sample_image 0 ex_fork)] \<and> rb_irq rb'"
proof -
  have f: "rb_fits (ex_rb 1) (length (sample_image 0 ex_fork))"
    using ex_rb_fits by (simp add: image_length sizeof_fork_def)
  have b: "rb_batch (ex_rb 1) = 1" "\<not> rb_irq (ex_rb 1)" by (simp_all add: ex_rb_def)
  from write_is_enqueue [OF ex_rb_inv [of 1], where s = ex_fork and pad = 0] f b obtain rb' where
    w: "smon_rb_write SAMPLE_TYPE_FORK (sample_image 0 ex_fork) (ex_rb 1) = Some rb'"
      "rb_inv rb' [Rec SAMPLE_TYPE_FORK (sample_image 0 ex_fork)]" "rb_irq rb' \<longleftrightarrow> rb_items rb' \<ge> 1"
    by auto
  have "unat (rb_items rb') = 1" using w(2) by (auto simp: rb_inv_def)
  then show ?thesis using w by (auto simp: word_le_nat_alt)
qed

text \<open>
  A sequence of writes leaves in the buffer the records that were there, followed by some of the
  new samples in the order in which they were written, none altered, doubled or invented.
\<close>

lemma writes_keep_order:
  assumes "rb_inv rb rs" and "list_all (\<lambda>(pad, s). sample_wf s) ws"
  shows "\<exists>rb' ys. fold_opt (\<lambda>(pad, s). smon_rb_write (sample_type s) (sample_image pad s)) ws rb = Some rb' \<and>
    rb_inv rb' (rs @ ys) \<and> subseq ys (map (\<lambda>(pad, s). Rec (sample_type s) (sample_image pad s)) ws)"
proof -
  define vs where "vs = map (\<lambda>(pad, s). (sample_type s, sample_image pad s)) ws"
  have "\<exists>n. sample_size_of ty = Some n \<and> length b = n" if "(ty, b) \<in> set vs" for ty b
    using that assms(2) by (auto simp: vs_def list_all_iff sample_size_image)
  from fifo.write_all_subseq [OF assms(1) this] obtain rb' ys where
    w: "fold_opt (\<lambda>(ty, s). smon_rb_write ty s) vs rb = Some rb'" "rb_inv rb' (rs @ ys)"
      "subseq ys (map (\<lambda>(ty, s). Rec ty s) vs)" by blast
  have "fold_opt (\<lambda>(ty, s). smon_rb_write ty s) vs rb =
      fold_opt (\<lambda>(pad, s). smon_rb_write (sample_type s) (sample_image pad s)) ws rb" unfolding vs_def
    by (induction ws arbitrary: rb) (auto split: bind_splits)
  moreover have "map (\<lambda>(ty, s). Rec ty s) vs = map (\<lambda>(pad, s). Rec (sample_type s) (sample_image pad s)) ws"
    by (auto simp: vs_def)
  ultimately show ?thesis using w by metis
qed

text \<open>
  C22: when the last writer leaves, the end-of-file record is appended if there is room for a header,
  and the reader is woken up; without room the record is lost. While there are other writers nothing
  but the count changes.
\<close>

theorem last_release:
  assumes "rb_inv rb rs"
  shows "\<exists>rb'. smon_release_rb rb = Some rb' \<and> rb_active rb' = rb_active rb - 1 \<and>
    (if rb_active rb = 1
     then rb_irq rb' \<and> rb_inv rb' (if rb_fits rb 0 then rs @ [Rec SAMPLE_TYPE_EOF []] else rs)
     else rb_inv rb' rs \<and> rb_irq rb' = rb_irq rb)"
  using release_rb_spec [OF assms] by blast

theorem last_release_witness:
  "\<exists>rb'. smon_release_rb (ex_rb 1) = Some rb' \<and> rb_inv rb' [Rec SAMPLE_TYPE_EOF []]"
  using last_release [OF ex_rb_inv, of 1] ex_rb_fits(2) [of 1] by (auto simp: ex_rb_def)

section \<open>Memory safety\<close>

text \<open>
  C13: on a buffer that a mapping of fewer than \<open>2\<^sup>3\<^sup>2\<close> pages has created no sequence of operations, written samples
  having at least the size of their type and the reader reporting any numbers it likes, makes a copy leave the data pages, and head and tail stay inside the
  buffer. A mapping of more pages, when it succeeds, creates a buffer of no page, and there the very first
  sample, of any type, is copied outside.
\<close>

theorem buffer_memory_safe:
  assumes "smon_mmap a b ok junk vs ve d = Some (0, Some rb, ps)" and "list_all op_wf ops"
  shows "if drop_bit PAGE_SHIFT (ve - vs) < 2 ^ 32
    then \<exists>rb'. fold_opt rb_exec ops rb = Some rb' \<and> unat (rb_head rb') < unat (rb_size rb') \<and>
      unat (rb_tail rb') < unat (rb_size rb') \<and> unat (rb_size rb') = 4096 * unat (rb_n_pages rb')
    else rb_n_pages rb = 0 \<and> (\<forall>ty n s. sample_size_of ty = Some n \<longrightarrow> smon_rb_write ty s rb = None)"
proof (cases "drop_bit PAGE_SHIFT (ve - vs) < 2 ^ 32")
  case True
  have "rb_geom rb" using mmap_holds(1) [OF assms(1) True] by (auto simp: rb_inv_def rb_holds_def)
  from rb_run_safe [OF assms(2) geom_safe [OF this]] obtain rb' where
    r: "fold_opt rb_exec ops rb = Some rb'" "rb_safe rb'" by blast
  from rb_safe_bounds [OF r(2)] r True show ?thesis by (auto simp: rb_safe_def rb_cap_def)
next
  case False
  then show ?thesis using mmap_huge_rb [OF assms(1) False] by simp
qed

lemma mmap_ex:
  obtains rb ps where "smon_mmap True True (\<lambda>_. True) (\<lambda>_ _. 0) 0 8192 None = Some (0, Some rb, ps)"
    "rb = ex_rb 0"
  by (simp add: smon_mmap_def PAGE_SHIFT_def is_power_of_2_def smon_create_rb_def SMON_MAX_PAGES_def PAGE_SIZE_def
      RB_DEFAULT_BATCH_def first_failure_None [THEN iffD2] ex_rb_def)

theorem buffer_memory_safe_witness:
  "\<exists>rb'. fold_opt rb_exec [OpGet, OpWrite SAMPLE_TYPE_FORK (replicate 16 1), OpRead 0xFFFFFFFF 3,
       OpWrite SAMPLE_TYPE_PMC (replicate 96 2), OpRelease] (ex_rb 0) = Some rb' \<and>
     unat (rb_head rb') < unat (rb_size rb')"
proof -
  have w: "list_all op_wf [OpGet, OpWrite SAMPLE_TYPE_FORK (replicate 16 1), OpRead 0xFFFFFFFF 3,
       OpWrite SAMPLE_TYPE_PMC (replicate 96 2), OpRelease]"
    by (simp add: sample_size_of_def sample_type_defs sizeof_defs)
  have s: "drop_bit PAGE_SHIFT ((8192 :: u64) - 0) < 2 ^ 32" by (simp add: PAGE_SHIFT_def)
  obtain rb ps where "smon_mmap True True (\<lambda>_. True) (\<lambda>_ _. 0) 0 8192 None = Some (0, Some rb, ps)" "rb = ex_rb 0"
    by (rule mmap_ex)
  with buffer_memory_safe [OF _ w, of True True] s show ?thesis by (metis (full_types))
qed

section \<open>Creating the buffer\<close>

text \<open>
  C24: with memory at hand, a mapping of 2, 4, 8, up to 1024 pages gives the file an empty buffer of as many
  pages; a mapping of a power of two of \<open>2\<^sup>3\<^sup>2\<close> pages or more, whose number is cut to 32 bits after the tests,
  gives it a buffer of no page; any other size is refused and changes nothing.
\<close>

theorem mapping_sizes:
  "let n = unat (drop_bit PAGE_SHIFT (ve - vs)); m = smon_mmap True True (\<lambda>_. True) junk vs ve d
   in if n \<in> (^) 2 ` {1..10}
      then \<exists>rb ps. m = Some (0, Some rb, ps) \<and> rb_inv rb [] \<and> unat (rb_n_pages rb) = n \<and> rb_active rb = 0
      else if n \<in> (^) 2 ` {32..51} then \<exists>rb. m = Some (0, Some rb, []) \<and> rb_n_pages rb = 0
      else m = Some (- ENODEV, d, [])"
  unfolding Let_def by (rule mmap_sizes)

text \<open>
  C40: the error path of the creation, when the memory for page \<open>i\<close> is refused: the pages from
  \<open>i - 1\<close> down to 1 are freed and page 0 never is; when it is the very first page, the loop reads the
  page array in front of its start.
\<close>

theorem create_error_path:
  assumes "n \<le> SMON_MAX_PAGES" and "i < unat n" and "\<not> ok i" and "\<forall>j < i. ok j"
  shows "smon_create_rb True True ok junk n = (if i = 0 then None else Some (None, [0]))"
proof -
  have f: "first_failure ok (unat n) = Some i" using assms(2-4) by (simp add: first_failure_Some)
  show ?thesis
  proof (cases i)
    case 0
    then show ?thesis using f assms(1) by (simp add: smon_create_rb_def)
  next
    case (Suc j)
    have "filter (\<lambda>p. p \<notin> set (rev [1..<Suc j])) [0..<Suc j] = [0]"
      by (auto simp: upt_conv_Cons simp del: upt_Suc)
    then show ?thesis using f assms(1) Suc by (simp add: smon_create_rb_def free_pages_down_Suc del: upt_Suc)
  qed
qed

theorem create_error_path_witness:
  "smon_create_rb True True (\<lambda>i. i \<noteq> 0) (\<lambda>_ _. 0) 8 = None \<and>
     smon_create_rb True True (\<lambda>i. i \<noteq> 5) (\<lambda>_ _. 0) 8 = Some (None, [0])"
  using create_error_path [of 8 0 "\<lambda>i. i \<noteq> 0"] create_error_path [of 8 5 "\<lambda>i. i \<noteq> 5"]
  by (simp add: SMON_MAX_PAGES_def)

section \<open>The reader\<close>

text \<open>
  The reader is told that there is something to read exactly when a batch of records is in the buffer
  and a writer is left, and that the writers have gone whenever they have and records remain.
\<close>

lemma poll_reports:
  assumes "rb_inv rb rs"
  shows "(smon_poll (Some rb) AND POLLIN \<noteq> 0 \<longleftrightarrow> unat (rb_batch rb) \<le> length rs \<and> 0 < sint (rb_active rb)) \<and>
    (rs \<noteq> [] \<and> sint (rb_active rb) \<le> 0 \<longrightarrow> smon_poll (Some rb) AND POLLHUP \<noteq> 0)"
proof -
  from assms obtain xs where x: "rb_holds rb xs" "recs xs = rs" "unat (rb_items rb) = length rs"
    by (auto simp: rb_inv_def)
  have "RB_COUNT rb \<noteq> 0" if "rs \<noteq> []"
    using holds_count(1) [OF x(1)] span_recs [of "unat (rb_tail rb)" xs] that x(2)
    by (cases "recs xs") auto
  then show ?thesis
    using x(3) by (auto simp: poll_in poll_hup smon_rb_batch_available_def smon_rb_is_active_def
        smon_rb_is_empty_def word_le_nat_alt)
qed

text \<open>
  C23: the bytes of a sample, copied by the driver and read at the offsets the tool uses, give back the
  sample, whatever the uninitialised padding holds, and every kind of sample has the size that the
  driver's switch assigns to its type.
\<close>

theorem sample_image_roundtrip:
  assumes "sample_wf s"
  shows "decode_sample (sample_type s) (sample_image pad s) = Some s \<and>
    sample_size_of (sample_type s) = Some (length (sample_image pad s))"
  using decode_sample_image [OF assms] sample_size_image [OF assms] by simp

theorem sample_image_roundtrip_witness:
  "decode_sample SAMPLE_TYPE_PMC (sample_image 0 (PmcSample zero_sample_pmc)) = Some (PmcSample zero_sample_pmc)"
  using sample_image_roundtrip [of "PmcSample zero_sample_pmc" 0] pmc_wf_zero by simp

text \<open>
  C21: a read of at most as many samples as the buffer holds prints the oldest ones, in order, and leaves
  the others; afterwards the reader's cursor and the driver's tail are again at the same place.
\<close>

theorem read_takes_oldest:
  assumes "synced b e st ss" and "unat nr \<le> length ss"
  shows "\<exists>st'. session_read nr st = Some (0, st') \<and> synced b e st' (drop (unat nr) ss) \<and>
    se_out st' = se_out st @ take (unat nr) ss"
  using session_read_spec [OF assms] by blast

theorem read_takes_oldest_witness:
  "\<exists>st st'. pipe_exec 1 (Emit 0 ex_fork) ex_session = Some st \<and> session_read 1 st = Some (0, st') \<and>
     se_out st' = se_out st @ [ex_fork]"
proof -
  obtain st where st: "pipe_exec 1 (Emit 0 ex_fork) ex_session = Some st" "synced 1 False st [ex_fork]"
    by (rule ex_session_one)
  with read_takes_oldest [OF st(2), of 1] show ?thesis by auto
qed

end
