(* ===== verification/Kernel_Effects.thy ===== *)
theory Kernel_Effects
  imports Kernel_Register
begin

text \<open>
  What the timer and the hooks on fork and exit do to the task they find, beyond keeping the
  invariant: the functional behaviour on the path on which a monitored task is involved.
\<close>

section \<open>The sampling routines\<close>

definition read_clock :: "kstate \<Rightarrow> i64" where
  "read_clock ks = tsc_src (ks_mach ks) (tsc_n (ks_mach ks))"

text \<open>The sample that is saved when the counters have been read as \<open>p\<close> at the time \<open>tsc\<close>.\<close>

definition finished_sample :: "smon_task \<Rightarrow> i64 \<Rightarrow> smon_pmc \<Rightarrow> smon_sample_pmc" where
  "finished_sample t tsc p =
     \<lparr>sp_start = sp_start (t_sample_pmc t), sp_stop = tsc,
      sp_duration = sp_duration (t_sample_pmc t) + (tsc - t_tsc_tmp t), sp_pid = t_pid t, sp_pmc = p,
      sp_evset = t_evset t\<rparr>"

text \<open>What the counters of the task's current event-set are when they are stopped now.\<close>

definition counters_now :: "smon_task \<Rightarrow> kstate \<Rightarrow> smon_pmc option" where
  "counters_now t ks = do {
     e \<leftarrow> task_envir t ks;
     s \<leftarrow> smon_envir_get_evset e (t_evset t) (ks_evsets ks);
     smon_pmc_read s (smon_pmc_stop (ks_mach ks))
   }"

lemma stopped_sample:
  "(finished_sample t tsc p)\<lparr>sp_pid := sp_pid (t_sample_pmc t), sp_evset := sp_evset (t_sample_pmc t)\<rparr> =
     (t_sample_pmc t)\<lparr>sp_stop := tsc, sp_duration := sp_duration (t_sample_pmc t) + (tsc - t_tsc_tmp t), sp_pmc := p\<rparr>"
  by (simp add: finished_sample_def)

lemma sample_stop_effect:
  assumes "smon_sample_stop a ks = Some ks'" and "ks_tasks ks a = Some t"
  obtains e s p where "task_envir t ks = Some e" "smon_envir_get_evset e (t_evset t) (ks_evsets ks) = Some (Some s)"
    "smon_pmc_read (Some s) (smon_pmc_stop (ks_mach ks)) = Some p"
    "ks_tasks ks' = (ks_tasks ks)(a \<mapsto> t\<lparr>t_sample_pmc := (finished_sample t (read_clock ks) p)
       \<lparr>sp_pid := sp_pid (t_sample_pmc t), sp_evset := sp_evset (t_sample_pmc t)\<rparr>\<rparr>)"
    "ks_rbs ks' = ks_rbs ks" "ks_envirs ks' = ks_envirs ks" "ks_evsets ks' = ks_evsets ks" "ks_events ks' = ks_events ks"
proof -
  have m: "smon_pmc_read (Some s) (m\<lparr>tsc_n := n\<rparr>) = smon_pmc_read (Some s) m" for s m n
    by (simp add: smon_pmc_read_def msr_read_regs split_beta)
  from assms obtain e ev p where e: "task_envir t ks = Some e"
    "smon_envir_get_evset e (t_evset t) (ks_evsets ks) = Some ev"
    "smon_pmc_read ev (snd (msr_rdtsc (smon_pmc_stop (ks_mach ks)))) = Some p"
    and k: "ks' = put_task a (t\<lparr>t_sample_pmc := (finished_sample t (read_clock ks) p)
       \<lparr>sp_pid := sp_pid (t_sample_pmc t), sp_evset := sp_evset (t_sample_pmc t)\<rparr>\<rparr>)
       (ks\<lparr>ks_mach := snd (msr_rdtsc (smon_pmc_stop (ks_mach ks)))\<rparr>)"
    by (auto simp: smon_sample_stop_def bind_eq_Some_conv Let_def msr_rdtsc_eq smon_pmc_stop_def stopped_sample
        read_clock_def)
  from e(3) obtain s where s: "ev = Some s" by (cases ev) (auto simp: smon_pmc_read_def)
  show thesis
    by (rule that [of e s p]) (use e s k m in \<open>simp_all add: put_task_def msr_rdtsc_eq\<close>)
qed

lemma sample_save_effect:
  assumes "smon_sample_save a ks = Some ks'" and "ks_tasks ks a = Some t" and "task_envir t ks = Some e"
  obtains j where "smon_envir_next_evset e (t_evset t) = Some j"
    "ks_tasks ks' = (ks_tasks ks)(a \<mapsto> t\<lparr>t_sample_pmc := zero_sample_pmc, t_evset := j\<rparr>)"
    "\<forall>r rb. t_rb t = Some r \<longrightarrow> ks_rbs ks r = Some rb \<longrightarrow> ks_rbs ks' r =
       smon_rb_write SAMPLE_TYPE_PMC (pmc_image ((t_sample_pmc t)\<lparr>sp_pid := t_pid t, sp_evset := t_evset t\<rparr>)) rb"
    "ks_envirs ks' = ks_envirs ks" "ks_evsets ks' = ks_evsets ks" "ks_events ks' = ks_events ks"
  using assms
  by (cases "t_rb t")
     (fastforce simp: smon_sample_save_def smon_sample_write_def bind_eq_Some_conv task_envir_def put_task_def put_rb_def Let_def)+

lemma sample_start_effect:
  assumes "smon_sample_start a ks = Some ks'" and "ks_tasks ks a = Some t"
  obtains t' where "ks_tasks ks' = (ks_tasks ks)(a \<mapsto> t')" "ks_rbs ks' = ks_rbs ks"
    "t_evset t' = t_evset t" "t_kt_remain t' = t_kt_remain t" "t_timer t' = t_timer t"
    "sp_duration (t_sample_pmc t') = sp_duration (t_sample_pmc t)"
proof -
  define u where "u = (\<lambda>tsc. if sp_start (t_sample_pmc t) = 0
      then t\<lparr>t_tsc_tmp := tsc, t_sample_pmc := (t_sample_pmc t)\<lparr>sp_start := tsc\<rparr>\<rparr> else t\<lparr>t_tsc_tmp := tsc\<rparr>)"
  have "ks' = ks \<or> (\<exists>tsc m. ks' = put_task a (u tsc) (ks\<lparr>ks_mach := m\<rparr>))"
  proof -
    from assms obtain e i ev where e: "task_envir t ks = Some e" "envir_esid e (t_evset t) = Some i"
      "smon_get_evset i (ks_evsets ks) = Some ev"
      by (auto simp: smon_sample_start_def bind_eq_Some_conv)
    show ?thesis
    proof (cases ev)
      case None
      then show ?thesis using assms e by (simp add: smon_sample_start_def)
    next
      case (Some s)
      with assms e obtain m where m: "smon_pmc_set s (ks_events ks) (ks_mach ks) = Some m"
        by (auto simp: smon_sample_start_def bind_eq_Some_conv)
      define k where "k = smon_pmc_write (sp_pmc (t_sample_pmc t)) m"
      have "ks' = put_task a (u (tsc_src k (tsc_n k))) (ks\<lparr>ks_mach := smon_pmc_start s (k\<lparr>tsc_n := Suc (tsc_n k)\<rparr>)\<rparr>)"
        using assms e Some m by (auto simp: smon_sample_start_def Let_def msr_rdtsc_eq u_def k_def split: if_splits)
      then show ?thesis by blast
    qed
  qed
  then obtain t' where "ks_tasks ks' = (ks_tasks ks)(a \<mapsto> t')" "ks_rbs ks' = ks_rbs ks" "t' = t \<or> (\<exists>tsc. t' = u tsc)"
  proof (elim disjE exE)
    assume "ks' = ks"
    then show thesis using assms(2) by (intro that [of t]) (simp_all add: fun_upd_idem)
  next
    fix tsc m assume "ks' = put_task a (u tsc) (ks\<lparr>ks_mach := m\<rparr>)"
    then show thesis by (intro that [of "u tsc"]) (auto simp: put_task_def)
  qed
  then show thesis by (intro that [of t']) (auto simp: u_def)
qed

section \<open>The timer\<close>

lemma timer_tick_effect:
  assumes i: "kinv ks" and t: "ks_tasks ks a = Some t" and on: "t_timer_flags t AND SMON_TIMER_ON \<noteq> 0"
    and e: "task_envir t ks = Some e" and r: "t_rb t = Some r" "ks_rbs ks r = Some rb"
  obtains ks' t' s p where "smon_sched_timer_tick a ks = Some (True, ks')" "ks_tasks ks' a = Some t'"
    "smon_envir_get_evset e (t_evset t) (ks_evsets ks) = Some (Some s)"
    "smon_pmc_read (Some s) (smon_pmc_stop (ks_mach ks)) = Some p"
    "ks_rbs ks' r = smon_rb_write SAMPLE_TYPE_PMC (pmc_image (finished_sample t (read_clock ks) p)) rb"
    "unat (t_evset t') = Suc (unat (t_evset t)) mod unat (n_esids e)"
    "t_kt_remain t' = ktime_of_ms (sample_time e)" "tm_kt (t_timer t') = ktime_of_ms (sample_time e)"
    "sp_duration (t_sample_pmc t') = 0"
proof -
  have l: "task_live ks a" using t by (simp add: task_live_def)
  from sample_stop_keeps [OF i l] obtain k1 where 1: "smon_sample_stop a ks = Some k1" "sim ks k1" by (rule keepsE)
  from sample_stop_effect [OF 1(1) t] e obtain s p where s:
    "smon_envir_get_evset e (t_evset t) (ks_evsets ks) = Some (Some s)"
    "smon_pmc_read (Some s) (smon_pmc_stop (ks_mach ks)) = Some p"
    "ks_tasks k1 = (ks_tasks ks)(a \<mapsto> t\<lparr>t_sample_pmc := (finished_sample t (read_clock ks) p)
       \<lparr>sp_pid := sp_pid (t_sample_pmc t), sp_evset := sp_evset (t_sample_pmc t)\<rparr>\<rparr>)"
    "ks_rbs k1 = ks_rbs ks" "ks_envirs k1 = ks_envirs ks"
    by (metis option.inject)
  define t1 where "t1 = t\<lparr>t_sample_pmc := (finished_sample t (read_clock ks) p)
       \<lparr>sp_pid := sp_pid (t_sample_pmc t), sp_evset := sp_evset (t_sample_pmc t)\<rparr>\<rparr>"
  have t1: "ks_tasks k1 a = Some t1" "task_envir t1 k1 = Some e"
    using s(3,5) e by (simp_all add: t1_def task_envir_def)
  have img: "(t_sample_pmc t1)\<lparr>sp_pid := t_pid t1, sp_evset := t_evset t1\<rparr> = finished_sample t (read_clock ks) p"
    by (simp add: t1_def finished_sample_def)
  note i1 = sim_kinv [OF i 1(2)] and l1 = l [folded sim_live [OF 1(2)]]
  from sample_save_keeps [OF i1 l1] obtain k2 where 2: "smon_sample_save a k1 = Some k2" "sim k1 k2" by (rule keepsE)
  have rt: "t_rb t1 = Some r" "ks_rbs k1 r = Some rb" using r s(4) by (simp_all add: t1_def)
  from sample_save_effect [OF 2(1) t1] obtain j where j: "smon_envir_next_evset e (t_evset t1) = Some j"
    "ks_tasks k2 = (ks_tasks k1)(a \<mapsto> t1\<lparr>t_sample_pmc := zero_sample_pmc, t_evset := j\<rparr>)"
    and w0: "\<forall>r rb. t_rb t1 = Some r \<longrightarrow> ks_rbs k1 r = Some rb \<longrightarrow> ks_rbs k2 r =
       smon_rb_write SAMPLE_TYPE_PMC (pmc_image ((t_sample_pmc t1)\<lparr>sp_pid := t_pid t1, sp_evset := t_evset t1\<rparr>)) rb"
    and ev: "ks_envirs k2 = ks_envirs k1" "ks_evsets k2 = ks_evsets k1" "ks_events k2 = ks_events k1" .
  have w: "ks_rbs k2 r = smon_rb_write SAMPLE_TYPE_PMC (pmc_image (finished_sample t (read_clock ks) p)) rb"
    using w0 rt unfolding img by blast
  define u where "u = t1\<lparr>t_sample_pmc := zero_sample_pmc, t_evset := j\<rparr>"
  have u: "ks_tasks k2 a = Some u" "task_envir u k2 = Some e"
    using j(2) ev t1(2) by (simp_all add: u_def task_envir_def)
  define v where "v = u\<lparr>t_timer := hrtimer_forward (ktime_of_ms (sample_time e)) (t_timer u),
      t_kt_remain := ktime_of_ms (sample_time e)\<rparr>"
  have 3: "sim k2 (put_task a v k2)" unfolding v_def by (rule sim_put_task [OF u(1)]) simp
  note i2 = sim_kinv [OF i1 2(2)] and l2 = l1 [folded sim_live [OF 2(2)]]
  have "keeps (put_task a v k2) (smon_sample_start a (put_task a v k2))"
    by (intro sample_start_keeps sim_kinv [OF i2 3]) (simp add: sim_live [OF 3] l2)
  then obtain k4 where 4: "smon_sample_start a (put_task a v k2) = Some k4" by (rule keepsE)
  have "ks_tasks (put_task a v k2) a = Some v" by (simp add: put_task_def)
  from sample_start_effect [OF 4 this] obtain t' where "ks_tasks k4 = (ks_tasks (put_task a v k2))(a \<mapsto> t')"
    "ks_rbs k4 = ks_rbs (put_task a v k2)" "t_evset t' = t_evset v" "t_kt_remain t' = t_kt_remain v"
    "t_timer t' = t_timer v" "sp_duration (t_sample_pmc t') = sp_duration (t_sample_pmc v)" .
  then have t': "ks_tasks k4 a = Some t'" "ks_rbs k4 = ks_rbs k2"
    "t_evset t' = j" "t_kt_remain t' = ktime_of_ms (sample_time e)" "tm_kt (t_timer t') = ktime_of_ms (sample_time e)"
    "sp_duration (t_sample_pmc t') = 0"
    by (simp_all add: v_def u_def put_task_def hrtimer_forward_def zero_sample_pmc_def)
  have tick: "smon_sched_timer_tick a ks = Some (True, k4)"
    using t on 1(1) 2(1) u 4 by (simp add: smon_sched_timer_tick_def v_def)
  have "unat j = Suc (unat (t_evset t)) mod unat (n_esids e)"
  proof -
    from kinvD [OF i t] e have "envir_wf e" "unat (t_evset t) < unat (n_esids e)"
      by (metis option.inject task_local_def)+
    then have "unat (t_evset t + 1) = Suc (unat (t_evset t))"
      by (intro unat_inc [THEN trans]) (simp_all add: envir_wf_def MUX_EVSETS_def)
    then show ?thesis using j(1) by (auto simp: smon_envir_next_evset_def t1_def unat_mod split: if_splits)
  qed
  with that [OF tick t'(1) s(1,2)] w t' show thesis by simp
qed

section \<open>Exit and fork\<close>

lemma cancel_timer_sim:
  "task_sim es t (if tm_active (t_timer t) then t\<lparr>t_timer := hrtimer_cancel (t_timer t)\<rparr> else t)"
  by (simp add: task_sim_refl)

lemma exit_effect:
  assumes i: "kinv ks" and f: "find_entry (\<lambda>t. t_p t = Some p) ks (ks_cpu_list ks (ks_task_cpu ks p)) = Some (Some a)"
    and t: "ks_tasks ks a = Some t" and r: "t_rb t = Some r" "ks_rbs ks r = Some rb"
  obtains ks' t' rb' where "smon_sched_process_exit p ks = Some ks'" "ks_tasks ks' a = Some t'"
    "t_p t' = None" "t_rb t' = None" "\<not> tm_active (t_timer t')" "unlisted ks' a"
    "ks_rbs ks' r = Some rb'" "rb_active rb' = rb_active rb - 1" "kinv ks'"
    "\<exists>pm rb2. pmc_wf pm \<and> counters_now t ks = Some pm \<and>
       smon_rb_write SAMPLE_TYPE_PMC (pmc_image (finished_sample t (read_clock ks) pm)) rb = Some rb2 \<and>
       smon_release_rb rb2 = Some rb'"
proof -
  define c where "c = ks_task_cpu ks p"
  have a: "a \<in> set (ks_cpu_list ks c)" using find_entry_Some [OF f] by (simp add: c_def)
  have l: "task_live ks a" using t by (simp add: task_live_def)
  define t0 where "t0 = (if tm_active (t_timer t) then t\<lparr>t_timer := hrtimer_cancel (t_timer t)\<rparr> else t)"
  define k0 where "k0 = put_task a t0 ks"
  have s0: "sim ks k0" unfolding k0_def t0_def by (rule sim_put_task [OF t cancel_timer_sim])
  note i0 = sim_kinv [OF i s0] and l0 = l [folded sim_live [OF s0]]
  have t0: "ks_tasks k0 a = Some t0" "t_rb t0 = Some r" "\<not> tm_active (t_timer t0)" "ks_rbs k0 = ks_rbs ks"
    using r by (simp_all add: k0_def put_task_def t0_def hrtimer_cancel_def)
  have same: "finished_sample t0 (read_clock k0) = finished_sample t (read_clock ks)"
    by (simp add: fun_eq_iff finished_sample_def t0_def read_clock_def k0_def put_task_def)
  from sample_stop_keeps [OF i0 l0] obtain k1 where 1: "smon_sample_stop a k0 = Some k1" "sim k0 k1" by (rule keepsE)
  note i1 = sim_kinv [OF i0 1(2)] and l1 = l0 [folded sim_live [OF 1(2)]]
  obtain t1 pm e0 s where t1: "ks_tasks k1 a = Some t1" "t_rb t1 = Some r" "\<not> tm_active (t_timer t1)"
    and rb1: "ks_rbs k1 r = Some rb"
    and read: "task_envir t ks = Some e0" "smon_envir_get_evset e0 (t_evset t) (ks_evsets ks) = Some (Some s)"
      "smon_pmc_read (Some s) (smon_pmc_stop (ks_mach ks)) = Some pm"
    and img: "(t_sample_pmc t1)\<lparr>sp_pid := t_pid t1, sp_evset := t_evset t1\<rparr> = finished_sample t (read_clock ks) pm"
  proof (rule sample_stop_effect [OF 1(1) t0(1)])
    fix e0 s pm
    assume read: "task_envir t0 k0 = Some e0" "smon_envir_get_evset e0 (t_evset t0) (ks_evsets k0) = Some (Some s)"
      "smon_pmc_read (Some s) (smon_pmc_stop (ks_mach k0)) = Some pm"
    define t1 where "t1 = t0\<lparr>t_sample_pmc := (finished_sample t0 (read_clock k0) pm)
       \<lparr>sp_pid := sp_pid (t_sample_pmc t0), sp_evset := sp_evset (t_sample_pmc t0)\<rparr>\<rparr>"
    assume "ks_tasks k1 = (ks_tasks k0)(a \<mapsto> t0\<lparr>t_sample_pmc := (finished_sample t0 (read_clock k0) pm)
       \<lparr>sp_pid := sp_pid (t_sample_pmc t0), sp_evset := sp_evset (t_sample_pmc t0)\<rparr>\<rparr>)" "ks_rbs k1 = ks_rbs k0"
    moreover have "(t_sample_pmc t1)\<lparr>sp_pid := t_pid t1, sp_evset := t_evset t1\<rparr> = finished_sample t (read_clock ks) pm"
      unfolding t1_def same by (simp add: finished_sample_def t0_def)
    moreover have "task_envir t0 k0 = task_envir t ks" "t_evset t0 = t_evset t" "ks_evsets k0 = ks_evsets ks"
      "ks_mach k0 = ks_mach ks" by (simp_all add: task_envir_def k0_def t0_def put_task_def)
    ultimately show thesis using t0 r read by (intro that [of t1 e0 s pm]) (simp_all add: t1_def)
  qed
  from sample_save_keeps [OF i1 l1] obtain k2 where 2: "smon_sample_save a k1 = Some k2" "sim k1 k2" by (rule keepsE)
  note i2 = sim_kinv [OF i1 2(2)] and l2 = l1 [folded sim_live [OF 2(2)]]
  from kinvD [OF i1 t1(1)] obtain e where e: "task_envir t1 k1 = Some e" "task_local e t1" by metis
  have "pmc_wf (sp_pmc ((t_sample_pmc t1)\<lparr>sp_pid := t_pid t1, sp_evset := t_evset t1\<rparr>))"
    using e(2) by (simp add: task_local_def)
  then have wf: "pmc_wf pm" unfolding img by (simp add: finished_sample_def)
  obtain t2 where t2: "ks_tasks k2 a = Some t2" "t_rb t2 = Some r" "\<not> tm_active (t_timer t2)"
    and w: "ks_rbs k2 r = smon_rb_write SAMPLE_TYPE_PMC (pmc_image (finished_sample t (read_clock ks) pm)) rb"
    by (rule sample_save_effect [OF 2(1) t1(1) e(1)]) (use t1 rb1 img in simp)
  have s2: "sim ks k2" by (blast intro: sim_trans s0 1(2) 2(2))
  have "a \<in> set (ks_cpu_list k2 c)" using a by (simp add: sim_cpu_list [OF s2])
  from del_from_cpu_kinv [OF i2 this] obtain k3 where 3: "del_from_cpu c a k2 = Some k3" "kinv k3" "unlisted k3 a"
    "runnable k3 a" "k3 = k2\<lparr>ks_cpu_list := (ks_cpu_list k2)(c := remove1 a (ks_cpu_list k2 c))\<rparr>" .
  have t3: "ks_tasks k3 a = Some t2" using 3(5) t2 by simp
  have "t_p t2 \<noteq> None" using 3(4) t3 by (simp add: runnable_def)
  from retire_kinv [OF 3(2) t3 this 3(3)] t2(2) obtain rb2 rb' k4 where 4: "ks_rbs k3 r = Some rb2"
    "smon_release_rb rb2 = Some rb'" "retire_task a k3 = Some k4"
    "k4 = k3\<lparr>ks_tasks := (ks_tasks k3)(a \<mapsto> t2\<lparr>t_p := None, t_rb := None\<rparr>), ks_rbs := (ks_rbs k3)(r \<mapsto> rb')\<rparr>"
    by (metis option.inject)
  have "rb_active rb2 = rb_active rb"
    using sim_rb(2) [OF s2, of r rb2] 4(1) 3(5) r(2) by (auto simp: rb_sim_def)
  moreover have "rb_safe rb2" using 3(2) 4(1) by (auto simp: kinv_def)
  ultimately have act: "rb_active rb' = rb_active rb - 1" using release_safe [of rb2] 4(2) by (metis option.inject)
  define u where "u = (\<lambda>t :: smon_task. t\<lparr>t_extra := map_option (\<lambda>x. x\<lparr>x_rapl_timer := hrtimer_cancel (x_rapl_timer x)\<rparr>) (t_extra t)\<rparr>)"
  have e: "smon_sched_process_exit p ks = Some (put_task a (u (t2\<lparr>t_p := None, t_rb := None\<rparr>)) k4)"
    using f t 1(1) 2(1) 3(1) 4(3,4)
    by (simp add: smon_sched_process_exit_def Let_def modify_task_def c_def k0_def t0_def u_def)
  have "ks_rbs k3 r = ks_rbs k2 r" by (simp add: 3(5))
  then have last: "smon_rb_write SAMPLE_TYPE_PMC (pmc_image (finished_sample t (read_clock ks) pm)) rb = Some rb2"
    using w 4(1) by simp
  have "kinv (put_task a (u (t2\<lparr>t_p := None, t_rb := None\<rparr>)) k4)" using exit_safe [OF i, of p] e by (auto simp: safe_def)
  then show thesis
    by (intro that [OF e, of "u (t2\<lparr>t_p := None, t_rb := None\<rparr>)" rb'])
      (use 3(3,5) 4(2,4) t2 act wf last read in \<open>auto simp: counters_now_def put_task_def u_def unlisted_def\<close>)
qed

lemma fork_effect:
  assumes i: "kinv ks" and f: "find_entry (\<lambda>t. t_p t = Some parent) ks (ks_cpu_list ks (ks_task_cpu ks parent)) = Some (Some h)"
    and u: "ks_tasks ks h = Some u" and e: "task_envir u ks = Some e" "envir_option_inherit e" and a: "fresh_task ks a"
  obtains ks' t where "smon_sched_process_fork (Some a) parent child ks = Some ks'" "kinv ks'" "ks_tasks ks' a = Some t"
    "t_p t = Some child" "t_pid t = ks_pid ks child" "t_envir t = t_envir u" "t_rb t = t_rb u"
    "ks_cpu_list ks' = (ks_cpu_list ks)(ks_task_cpu ks child := a # ks_cpu_list ks (ks_task_cpu ks child))"
proof -
  have ru: "runnable ks h" using lists_okD(6) [OF i] find_entry_Some [OF f] by blast
  obtain k1 u' t where 1: "smon_sched_register_child (Some a) h child ks = Some (0, k1)" "kinv k1"
    "ks_tasks ks h = Some u'" "ks_tasks k1 a = Some t" "t_p t = Some child" "t_pid t = ks_pid ks child"
    "t_envir t = t_envir u'" "t_rb t = t_rb u'"
    "ks_cpu_list k1 = (ks_cpu_list ks)(ks_task_cpu ks child := a # ks_cpu_list ks (ks_task_cpu ks child))"
    and rbs: "\<forall>q. ks_rbs ks q \<noteq> None \<longrightarrow> ks_rbs k1 q \<noteq> None"
    by (rule register_child_spec [OF i a ru, of child]) blast
  have uu: "u' = u" using u 1(3) by simp
  define m where "m = (if envir_option_fork e
      then case msr_rdtsc (ks_mach k1) of (tsc, m) \<Rightarrow> smon_sample_write (t_rb u) SAMPLE_TYPE_FORK
        (fork_image \<lparr>sf_timestamp = tsc, sf_parent = t_pid u, sf_child = ks_pid k1 child\<rparr>) (k1\<lparr>ks_mach := m\<rparr>)
      else Some k1)"
  have "t_rb u = Some r \<Longrightarrow> ks_rbs ks r \<noteq> None" for r using task_rb_live [OF i u] .
  then have live: "t_rb u = Some r \<Longrightarrow> ks_rbs (k1\<lparr>ks_mach := x\<rparr>) r \<noteq> None" for r x using rbs by simp
  have "keeps k1 m"
    unfolding m_def msr_rdtsc_eq prod.case
    by (auto intro!: keeps_Some sim_refl keeps_trans [OF sim_mach write_keeps [OF sim_kinv [OF 1(2) sim_mach] live image_bytes(4)]])
  then obtain k2 where 2: "m = Some k2" "sim k1 k2" by (rule keepsE)
  from sim_task' [OF 2(2) 1(4)] obtain t' where t': "ks_tasks k2 a = Some t'" "skel t' = skel t" .
  have ex: "smon_sched_process_fork (Some a) parent child ks = Some k2"
    using f u e 1(1) 2(1) by (simp add: smon_sched_process_fork_def Let_def m_def msr_rdtsc_eq split: if_split_asm)
  show thesis
    by (rule that [OF ex sim_kinv [OF 1(2) 2(2)] t'(1)])
      (simp_all add: skel_simps [OF t'(2)] 1(5-9) uu simD(7) [OF 2(2)])
qed

section \<open>The unused stop of the RAPL sampling\<close>

text \<open>
  Were \<^verbatim>\<open>smon_task_extra_stop\<close> called, the work that it queues would fault when the interrupt runs
  it: the invariant of the driver (no such work is ever queued) rests on its having no caller.
\<close>

lemma extra_stop_faults:
  assumes "kinv ks" and "ks_tasks ks a = Some t" and "t_extra t = Some x"
    and "task_envir t ks = Some e" and "envir_option_rapl e"
  obtains ks' where "smon_task_extra_stop a ks = Some ks'" and "ks_irq ks' = ks_irq ks @ [StopRapl a]"
    and "stop_timer_rapl (StopRapl a) ks' = None"
proof -
  have "StopRapl a \<notin> set (ks_irq ks)" using assms(1) irq_item_ok.simps(4) by (auto simp: kinv_def)
  then show thesis
    using assms(2-5) that
    by (simp add: smon_task_extra_stop_def stop_timer_rapl_def irq_work_queue_def put_task_def)
qed

end
