(* ===== verification/Device.thy ===== *)
theory Device
  imports Device_Mmap Sched
begin

text \<open>
  \<^verbatim>\<open>driver/main.c\<close>: the device file, its ioctl interface, and loading and unloading the
  module. The structures of the kernel are in the heap of \<open>kstate\<close>; what user space passes is a
  value.
\<close>

section \<open>Command numbers\<close>

text \<open>The encoding of the kernel's \<^verbatim>\<open>_IOC\<close> macros: direction, size, type and number.\<close>

definition IOC_NONE :: u32 where "IOC_NONE = 0"
definition IOC_WRITE :: u32 where "IOC_WRITE = 1"
definition IOC_READ :: u32 where "IOC_READ = 2"

definition IOC :: "u32 \<Rightarrow> u32 \<Rightarrow> u32 \<Rightarrow> u32 \<Rightarrow> u32" where
  "IOC dir ty nr sz = push_bit 30 dir OR push_bit 16 sz OR push_bit 8 ty OR nr"

definition IOC_TYPE :: "u32 \<Rightarrow> u32" where "IOC_TYPE cmd = drop_bit 8 cmd AND 0xFF"
definition IOC_NR :: "u32 \<Rightarrow> u32" where "IOC_NR cmd = cmd AND 0xFF"
definition IOC_DIR :: "u32 \<Rightarrow> u32" where "IOC_DIR cmd = drop_bit 30 cmd AND 3"

definition SMON_IOC_MAGIC :: u32 where "SMON_IOC_MAGIC = 0xa6"
definition SMON_IOC_MAXNR :: u32 where "SMON_IOC_MAXNR = 9"

definition SMON_IOCRESET :: u32 where "SMON_IOCRESET = IOC IOC_NONE SMON_IOC_MAGIC 0 0"
definition SMON_IOCSEVT :: u32 where "SMON_IOCSEVT = IOC IOC_WRITE SMON_IOC_MAGIC 1 4"
definition SMON_IOCGEVT :: u32 where "SMON_IOCGEVT = IOC IOC_READ SMON_IOC_MAGIC 2 4"
definition SMON_IOCCEVT :: u32 where "SMON_IOCCEVT = IOC IOC_READ SMON_IOC_MAGIC 3 4"
definition SMON_IOCSEVS :: u32 where "SMON_IOCSEVS = IOC IOC_WRITE SMON_IOC_MAGIC 4 4"
definition SMON_IOCGEVS :: u32 where "SMON_IOCGEVS = IOC IOC_READ SMON_IOC_MAGIC 5 4"
definition SMON_IOCCEVS :: u32 where "SMON_IOCCEVS = IOC IOC_READ SMON_IOC_MAGIC 6 4"
definition SMON_IOCSTSK :: u32 where "SMON_IOCSTSK = IOC IOC_WRITE SMON_IOC_MAGIC 7 4"
definition SMON_IOCUTSK :: u32 where "SMON_IOCUTSK = IOC IOC_WRITE SMON_IOC_MAGIC 8 4"
definition SMON_IOCREAD :: u32 where "SMON_IOCREAD = IOC IOC_WRITE SMON_IOC_MAGIC 9 4"

lemma ioc_numbers [simp]:
  "SMON_IOCRESET = 0xA600" "SMON_IOCSEVT = 0x4004A601" "SMON_IOCGEVT = 0x8004A602"
  "SMON_IOCCEVT = 0x8004A603" "SMON_IOCSEVS = 0x4004A604" "SMON_IOCGEVS = 0x8004A605"
  "SMON_IOCCEVS = 0x8004A606" "SMON_IOCSTSK = 0x4004A607" "SMON_IOCUTSK = 0x4004A608"
  "SMON_IOCREAD = 0x4004A609"
  by (simp_all add: SMON_IOCRESET_def SMON_IOCSEVT_def SMON_IOCGEVT_def SMON_IOCCEVT_def
      SMON_IOCSEVS_def SMON_IOCGEVS_def SMON_IOCCEVS_def SMON_IOCSTSK_def SMON_IOCUTSK_def
      SMON_IOCREAD_def IOC_def IOC_NONE_def IOC_READ_def IOC_WRITE_def SMON_IOC_MAGIC_def)

definition ENOTTY :: int where "ENOTTY = 25"
definition EFAULT :: int where "EFAULT = 14"

section \<open>Arguments\<close>

text \<open>
  The first union of \<^verbatim>\<open>struct smon_ioctl\<close>, by the member that was stored last; a null pointer
  is \<open>None\<close>, and reading another member than the one stored is a fault. The members \<^verbatim>\<open>id\<close>,
  \<^verbatim>\<open>pid\<close> and \<^verbatim>\<open>size\<close> of the second one are the same 32 bits. An argument that is
  an address of the user's memory is the structure found there.
\<close>

datatype ioc_ptr =
    IocEvent "smon_event option"
  | IocEvset "smon_evset option"
  | IocEnvir "smon_envir option"
  | IocItems u32

record smon_ioctl_arg =
  ioc_ptr :: ioc_ptr
  ioc_word :: u32

datatype ioctl_arg = ArgWord u64 | ArgStruct smon_ioctl_arg

fun arg_struct :: "ioctl_arg \<Rightarrow> smon_ioctl_arg option" where
  "arg_struct (ArgStruct s) = Some s"
| "arg_struct (ArgWord w) = None"

fun arg_word :: "ioctl_arg \<Rightarrow> u64 option" where
  "arg_word (ArgWord w) = Some w"
| "arg_word (ArgStruct s) = None"

fun ioc_event :: "ioc_ptr \<Rightarrow> smon_event option option" where
  "ioc_event (IocEvent p) = Some p" | "ioc_event _ = None"
fun ioc_evset :: "ioc_ptr \<Rightarrow> smon_evset option option" where
  "ioc_evset (IocEvset p) = Some p" | "ioc_evset _ = None"
fun ioc_envir :: "ioc_ptr \<Rightarrow> smon_envir option option" where
  "ioc_envir (IocEnvir p) = Some p" | "ioc_envir _ = None"
fun ioc_items :: "ioc_ptr \<Rightarrow> u32 option" where
  "ioc_items (IocItems n) = Some n" | "ioc_items _ = None"

text \<open>
  What the kernel answers during one call: the addresses of new structures, whether the other
  allocations succeed, whether \<^verbatim>\<open>access_ok\<close> holds, and the bytes that
  \<^verbatim>\<open>copy_to_user\<close> leaves uncopied.
\<close>

record kernel_answers =
  ka_access :: bool
  ka_alloc :: bool
  ka_task :: "addr option"
  ka_envir :: "addr option"
  ka_extra :: bool
  ka_uncopied :: u32

section \<open>The ioctl\<close>

text \<open>
  \<open>private_data\<close> is \<^verbatim>\<open>filp->private_data\<close>. The result is the value returned, the
  argument with what was copied to the user, and the state.
\<close>

definition copy_event :: "kernel_answers \<Rightarrow> smon_ioctl_arg \<Rightarrow> smon_event \<Rightarrow> int \<times> smon_ioctl_arg" where
  "copy_event ka s e =
     (uint (ka_uncopied ka), if ka_uncopied ka = 0 then s\<lparr>ioc_ptr := IocEvent (Some e)\<rparr> else s)"

definition copy_evset :: "kernel_answers \<Rightarrow> smon_ioctl_arg \<Rightarrow> smon_evset \<Rightarrow> int \<times> smon_ioctl_arg" where
  "copy_evset ka s e =
     (uint (ka_uncopied ka), if ka_uncopied ka = 0 then s\<lparr>ioc_ptr := IocEvset (Some e)\<rparr> else s)"

definition ioctl_access_ok :: "kernel_answers \<Rightarrow> u32 \<Rightarrow> bool" where
  "ioctl_access_ok ka cmd \<longleftrightarrow>
     (if IOC_DIR cmd AND IOC_READ \<noteq> 0 then ka_access ka
      else if IOC_DIR cmd AND IOC_WRITE \<noteq> 0 then ka_access ka else True)"

definition ioctl_read :: "addr option \<Rightarrow> ioctl_arg \<Rightarrow> kstate \<Rightarrow> kstate option" where
  "ioctl_read private_data arg ks = do {
     s \<leftarrow> arg_struct arg;
     items \<leftarrow> ioc_items (ioc_ptr s);
     r \<leftarrow> private_data;
     rb \<leftarrow> ks_rbs ks r;
     Some (put_rb r (smon_rb_read items (ioc_word s) rb) ks)
   }"

definition smon_ioctl ::
  "kernel_answers \<Rightarrow> addr option \<Rightarrow> u32 \<Rightarrow> ioctl_arg \<Rightarrow> kstate \<Rightarrow> (int \<times> ioctl_arg \<times> kstate) option" where
  "smon_ioctl ka private_data cmd arg ks =
     (if IOC_TYPE cmd \<noteq> SMON_IOC_MAGIC then Some (- ENOTTY, arg, ks)
      else if IOC_NR cmd > SMON_IOC_MAXNR then Some (- ENOTTY, arg, ks)
      else if \<not> ioctl_access_ok ka cmd then Some (- EFAULT, arg, ks)
      else if cmd = SMON_IOCRESET then Some (0, arg, ks)
      else if cmd = SMON_IOCSEVT then do {
        s \<leftarrow> arg_struct arg;
        p \<leftarrow> ioc_event (ioc_ptr s);
        case p of
          None \<Rightarrow> Some (- SMEIOCTL, arg, ks)
        | Some e \<Rightarrow> do {
            (r, t) \<leftarrow> smon_set_event (ka_alloc ka) e (ks_events ks);
            Some (r, arg, ks\<lparr>ks_events := t\<rparr>)
          }
      }
      else if cmd = SMON_IOCGEVT then do {
        s \<leftarrow> arg_struct arg;
        p \<leftarrow> smon_get_event (ioc_word s) (ks_events ks);
        case p of
          None \<Rightarrow> Some (- SMENOEVT, arg, ks)
        | Some e \<Rightarrow> let (r, s) = copy_event ka s e in Some (r, ArgStruct s, ks)
      }
      else if cmd = SMON_IOCCEVT then do {
        w \<leftarrow> arg_word arg;
        Some (smon_check_event (ucast w) (ks_events ks), arg, ks)
      }
      else if cmd = SMON_IOCSEVS then do {
        s \<leftarrow> arg_struct arg;
        p \<leftarrow> ioc_evset (ioc_ptr s);
        case p of
          None \<Rightarrow> Some (- SMEIOCTL, arg, ks)
        | Some e \<Rightarrow> do {
            (r, t) \<leftarrow> smon_set_evset (ka_alloc ka) e (ks_events ks) (ks_evsets ks);
            Some (r, arg, ks\<lparr>ks_evsets := t\<rparr>)
          }
      }
      else if cmd = SMON_IOCGEVS then do {
        s \<leftarrow> arg_struct arg;
        p \<leftarrow> smon_get_evset (ioc_word s) (ks_evsets ks);
        case p of
          None \<Rightarrow> Some (- SMENOEVS, arg, ks)
        | Some e \<Rightarrow> let (r, s) = copy_evset ka s e in Some (r, ArgStruct s, ks)
      }
      else if cmd = SMON_IOCCEVS then do {
        w \<leftarrow> arg_word arg;
        Some (smon_check_evset (ucast w) (ks_evsets ks), arg, ks)
      }
      else if cmd = SMON_IOCSTSK then do {
        s \<leftarrow> arg_struct arg;
        p \<leftarrow> ioc_envir (ioc_ptr s);
        case p of
          None \<Rightarrow> Some (- SMEIOCTL, arg, ks)
        | Some envir \<Rightarrow>
            case private_data of
              None \<Rightarrow> Some (- SMEIOCTL, arg, ks)
            | Some rb \<Rightarrow> do {
                (r, ks) \<leftarrow> smon_sched_register_task (ka_task ka) (ka_envir ka) (ka_extra ka) (ioc_word s) envir rb ks;
                Some (sint r, arg, ks)
              }
      }
      else if cmd = SMON_IOCUTSK then do {
        s \<leftarrow> arg_struct arg;
        (r, ks) \<leftarrow> smon_sched_unregister_task (ioc_word s) ks;
        Some (sint r, arg, ks)
      }
      else if cmd = SMON_IOCREAD then do {
        ks \<leftarrow> ioctl_read private_data arg ks;
        Some (- ENOTTY, arg, ks)
      }
      else Some (- ENOTTY, arg, ks))"

section \<open>Opening, closing and loading\<close>

text \<open>
  The module's own state: the number of open files, the major device number, and what is
  registered with the kernel.
\<close>

record smon_module =
  md_count :: i32
  md_major :: u32
  md_chrdev :: bool
  md_cdev :: bool

text \<open>The file's \<^verbatim>\<open>private_data\<close> is NULL when the kernel opens it.\<close>

definition smon_open :: "smon_module \<Rightarrow> int \<times> smon_module" where
  "smon_open md = (0, md\<lparr>md_count := md_count md + 1\<rparr>)"

definition smon_release :: "addr option \<Rightarrow> smon_module \<Rightarrow> int \<times> addr option \<times> smon_module" where
  "smon_release private_data md = (0, None, md\<lparr>md_count := md_count md - 1\<rparr>)"

text \<open>A failure of \<^verbatim>\<open>cdev_add\<close> is only logged.\<close>

definition smon_setup_cdev :: "bool \<Rightarrow> smon_module \<Rightarrow> smon_module" where
  "smon_setup_cdev added md = md\<lparr>md_cdev := added\<rparr>"

text \<open>
  \<open>chr\<close> is what the kernel returns for the device numbers: the result and the major number of a
  dynamic allocation.
\<close>

definition smon_init ::
  "int \<times> u32 \<Rightarrow> bool \<Rightarrow> bool \<Rightarrow> bool \<Rightarrow> smon_module \<times> kstate \<Rightarrow> (int \<times> smon_module \<times> kstate) option" where
  "smon_init chr event_alloc evset_alloc added s =
     (let (md, ks) = s;
          res = fst chr;
          md = md\<lparr>md_major := (if md_major md \<noteq> 0 then md_major md else snd chr), md_chrdev := 0 \<le> res\<rparr>
      in if res < 0 then Some (res, md, ks)
         else
           let (res, t) = smon_event_init event_alloc (ks_events ks);
               ks = ks\<lparr>ks_events := t\<rparr>
           in if res < 0 then Some (res, md\<lparr>md_chrdev := False\<rparr>, ks)
              else
                let (res, u) = smon_evset_init evset_alloc (ks_evsets ks);
                    ks = ks\<lparr>ks_evsets := u\<rparr>
                in if res < 0
                   then do {
                     (_, t) \<leftarrow> smon_event_exit (ks_events ks);
                     Some (res, md\<lparr>md_chrdev := False\<rparr>, ks\<lparr>ks_events := t\<rparr>)
                   }
                   else
                     let (res, ks) = smon_sched_init ks
                     in if sint res < 0
                        then do {
                          (_, u) \<leftarrow> smon_evset_exit (ks_evsets ks);
                          (_, t) \<leftarrow> smon_event_exit (ks_events ks);
                          Some (sint res, md\<lparr>md_chrdev := False\<rparr>, ks\<lparr>ks_evsets := u, ks_events := t\<rparr>)
                        }
                        else Some (0, smon_setup_cdev added (md\<lparr>md_count := 0\<rparr>), ks))"

definition smon_exit :: "nat \<Rightarrow> smon_module \<times> kstate \<Rightarrow> (smon_module \<times> kstate) option" where
  "smon_exit nr_cpus s = (case s of (md, ks) \<Rightarrow> do {
     (_, ks) \<leftarrow> smon_sched_exit nr_cpus ks;
     (_, u) \<leftarrow> smon_evset_exit (ks_evsets ks);
     (_, t) \<leftarrow> smon_event_exit (ks_events ks);
     Some (md\<lparr>md_cdev := False, md_chrdev := False\<rparr>, ks\<lparr>ks_evsets := u, ks_events := t\<rparr>)
   })"

end
