(* ===== verification/Driver_Run.thy ===== *)
theory Driver_Run
  imports Device Kernel_Register
begin

text \<open>
  The whole driver as a transition system: from loading the module on, any sequence of scheduler
  hooks, timer expiries, interrupt work, system calls on the device file, page faults in its mappings and
  changes of the rest of the kernel, in any order, and unloading at the end.
\<close>

section \<open>Events\<close>

text \<open>What the rest of the kernel may change at any time.\<close>

record world =
  w_mach :: smon_mach
  w_pid :: "addr \<Rightarrow> i32"
  w_task_cpu :: "addr \<Rightarrow> nat"
  w_processes :: "addr list"
  w_online_cpus :: u32

definition set_world :: "world \<Rightarrow> kstate \<Rightarrow> kstate" where
  "set_world w ks = ks\<lparr>ks_mach := w_mach w, ks_pid := w_pid w, ks_task_cpu := w_task_cpu w,
     ks_processes := w_processes w, ks_online_cpus := w_online_cpus w\<rparr>"

datatype drv_event =
    Switch addr addr i64
  | Migrate u32 addr nat
  | Fork "addr option" addr addr
  | Exec addr
  | Exit addr
  | PmcTimer addr
  | RaplTimer addr
  | IrqWork
  | Open nat
  | Close nat
  | Mmap nat addr bool bool "nat \<Rightarrow> bool" "nat \<Rightarrow> nat \<Rightarrow> u8" u64 u64
  | Munmap addr
  | Poll nat
  | PageFault addr u64
  | WakeUp addr
  | Ioctl nat kernel_answers u32 ioctl_arg
  | World world

text \<open>The driver: the kernel state, \<^verbatim>\<open>filp->private_data\<close> of the open files, the module.\<close>

record drv =
  drv_k :: kstate
  drv_files :: "nat \<Rightarrow> addr option option"
  drv_module :: smon_module

section \<open>Execution\<close>

text \<open>A timer whose callback does not restart it is no longer queued.\<close>

definition pmc_timer_expires :: "addr \<Rightarrow> kstate \<Rightarrow> kstate option" where
  "pmc_timer_expires a ks = do {
     (restart, ks) \<leftarrow> smon_sched_timer_tick a ks;
     if restart then Some ks else modify_task a (\<lambda>t. t\<lparr>t_timer := hrtimer_cancel (t_timer t)\<rparr>) ks
   }"

definition rapl_timer_expires :: "addr \<Rightarrow> kstate \<Rightarrow> kstate option" where
  "rapl_timer_expires a ks = do {
     (restart, ks) \<leftarrow> smon_sched_timer_rapl a ks;
     if restart then Some ks
     else modify_task a (\<lambda>t. t\<lparr>t_extra :=
       map_option (\<lambda>x. x\<lparr>x_rapl_timer := hrtimer_cancel (x_rapl_timer x)\<rparr>) (t_extra t)\<rparr>) ks
   }"

fun irq_run :: "irq_item \<Rightarrow> kstate \<Rightarrow> kstate option" where
  "irq_run (StartPmc a) ks = start_timer_pmc a ks"
| "irq_run (StopPmc a) ks = stop_timer_pmc a ks"
| "irq_run (StartRapl a) ks = start_timer_rapl a ks"
| "irq_run (StopRapl a) ks = stop_timer_rapl (StopRapl a) ks"

definition irq_work :: "kstate \<Rightarrow> kstate option" where
  "irq_work ks = (case ks_irq ks of [] \<Rightarrow> Some ks | i # is \<Rightarrow> irq_run i (ks\<lparr>ks_irq := is\<rparr>))"

definition on_kernel :: "(kstate \<Rightarrow> kstate option) \<Rightarrow> drv \<Rightarrow> drv option" where
  "on_kernel f d = map_option (\<lambda>k. d\<lparr>drv_k := k\<rparr>) (f (drv_k d))"

text \<open>
  A system call on a file that is not open returns in the kernel without reaching the driver.
\<close>

fun drv_exec :: "drv_event \<Rightarrow> drv \<Rightarrow> drv option" where
  "drv_exec (Switch prev next rem) d = on_kernel (smon_sched_switch prev next rem) d"
| "drv_exec (Migrate pad p cpu) d = on_kernel (smon_sched_migrate_task pad p cpu) d"
| "drv_exec (Fork a p c) d = on_kernel (smon_sched_process_fork a p c) d"
| "drv_exec (Exec p) d = on_kernel (smon_sched_process_exec p) d"
| "drv_exec (Exit p) d = on_kernel (smon_sched_process_exit p) d"
| "drv_exec (PmcTimer a) d = on_kernel (pmc_timer_expires a) d"
| "drv_exec (RaplTimer a) d = on_kernel (rapl_timer_expires a) d"
| "drv_exec IrqWork d = on_kernel irq_work d"
| "drv_exec (Open f) d =
     Some (d\<lparr>drv_files := (drv_files d)(f \<mapsto> None), drv_module := snd (smon_open (drv_module d))\<rparr>)"
| "drv_exec (Close f) d =
     (case drv_files d f of
        None \<Rightarrow> Some d
      | Some p \<Rightarrow> Some (d\<lparr>drv_files := (drv_files d)(f := None),
                         drv_module := snd (snd (smon_release p (drv_module d)))\<rparr>))"
| "drv_exec (Mmap f r rb_ok data_ok page_ok junk vs ve) d =
     (case drv_files d f of
        None \<Rightarrow> Some d
      | Some p \<Rightarrow> do {
          (res, rb, pages) \<leftarrow> smon_mmap rb_ok data_ok page_ok junk vs ve None;
          case rb of
            None \<Rightarrow> Some d
          | Some b \<Rightarrow> Some (d\<lparr>drv_k := put_rb r b (drv_k d), drv_files := (drv_files d)(f \<mapsto> Some r)\<rparr>)
        })"
| "drv_exec (Munmap r) d = do {
     b \<leftarrow> ks_rbs (drv_k d) r;
     Some (d\<lparr>drv_k := (drv_k d)\<lparr>ks_rbs := (ks_rbs (drv_k d))(r := snd (smon_vma_close (Some b)))\<rparr>\<rparr>)
   }"
| "drv_exec (Poll f) d =
     (case drv_files d f of
        Some (Some r) \<Rightarrow> do { b \<leftarrow> ks_rbs (drv_k d) r; let mask = smon_poll (Some b); Some d }
      | _ \<Rightarrow> Some d)"
| "drv_exec (PageFault r pgoff) d = do { b \<leftarrow> ks_rbs (drv_k d) r; let page = smon_vma_fault b pgoff; Some d }"
| "drv_exec (WakeUp r) d =
     on_kernel (\<lambda>ks. do { b \<leftarrow> ks_rbs ks r; Some (put_rb r (smon_wake_up_reader b) ks) }) d"
| "drv_exec (Ioctl f ka cmd arg) d =
     (case drv_files d f of
        None \<Rightarrow> Some d
      | Some p \<Rightarrow> on_kernel (\<lambda>k. map_option (\<lambda>(r, arg, k). k) (smon_ioctl ka p cmd arg k)) d)"
| "drv_exec (World w) d = on_kernel (Some \<circ> set_world w) d"

section \<open>What the rest of the system guarantees\<close>

definition pmc_timer_queued :: "kstate \<Rightarrow> addr \<Rightarrow> bool" where
  "pmc_timer_queued ks a \<longleftrightarrow> (case ks_tasks ks a of None \<Rightarrow> False | Some t \<Rightarrow> tm_active (t_timer t))"

definition rapl_timer_queued :: "kstate \<Rightarrow> addr \<Rightarrow> bool" where
  "rapl_timer_queued ks a \<longleftrightarrow>
     (case ks_tasks ks a of None \<Rightarrow> False
      | Some t \<Rightarrow> (case t_extra t of None \<Rightarrow> False | Some x \<Rightarrow> tm_active (x_rapl_timer x)))"

text \<open>
  A buffer is unmapped only when no task refers to it any more and the work that wakes its reader up has
  run.
\<close>

definition rb_unused :: "kstate \<Rightarrow> addr \<Rightarrow> bool" where
  "rb_unused ks r \<longleftrightarrow> (\<forall>b. ks_rbs ks r = Some b \<longrightarrow> \<not> rb_irq b) \<and> (\<forall>a t. ks_tasks ks a = Some t \<longrightarrow>
     t_rb t \<noteq> Some r \<and> (\<forall>x. t_extra t = Some x \<longrightarrow> x_rb x \<noteq> Some r))"

text \<open>A task is unregistered only when it and all its descendants have exited.\<close>

definition unregister_ok :: "i32 \<Rightarrow> kstate \<Rightarrow> bool" where
  "unregister_ok pid ks \<longleftrightarrow> (\<forall>a \<in> set (ks_task_list ks). \<forall>t. ks_tasks ks a = Some t \<longrightarrow> t_pid t = pid \<longrightarrow>
     (\<forall>c \<in> family ks a. retired ks c))"

definition word_cmds :: "u32 set" where "word_cmds = {SMON_IOCCEVT, SMON_IOCCEVS}"
definition struct_cmds :: "u32 set" where
  "struct_cmds = {SMON_IOCSEVT, SMON_IOCGEVT, SMON_IOCSEVS, SMON_IOCGEVS, SMON_IOCSTSK, SMON_IOCUTSK, SMON_IOCREAD}"

definition ioctl_ok :: "kernel_answers \<Rightarrow> addr option \<Rightarrow> u32 \<Rightarrow> ioctl_arg \<Rightarrow> kstate \<Rightarrow> bool" where
  "ioctl_ok ka p cmd arg ks \<longleftrightarrow>
     (cmd \<in> word_cmds \<longrightarrow> (\<exists>w. arg = ArgWord w)) \<and>
     (cmd \<in> struct_cmds \<longrightarrow> (\<exists>s. arg = ArgStruct s \<and>
        (cmd = SMON_IOCSEVT \<longrightarrow> (\<exists>e. ioc_ptr s = IocEvent e)) \<and>
        (cmd = SMON_IOCSEVS \<longrightarrow> (\<exists>e. ioc_ptr s = IocEvset e \<and> (\<forall>v. e = Some v \<longrightarrow> length (evids v) = MAX_GP_CTRS))) \<and>
        (cmd = SMON_IOCSTSK \<longrightarrow> (\<exists>e. ioc_ptr s = IocEnvir e \<and> (\<forall>v r. e = Some v \<longrightarrow> p = Some r \<longrightarrow>
           register_ok (ka_task ka) (ka_envir ka) (ka_extra ka) v r ks))) \<and>
        (cmd = SMON_IOCUTSK \<longrightarrow> unregister_ok (ioc_word s) ks) \<and>
        (cmd = SMON_IOCREAD \<longrightarrow> (\<exists>n r. ioc_ptr s = IocItems n \<and> p = Some r \<and> ks_rbs ks r \<noteq> None))))"

text \<open>
  The first page of a new buffer must not be refused: the error path of \<^verbatim>\<open>smon_create_rb\<close>
  is a fault then. The length of a mapping is below 16 TiB.
\<close>

fun drv_allowed :: "drv_event \<Rightarrow> drv \<Rightarrow> bool" where
  "drv_allowed (Fork a p c) d = (\<forall>b. a = Some b \<longrightarrow> fresh_task (drv_k d) b)"
| "drv_allowed (PmcTimer a) d = pmc_timer_queued (drv_k d) a"
| "drv_allowed (RaplTimer a) d = rapl_timer_queued (drv_k d) a"
| "drv_allowed (Open f) d = (drv_files d f = None)"
| "drv_allowed (Mmap f r rb_ok data_ok page_ok junk vs ve) d =
     (ks_rbs (drv_k d) r = None \<and> page_ok 0 \<and> drop_bit PAGE_SHIFT (ve - vs) < 2 ^ 32)"
| "drv_allowed (Munmap r) d = (ks_rbs (drv_k d) r \<noteq> None \<and> rb_unused (drv_k d) r)"
| "drv_allowed (Poll f) d = (\<forall>r. drv_files d f = Some (Some r) \<longrightarrow> ks_rbs (drv_k d) r \<noteq> None)"
| "drv_allowed (PageFault r pgoff) d = (ks_rbs (drv_k d) r \<noteq> None)"
| "drv_allowed (WakeUp r) d = (\<exists>b. ks_rbs (drv_k d) r = Some b \<and> rb_irq b)"
| "drv_allowed (Ioctl f ka cmd arg) d = (\<forall>p. drv_files d f = Some p \<longrightarrow> ioctl_ok ka p cmd arg (drv_k d))"
| "drv_allowed _ d = True"

inductive drv_step :: "drv \<Rightarrow> drv \<Rightarrow> bool" where
  drv_event: "drv_allowed ev d \<Longrightarrow> drv_exec ev d = Some d' \<Longrightarrow> drv_step d d'"

inductive_cases drv_stepE: "drv_step d d'"

text \<open>
  The module is unloaded only when no file of the device is open and nothing of it is mapped: both
  hold a reference to the module.
\<close>

definition drv_unload :: "nat \<Rightarrow> drv \<Rightarrow> (smon_module \<times> kstate) option" where
  "drv_unload nr_cpus d = smon_exit nr_cpus (drv_module d, drv_k d)"

definition unload_allowed :: "drv \<Rightarrow> bool" where
  "unload_allowed d \<longleftrightarrow> drv_files d = Map.empty \<and> ks_rbs (drv_k d) = Map.empty"

text \<open>The module is loaded into a kernel in which none of its structures exists.\<close>

definition blank :: "kstate \<Rightarrow> bool" where
  "blank ks \<longleftrightarrow> ks_tasks ks = Map.empty \<and> ks_envirs ks = Map.empty \<and> ks_rbs ks = Map.empty \<and>
     ks_irq ks = [] \<and> ks_events ks = event_table0 \<and> ks_evsets ks = evset_table0"

inductive drv_reach :: "drv \<Rightarrow> bool" where
  drv_start: "blank ks \<Longrightarrow> smon_init chr ev_ok es_ok added (md, ks) = Some (0, md', ks') \<Longrightarrow>
     drv_reach \<lparr>drv_k = ks', drv_files = Map.empty, drv_module = md'\<rparr>"
| drv_next: "drv_reach d \<Longrightarrow> drv_step d d' \<Longrightarrow> drv_reach d'"

end
