(* ===== verification/Driver_Safe.thy ===== *)
theory Driver_Safe
  imports Driver_Run
begin

text \<open>
  Every allowed event runs without a fault and keeps the invariant of the kernel's structures.
\<close>

section \<open>Changes outside the tasks\<close>

lemma kinv_other:
  assumes "kinv ks" and "ks_tasks ks' = ks_tasks ks" "ks_envirs ks' = ks_envirs ks" "ks_rbs ks' = ks_rbs ks"
    "ks_task_list ks' = ks_task_list ks" "ks_cpu_list ks' = ks_cpu_list ks" "ks_wait_list ks' = ks_wait_list ks"
    and irq: "set (ks_irq ks') \<subseteq> set (ks_irq ks)" and cfg: "cfg_ok ks'"
    and es: "\<And>e. envir_refs_ok (ks_evsets ks) e \<Longrightarrow> envir_refs_ok (ks_evsets ks') e"
  shows "kinv ks'"
proof -
  note eq = assms(2-7)
  have "task_ok ks' t" if "task_ok ks t" for t
    using that es unfolding task_ok_def eq by blast
  moreover have "irq_item_ok ks' i = irq_item_ok ks i" for i
    by (cases i) (simp_all add: task_live_def has_extra_def eq)
  moreover have "rings_ok ks' = rings_ok ks"
    by (rule rings_cong) (simp_all add: eq)
  moreover have "counts_ok ks' = counts_ok ks" by (simp add: counts_ok_def rb_users_def envir_users_def eq)
  moreover have "lists_ok ks' = lists_ok ks" by (simp add: lists_ok_def has_extra_def runnable_def eq)
  ultimately show ?thesis using assms(1) irq cfg by (auto simp: kinv_def eq)
qed

lemma kinv_world: "kinv ks \<Longrightarrow> kinv (set_world w ks)"
  by (rule kinv_other) (auto simp: set_world_def kinv_def cfg_ok_def)

lemma world_safe: "kinv ks \<Longrightarrow> safe up ks (Some (set_world w ks))"
  by (simp add: safe_def kinv_world) (rule buffers_same, simp add: set_world_def)

lemma kinv_irq_rest: "kinv ks \<Longrightarrow> ks_irq ks = i # js \<Longrightarrow> kinv (ks\<lparr>ks_irq := js\<rparr>) \<and> irq_item_ok (ks\<lparr>ks_irq := js\<rparr>) i"
proof
  assume k: "kinv ks" "ks_irq ks = i # js"
  show "kinv (ks\<lparr>ks_irq := js\<rparr>)"
    by (rule kinv_other [OF k(1)]) (use k in \<open>auto simp: kinv_def cfg_ok_def\<close>)
  have "irq_item_ok ks i" using k by (simp add: kinv_def)
  then show "irq_item_ok (ks\<lparr>ks_irq := js\<rparr>) i" by (cases i) (simp_all add: task_live_def has_extra_def)
qed

section \<open>Timers and interrupt work\<close>

lemma irq_work_safe:
  assumes "kinv ks"
  shows "safe up ks (irq_work ks)"
proof (cases "ks_irq ks")
  case Nil
  then show ?thesis using assms by (simp add: irq_work_def safe_Some)
next
  case (Cons i js)
  define k where "k = ks\<lparr>ks_irq := js\<rparr>"
  have k: "kinv k" "irq_item_ok k i" using kinv_irq_rest [OF assms Cons] by (simp_all add: k_def)
  have "keeps k (irq_run i k)"
  proof (cases i)
    case (StartPmc a)
    then show ?thesis using k by (simp add: start_timer_pmc_keeps)
  next
    case (StopPmc a)
    then show ?thesis using k by (simp add: stop_timer_pmc_keeps)
  next
    case (StartRapl a)
    then obtain t x where "ks_tasks k a = Some t" "t_extra t = Some x" using k(2) by (auto simp: has_extra_def)
    then show ?thesis using StartRapl start_timer_rapl_keeps by simp
  next
    case (StopRapl a)
    then show ?thesis using k(2) by simp
  qed
  then have "safe up k (irq_run i k)" using k(1) by (rule keeps_safe)
  moreover have "buffers_grow up ks k" by (rule buffers_same) (simp add: k_def)
  ultimately show ?thesis using Cons safe_from by (simp add: irq_work_def k_def)
qed

lemma cancel_rapl_sim:
  "task_sim es t (t\<lparr>t_extra := map_option (\<lambda>x. x\<lparr>x_rapl_timer := hrtimer_cancel (x_rapl_timer x)\<rparr>) (t_extra t)\<rparr>)"
  by (cases "t_extra t") (simp_all add: task_sim_def skel_def task_local_def)

lemma modify_safe:
  assumes "kinv ks" and "task_live ks a" and "\<And>t. task_sim (ks_envirs ks) t (f t)"
  shows "safe up ks (modify_task a f ks)"
  by (rule keeps_safe [OF modify_task_keeps [OF assms(2,3)] assms(1)])

lemma pmc_timer_safe:
  assumes i: "kinv ks" and q: "pmc_timer_queued ks a"
  shows "safe up ks (pmc_timer_expires a ks)"
proof -
  have l: "task_live ks a" using q by (auto simp: pmc_timer_queued_def task_live_def split: option.splits)
  from timer_tick_keeps [OF i l] obtain b k where k: "smon_sched_timer_tick a ks = Some (b, k)" "sim ks k" .
  have "kinv k" "task_live k a" using sim_kinv [OF i k(2)] sim_live [OF k(2)] l by simp_all
  then have "safe up k (modify_task a (\<lambda>t. t\<lparr>t_timer := hrtimer_cancel (t_timer t)\<rparr>) k)"
    by (rule modify_safe) simp
  note safe_from [OF sim_grow [OF k(2)] this] safe_from [OF sim_grow [OF k(2)] safe_Some [OF \<open>kinv k\<close>]]
  then show ?thesis by (simp add: pmc_timer_expires_def k(1))
qed

lemma rapl_timer_safe:
  assumes i: "kinv ks" and q: "rapl_timer_queued ks a"
  shows "safe up ks (rapl_timer_expires a ks)"
proof -
  from q obtain t x where t: "ks_tasks ks a = Some t" "t_extra t = Some x"
    by (auto simp: rapl_timer_queued_def split: option.splits)
  from timer_rapl_keeps [OF i t] obtain b k where k: "smon_sched_timer_rapl a ks = Some (b, k)" "sim ks k" .
  have "kinv k" "task_live k a"
    using sim_kinv [OF i k(2)] sim_live [OF k(2)] t(1) by (simp_all add: task_live_def)
  note safe_from [OF sim_grow [OF k(2)] modify_safe [OF this cancel_rapl_sim]]
    safe_from [OF sim_grow [OF k(2)] safe_Some [OF \<open>kinv k\<close>]]
  then show ?thesis by (simp add: rapl_timer_expires_def k(1))
qed

section \<open>Buffers\<close>

lemma kinv_rbs:
  assumes i: "kinv ks" and rb: "\<And>q b. rbs q = Some b \<Longrightarrow> ks_rbs ks q = Some b \<or> rb_safe b \<and> unat (rb_active b) = card (rb_users ks q)"
    and keep: "\<And>a t q. ks_tasks ks a = Some t \<Longrightarrow> t_rb t = Some q \<or> (\<exists>x. t_extra t = Some x \<and> x_rb x = Some q) \<Longrightarrow>
      rbs q \<noteq> None"
  shows "kinv (ks\<lparr>ks_rbs := rbs\<rparr>)"
proof -
  define k where "k = ks\<lparr>ks_rbs := rbs\<rparr>"
  have "task_ok k t" if "ks_tasks ks a = Some t" for a t
  proof -
    have ok: "task_ok ks t" using i that by (simp add: kinv_def)
    show ?thesis using ok keep [OF that] unfolding task_ok_def k_def by auto
  qed
  moreover have "irq_item_ok k j = irq_item_ok ks j" for j
    by (cases j) (simp_all add: task_live_def has_extra_def k_def)
  moreover have "rings_ok k = rings_ok ks" by (rule rings_cong) (simp_all add: k_def)
  moreover have "lists_ok k = lists_ok ks" by (simp add: lists_ok_def has_extra_def runnable_def k_def)
  moreover have "cfg_ok k = cfg_ok ks" by (simp add: cfg_ok_def k_def)
  moreover have "counts_ok k"
  proof -
    have u: "rb_users k = rb_users ks" "envir_users k = envir_users ks"
      by (simp_all add: fun_eq_iff rb_users_def envir_users_def k_def)
    have c: "counts_ok ks" using i by (simp add: kinv_def)
    have "unat (rb_active b) = card (rb_users ks q)" if "rbs q = Some b" for q b
      using rb [OF that] c by (auto simp: counts_ok_def)
    then show ?thesis using c unfolding counts_ok_def u by (simp add: k_def)
  qed
  moreover have "rb_safe b" if "rbs q = Some b" for q b using rb [OF that] i by (auto simp: kinv_def)
  ultimately show ?thesis using i unfolding k_def [symmetric] kinv_def by (simp add: k_def)
qed

lemma mmap_safe:
  assumes i: "kinv ks" and r: "ks_rbs ks r = None"
    and m: "smon_mmap rb_ok data_ok page_ok junk vs ve None = Some (0, Some b, ps)" "drop_bit PAGE_SHIFT (ve - vs) < 2 ^ 32"
  shows "kinv (put_rb r b ks)"
proof -
  note h = mmap_holds [OF m]
  have "rb_geom b" using h(1) by (auto simp: rb_inv_def rb_holds_def)
  then have s: "rb_safe b" by (rule geom_safe)
  have u: "rb_users ks r = {}"
    using i r by (force simp: rb_users_def kinv_def task_ok_def)
  show ?thesis
    unfolding put_rb_def
  proof (rule kinv_rbs [OF i])
    show "((ks_rbs ks)(r \<mapsto> b)) q = Some c \<Longrightarrow> ks_rbs ks q = Some c \<or>
        rb_safe c \<and> unat (rb_active c) = card (rb_users ks q)" for q c
      using s u h(3) by (auto split: if_splits)
    show "((ks_rbs ks)(r \<mapsto> b)) q \<noteq> None"
      if "ks_tasks ks a = Some t" "t_rb t = Some q \<or> (\<exists>x. t_extra t = Some x \<and> x_rb x = Some q)" for a t q
    proof -
      have "task_ok ks t" using i that(1) by (simp add: kinv_def)
      then show ?thesis using that(2) by (auto simp: task_ok_def)
    qed
  qed
qed

lemma munmap_safe:
  assumes i: "kinv ks" and u: "rb_unused ks r"
  shows "kinv (ks\<lparr>ks_rbs := (ks_rbs ks)(r := None)\<rparr>)"
proof (rule kinv_rbs [OF i])
  show "((ks_rbs ks)(r := None)) q = Some c \<Longrightarrow> ks_rbs ks q = Some c \<or>
      rb_safe c \<and> unat (rb_active c) = card (rb_users ks q)" for q c
    by (auto split: if_splits)
  show "((ks_rbs ks)(r := None)) q \<noteq> None"
    if "ks_tasks ks a = Some t" "t_rb t = Some q \<or> (\<exists>x. t_extra t = Some x \<and> x_rb x = Some q)" for a t q
  proof -
    have "task_ok ks t" using i that(1) by (simp add: kinv_def)
    then show ?thesis using that u by (auto simp: task_ok_def rb_unused_def)
  qed
qed

lemma wake_up_safe:
  assumes i: "kinv ks" and r: "ks_rbs ks r = Some rb"
  shows "kinv (put_rb r (smon_wake_up_reader rb) ks)"
proof -
  have "kinv (ks\<lparr>ks_rbs := (ks_rbs ks)(r \<mapsto> smon_wake_up_reader rb)\<rparr>)"
  proof (rule kinv_rbs [OF i])
    have "rb_safe rb" "unat (rb_active rb) = card (rb_users ks r)"
      using i r by (auto simp: kinv_def counts_ok_def)
    then show "((ks_rbs ks)(r \<mapsto> smon_wake_up_reader rb)) q = Some c \<Longrightarrow> ks_rbs ks q = Some c \<or>
        rb_safe c \<and> unat (rb_active c) = card (rb_users ks q)" for q c
      by (auto simp: smon_wake_up_reader_def rb_safe_other split: if_splits)
    show "((ks_rbs ks)(r \<mapsto> smon_wake_up_reader rb)) q \<noteq> None"
      if "ks_tasks ks a = Some t" "t_rb t = Some q \<or> (\<exists>x. t_extra t = Some x \<and> x_rb x = Some q)" for a t q
    proof -
      have "task_ok ks t" using i that(1) by (simp add: kinv_def)
      then show ?thesis using that(2) by (auto simp: task_ok_def)
    qed
  qed
  then show ?thesis by (simp add: put_rb_def)
qed

section \<open>System calls\<close>

lemma unregister_task_safe:
  assumes i: "kinv ks" and ok: "unregister_ok pid ks"
  obtains r ks' where "smon_sched_unregister_task pid ks = Some (r, ks')" "kinv ks'" "buffers_grow True ks ks'"
proof -
  have "\<forall>a \<in> set (ks_task_list ks). task_live ks a" using task_list_live [OF i] by blast
  then show thesis
  proof (rule find_entry_live [of _ _ "\<lambda>t. t_pid t = pid"])
    assume "find_entry (\<lambda>t. t_pid t = pid) ks (ks_task_list ks) = Some None"
    then show thesis using i buffers_same [of ks ks] by (intro that) (simp_all add: smon_sched_unregister_task_def)
  next
    fix a t
    assume f: "find_entry (\<lambda>t. t_pid t = pid) ks (ks_task_list ks) = Some (Some a)" and
      a: "a \<in> set (ks_task_list ks)" "ks_tasks ks a = Some t" "t_pid t = pid"
    then have "\<forall>c \<in> family ks a. retired ks c" using ok by (auto simp: unregister_ok_def)
    from unregister_at_spec [OF i a(1) this] obtain ks' where "unregister_at a ks = Some ks'" "kinv ks'"
      "ks_rbs ks' = ks_rbs ks" by metis
    then show thesis using buffers_same [of ks' ks] by (intro that) (simp_all add: smon_sched_unregister_task_def f)
  qed
qed

lemma register_task_safe:
  assumes i: "kinv ks" and ok: "register_ok alloc envir_alloc x envir r ks"
  obtains res ks' where "smon_sched_register_task alloc envir_alloc x pid envir r ks = Some (res, ks')" "kinv ks'" "buffers_grow True ks ks'"
proof (cases "alloc = None \<or> envir_alloc = None")
  case True
  with register_task_fail i that buffers_same [of ks ks] show thesis by blast
next
  case False
  then obtain a ea where a: "alloc = Some a" "envir_alloc = Some ea" by auto
  moreover have "x = True" using ok by (simp add: register_ok_def)
  ultimately show thesis using register_task_spec [OF i, of a ea envir r pid] ok that by metis
qed

lemma kinv_events:
  assumes i: "kinv ks" and s: "smon_set_event a e (ks_events ks) = Some (r, t)"
  shows "kinv (ks\<lparr>ks_events := t\<rparr>)"
proof (rule kinv_other [OF i])
  have "config_step \<lparr>ev_tab = ks_events ks, es_tab = ks_evsets ks\<rparr> \<lparr>ev_tab = t, es_tab = ks_evsets ks\<rparr>"
    using config_step.set_event [of a e "\<lparr>ev_tab = ks_events ks, es_tab = ks_evsets ks\<rparr>" r t] s by simp
  from config_step_inv [OF this] show "cfg_ok (ks\<lparr>ks_events := t\<rparr>)"
    using i by (simp add: kinv_def cfg_ok_def)
qed simp_all

lemma kinv_evsets:
  assumes i: "kinv ks" and s: "smon_set_evset a e (ks_events ks) (ks_evsets ks) = Some (r, t)"
    and l: "length (evids e) = MAX_GP_CTRS"
  shows "kinv (ks\<lparr>ks_evsets := t\<rparr>)"
proof (rule kinv_other [OF i])
  have c: "cfg_ok ks" using i by (simp add: kinv_def)
  have v: "evset_inv (ks_evsets ks)" "event_inv (ks_events ks)" using c by (simp_all add: cfg_ok_def config_inv_def)
  have en: "evset_entries t = (if r = 0 then evset_entries (ks_evsets ks) @ [e] else evset_entries (ks_evsets ks))"
    using evset_set_spec [OF v, of a e] s by auto
  have "config_step \<lparr>ev_tab = ks_events ks, es_tab = ks_evsets ks\<rparr> \<lparr>ev_tab = ks_events ks, es_tab = t\<rparr>"
    using config_step.set_evset [of a e "\<lparr>ev_tab = ks_events ks, es_tab = ks_evsets ks\<rparr>" r t] s by simp
  from config_step_inv [OF this] show "cfg_ok (ks\<lparr>ks_evsets := t\<rparr>)"
    using c l en by (auto simp: cfg_ok_def split: if_splits)
  show "envir_refs_ok (ks_evsets (ks\<lparr>ks_evsets := t\<rparr>)) f" if "envir_refs_ok (ks_evsets ks) f" for f
    using that en by (auto simp: envir_refs_ok_def split: if_splits)
qed simp_all

lemma kinv_config:
  assumes "kinv ks"
  shows "event_inv (ks_events ks)" "evset_inv (ks_evsets ks)"
  using assms by (simp_all add: kinv_def cfg_ok_def config_inv_def)

lemma ioctl_read_safe:
  assumes i: "kinv ks" and r: "ks_rbs ks r = Some rb"
  shows "kinv (put_rb r (smon_rb_read n w rb) ks)"
  unfolding put_rb_def
proof (rule kinv_rbs [OF i])
  have "rb_safe rb" "unat (rb_active rb) = card (rb_users ks r)"
    using i r by (auto simp: kinv_def counts_ok_def)
  then show "((ks_rbs ks)(r \<mapsto> smon_rb_read n w rb)) q = Some c \<Longrightarrow> ks_rbs ks q = Some c \<or>
      rb_safe c \<and> unat (rb_active c) = card (rb_users ks q)" for q c
    using rb_read_safe [of rb n w] by (auto simp: rb_read_same split: if_splits)
  show "((ks_rbs ks)(r \<mapsto> smon_rb_read n w rb)) q \<noteq> None"
    if "ks_tasks ks a = Some t" "t_rb t = Some q \<or> (\<exists>x. t_extra t = Some x \<and> x_rb x = Some q)" for a t q
  proof -
    have "task_ok ks t" using i that(1) by (simp add: kinv_def)
    then show ?thesis using that(2) by (auto simp: task_ok_def)
  qed
qed

text \<open>A report moves the tail of the buffer of its own file; the other buffers only grow.\<close>

definition unread_grow :: "bool \<Rightarrow> addr option \<Rightarrow> kstate \<Rightarrow> kstate \<Rightarrow> bool" where
  "unread_grow rep p ks ks' \<longleftrightarrow> (\<forall>q rb. ks_rbs ks q = Some rb \<longrightarrow> \<not> (rep \<and> p = Some q) \<longrightarrow>
     (\<exists>rb'. ks_rbs ks' q = Some rb' \<and> grows True rb rb'))"

lemma unread_growI: "buffers_grow True ks ks' \<Longrightarrow> unread_grow rep p ks ks'"
  by (simp add: unread_grow_def buffers_grow_def)

lemma unread_grow_same: "ks_rbs ks' = ks_rbs ks \<Longrightarrow> unread_grow rep p ks ks'"
  by (rule unread_growI [OF buffers_same])

lemma unread_grow_put: "unread_grow True (Some r) ks (put_rb r rb ks)"
  by (auto simp: unread_grow_def put_rb_def)

lemma ioctl_safe:
  assumes i: "kinv ks" and ok: "ioctl_ok ka p cmd arg ks"
  obtains r arg' ks' where "smon_ioctl ka p cmd arg ks = Some (r, arg', ks')" "kinv ks'"
    "unread_grow (cmd = SMON_IOCREAD) p ks ks'"
proof -
  note c = kinv_config [OF i]
  note same = unread_grow_same
  have "\<exists>r arg' ks'. smon_ioctl ka p cmd arg ks = Some (r, arg', ks') \<and> kinv ks' \<and>
      unread_grow (cmd = SMON_IOCREAD) p ks ks'"
  proof (cases "IOC_TYPE cmd \<noteq> SMON_IOC_MAGIC \<or> IOC_NR cmd > SMON_IOC_MAXNR \<or> \<not> ioctl_access_ok ka cmd \<or>
      (cmd \<notin> word_cmds \<and> cmd \<notin> struct_cmds)")
    case True
    then show ?thesis using i by (auto simp: smon_ioctl_def word_cmds_def struct_cmds_def same)
  next
    case False
    show ?thesis
    proof (cases "cmd \<in> word_cmds")
      case True
      then show ?thesis using False i ok by (auto simp: smon_ioctl_def word_cmds_def ioctl_ok_def same)
    next
      case nw: False
      with False have "cmd \<in> struct_cmds" by blast
      with ok obtain s where s: "arg = ArgStruct s"
        and o: "cmd = SMON_IOCSEVT \<Longrightarrow> \<exists>e. ioc_ptr s = IocEvent e"
        "cmd = SMON_IOCSEVS \<Longrightarrow> \<exists>e. ioc_ptr s = IocEvset e \<and> (\<forall>v. e = Some v \<longrightarrow> length (evids v) = MAX_GP_CTRS)"
        "cmd = SMON_IOCSTSK \<Longrightarrow> \<exists>e. ioc_ptr s = IocEnvir e \<and> (\<forall>v r. e = Some v \<longrightarrow> p = Some r \<longrightarrow>
           register_ok (ka_task ka) (ka_envir ka) (ka_extra ka) v r ks)"
        "cmd = SMON_IOCUTSK \<Longrightarrow> unregister_ok (ioc_word s) ks"
        "cmd = SMON_IOCREAD \<Longrightarrow> \<exists>n r. ioc_ptr s = IocItems n \<and> p = Some r \<and> ks_rbs ks r \<noteq> None"
        unfolding ioctl_ok_def by blast
      note run = False [unfolded de_Morgan_disj not_not]
      from \<open>cmd \<in> struct_cmds\<close> consider (sevt) "cmd = SMON_IOCSEVT" | (gevt) "cmd = SMON_IOCGEVT"
        | (sevs) "cmd = SMON_IOCSEVS" | (gevs) "cmd = SMON_IOCGEVS" | (stsk) "cmd = SMON_IOCSTSK"
        | (utsk) "cmd = SMON_IOCUTSK" | (rd) "cmd = SMON_IOCREAD" unfolding struct_cmds_def by blast
      then show ?thesis
      proof cases
        case sevt
        then obtain e where e: "ioc_ptr s = IocEvent e" using o(1) by blast
        show ?thesis
        proof (cases e)
          case None
          then show ?thesis using run i s e sevt by (simp add: smon_ioctl_def same)
        next
          case (Some v)
          from event_set_spec [OF c(1), of "ka_alloc ka" v] obtain r t where
            t: "smon_set_event (ka_alloc ka) v (ks_events ks) = Some (r, t)" by blast
          then show ?thesis using run i s e sevt Some kinv_events [OF i t] by (simp add: smon_ioctl_def same)
        qed
      next
        case gevt
        then show ?thesis using run i s
          by (auto simp: smon_ioctl_def event_get_spec [OF c(1)] copy_event_def Let_def same)
      next
        case sevs
        then obtain e where e: "ioc_ptr s = IocEvset e" "\<And>v. e = Some v \<Longrightarrow> length (evids v) = MAX_GP_CTRS"
          using o(2) by blast
        show ?thesis
        proof (cases e)
          case None
          then show ?thesis using run i s e sevs by (simp add: smon_ioctl_def same)
        next
          case (Some v)
          from evset_set_spec [OF c(2,1), of "ka_alloc ka" v] obtain r t where
            t: "smon_set_evset (ka_alloc ka) v (ks_events ks) (ks_evsets ks) = Some (r, t)" by blast
          then show ?thesis using run i s e(1) sevs Some kinv_evsets [OF i t e(2) [OF Some]]
            by (simp add: smon_ioctl_def same)
        qed
      next
        case gevs
        then show ?thesis using run i s
          by (auto simp: smon_ioctl_def evset_get_spec [OF c(2)] copy_evset_def Let_def same)
      next
        case stsk
        then obtain e where e: "ioc_ptr s = IocEnvir e" "\<And>v r. e = Some v \<Longrightarrow> p = Some r \<Longrightarrow>
           register_ok (ka_task ka) (ka_envir ka) (ka_extra ka) v r ks" using o(3) by blast
        show ?thesis
        proof (cases "e = None \<or> p = None")
          case True
          then show ?thesis using run i s e(1) stsk by (auto simp: smon_ioctl_def same split: option.splits)
        next
          case ep: False
          then obtain v r where vr: "e = Some v" "p = Some r" by auto
          from register_task_safe [OF i e(2) [OF this], of "ioc_word s"] obtain res k where
            "smon_sched_register_task (ka_task ka) (ka_envir ka) (ka_extra ka) (ioc_word s) v r ks = Some (res, k)"
            "kinv k" "buffers_grow True ks k" .
          then show ?thesis using run s e(1) stsk vr by (simp add: smon_ioctl_def unread_growI)
        qed
      next
        case utsk
        from unregister_task_safe [OF i o(4) [OF utsk]] obtain r k where
          "smon_sched_unregister_task (ioc_word s) ks = Some (r, k)" "kinv k" "buffers_grow True ks k" .
        then show ?thesis using run s utsk by (simp add: smon_ioctl_def unread_growI)
      next
        case rd
        then obtain n r rb where n: "ioc_ptr s = IocItems n" "p = Some r" "ks_rbs ks r = Some rb"
          using o(5) by blast
        then show ?thesis using run s rd ioctl_read_safe [OF i n(3)] unread_grow_put
          by (simp add: smon_ioctl_def ioctl_read_def)
      qed
    qed
  qed
  with that show thesis by blast
qed

section \<open>Every event\<close>

lemma mmap_no_fault:
  assumes "page_ok 0"
  shows "\<exists>res rb ps. smon_mmap rb_ok data_ok page_ok junk vs ve None = Some (res, rb, ps) \<and>
    (rb \<noteq> None \<longrightarrow> res = 0)"
proof -
  have "\<exists>r ps. smon_create_rb rb_ok data_ok page_ok junk n = Some (r, ps)" for n
  proof (cases "first_failure page_ok (unat n)")
    case None
    then show ?thesis by (simp add: smon_create_rb_def)
  next
    case (Some i)
    have "\<not> page_ok i" using first_failure_Some [of page_ok "unat n" i] Some by simp
    then obtain j where "i = Suc j" using assms by (cases i) auto
    then show ?thesis using Some by (simp add: smon_create_rb_def free_pages_down_Suc)
  qed
  then obtain r ps where "smon_create_rb rb_ok data_ok page_ok junk (ucast (drop_bit PAGE_SHIFT (ve - vs))) = Some (r, ps)"
    by blast
  then show ?thesis by (auto simp: smon_mmap_def Let_def split: option.splits)
qed


text \<open>What an event leaves behind.\<close>

fun removes :: "drv_event \<Rightarrow> addr \<Rightarrow> bool" where
  "removes (Munmap r) q \<longleftrightarrow> r = q"
| "removes _ q \<longleftrightarrow> False"

fun reports :: "drv_event \<Rightarrow> drv \<Rightarrow> addr \<Rightarrow> bool" where
  "reports (Ioctl f ka cmd arg) d q \<longleftrightarrow> cmd = SMON_IOCREAD \<and> drv_files d f = Some (Some q)"
| "reports _ d q \<longleftrightarrow> False"

text \<open>An exit counts writers out; every other event may count them in.\<close>

fun counts_up :: "drv_event \<Rightarrow> bool" where
  "counts_up (Exit p) \<longleftrightarrow> False"
| "counts_up _ \<longleftrightarrow> True"

definition others_grow :: "drv_event \<Rightarrow> drv \<Rightarrow> drv \<Rightarrow> bool" where
  "others_grow ev d d' \<longleftrightarrow> (\<forall>r rb. ks_rbs (drv_k d) r = Some rb \<longrightarrow> \<not> removes ev r \<longrightarrow> \<not> reports ev d r \<longrightarrow>
     (\<exists>rb'. ks_rbs (drv_k d') r = Some rb' \<and> grows (counts_up ev) rb rb'))"

definition drv_safe :: "drv_event \<Rightarrow> drv \<Rightarrow> drv option \<Rightarrow> bool" where
  "drv_safe ev d m \<longleftrightarrow> (\<exists>d'. m = Some d' \<and> kinv (drv_k d') \<and> others_grow ev d d')"

lemma drv_safe_same: "kinv (drv_k d') \<Longrightarrow> ks_rbs (drv_k d') = ks_rbs (drv_k d) \<Longrightarrow> drv_safe ev d (Some d')"
  by (simp add: drv_safe_def others_grow_def)

lemma on_kernel_safe: "safe (counts_up ev) (drv_k d) (f (drv_k d)) \<Longrightarrow> drv_safe ev d (on_kernel f d)"
  by (auto simp: safe_def drv_safe_def on_kernel_def others_grow_def buffers_grow_def)

lemma drv_exec_safe:
  assumes i: "kinv (drv_k d)" and ok: "drv_allowed ev d"
  shows "drv_safe ev d (drv_exec ev d)"
proof (cases ev)
  case (Mmap f r rb_ok data_ok page_ok junk vs ve)
  with ok have g: "ks_rbs (drv_k d) r = None" "page_ok 0" "drop_bit PAGE_SHIFT (ve - vs) < 2 ^ 32" by simp_all
  show ?thesis
  proof (cases "drv_files d f")
    case None
    then show ?thesis using i Mmap by (simp add: drv_safe_same)
  next
    case (Some p)
    from mmap_no_fault [of page_ok rb_ok data_ok junk vs ve, OF g(2)] obtain res rb ps where
      m: "smon_mmap rb_ok data_ok page_ok junk vs ve None = Some (res, rb, ps)" "rb \<noteq> None \<Longrightarrow> res = 0"
      by blast
    show ?thesis
    proof (cases rb)
      case None
      then show ?thesis using i Mmap Some m(1) by (simp add: drv_safe_same)
    next
      case b: (Some b)
      have "kinv (put_rb r b (drv_k d))"
        by (rule mmap_safe [OF i g(1) _ g(3)]) (use m b in simp)
      then show ?thesis using Mmap Some m(1) b g(1) by (auto simp: drv_safe_def others_grow_def put_rb_def)
    qed
  qed
next
  case (Munmap r)
  then obtain b where b: "ks_rbs (drv_k d) r = Some b" "rb_unused (drv_k d) r" using ok by auto
  then show ?thesis using munmap_safe [OF i b(2)] Munmap by (simp add: drv_safe_def smon_vma_close_def others_grow_def)
next
  case (Poll f)
  then show ?thesis using i ok by (auto simp: drv_safe_same Let_def split: option.splits)
next
  case (PageFault r pgoff)
  then show ?thesis using i ok by (auto simp: drv_safe_same Let_def)
next
  case (WakeUp r)
  with ok obtain b where b: "ks_rbs (drv_k d) r = Some b" by auto
  have "kinv (put_rb r (smon_wake_up_reader b) (drv_k d))" by (rule wake_up_safe [OF i b])
  moreover have "grows True b (smon_wake_up_reader b)" by (blast intro: grow_wake)
  ultimately show ?thesis using WakeUp b
    by (auto simp: drv_safe_def on_kernel_def others_grow_def put_rb_def)
next
  case (Ioctl f ka cmd arg)
  show ?thesis
  proof (cases "drv_files d f")
    case None
    then show ?thesis using i Ioctl by (simp add: drv_safe_same)
  next
    case (Some p)
    then have "ioctl_ok ka p cmd arg (drv_k d)" using ok Ioctl by simp
    from ioctl_safe [OF i this] obtain r arg' k where
      "smon_ioctl ka p cmd arg (drv_k d) = Some (r, arg', k)" "kinv k"
      "unread_grow (cmd = SMON_IOCREAD) p (drv_k d) k" by metis
    then show ?thesis using Ioctl Some by (auto simp: drv_safe_def on_kernel_def others_grow_def unread_grow_def)
  qed
qed (use i ok in \<open>auto intro!: on_kernel_safe switch_safe migrate_safe fork_safe exec_safe exit_safe
      pmc_timer_safe rapl_timer_safe irq_work_safe world_safe drv_safe_same
      split: option.splits\<close>)

section \<open>Reachable states\<close>

lemma init_kinv:
  assumes b: "blank ks" and r: "smon_init chr ev_ok es_ok added (md, ks) = Some (0, md', ks')"
  shows "kinv ks'"
proof -
  obtain r1 t where t: "smon_event_init ev_ok event_table0 = (r1, t)" by fastforce
  obtain r2 u where u: "smon_evset_init es_ok evset_table0 = (r2, u)" by fastforce
  have ks': "ks' = ks\<lparr>ks_events := t, ks_evsets := u, ks_task_list := [], ks_wait_list := [], ks_cpu_list := (\<lambda>_. [])\<rparr>"
    and ok: "ev_ok" "es_ok"
    using r b t u
    by (auto simp: smon_init_def Let_def blank_def smon_sched_init_def smon_event_init_def smon_evset_init_def
        sme_defs bind_eq_Some_conv split: if_splits prod.splits)
  have "config_inv \<lparr>ev_tab = t, es_tab = u\<rparr>" "evset_entries u = []"
    using event_init_inv [of event_table0 r1 t] evset_init_inv [of evset_table0 r2 u] t u ok
    by (auto simp: config_inv_def event_table0_def evset_table0_def)
  then show ?thesis
    using b unfolding ks' blank_def
    by (auto simp: kinv_def cfg_ok_def counts_ok_def rb_users_def envir_users_def lists_ok_def rings_ok_def links_ok_def)
qed

lemma drv_reach_kinv: "drv_reach d \<Longrightarrow> kinv (drv_k d)"
proof (induction rule: drv_reach.induct)
  case (drv_start ks chr ev_ok es_ok added md md' ks')
  then show ?case by (simp add: init_kinv)
next
  case (drv_next d d')
  from drv_next.hyps(2) show ?case
  proof (rule drv_stepE)
    fix ev assume "drv_allowed ev d" "drv_exec ev d = Some d'"
    with drv_exec_safe [OF drv_next.IH, of ev] show ?case by (simp add: drv_safe_def)
  qed
qed

lemma drv_no_fault:
  assumes "drv_reach d" and "drv_allowed ev d"
  obtains d' where "drv_exec ev d = Some d'" "drv_reach d'"
proof -
  from drv_exec_safe [OF drv_reach_kinv [OF assms(1)] assms(2)] obtain d' where d: "drv_exec ev d = Some d'"
    by (auto simp: drv_safe_def)
  with assms show thesis by (intro that [OF d]) (blast intro: drv_next drv_event)
qed

section \<open>The stream of a buffer\<close>

text \<open>
  Every event but the reader's report appends to a buffer: what it holds stays, in the same order, and
  whole records come after it.
\<close>

lemma drv_exec_appends:
  assumes "drv_reach d" and "drv_allowed ev d" and "\<not> removes ev r" and "\<not> reports ev d r"
    and rb: "ks_rbs (drv_k d) r = Some rb" "rb_inv rb rs"
  obtains d' rb' new where "drv_exec ev d = Some d'" "ks_rbs (drv_k d') r = Some rb'"
    "rb_inv rb' (rs @ new)" "list_all whole new"
proof -
  from drv_exec_safe [OF drv_reach_kinv [OF assms(1)] assms(2)] obtain d' where
    d: "drv_exec ev d = Some d'" "others_grow ev d d'" by (auto simp: drv_safe_def)
  from d(2) assms(3-5) obtain rb' where r: "ks_rbs (drv_k d') r = Some rb'" "grows (counts_up ev) rb rb'"
    by (auto simp: others_grow_def)
  from grows_appends [OF r(2) rb(2)] that [OF d(1) r(1)] show thesis by blast
qed

fun steady :: "addr \<Rightarrow> drv_event list \<Rightarrow> drv \<Rightarrow> bool" where
  "steady r [] d \<longleftrightarrow> True"
| "steady r (ev # evs) d \<longleftrightarrow> drv_allowed ev d \<and> \<not> removes ev r \<and> \<not> reports ev d r \<and>
     (case drv_exec ev d of None \<Rightarrow> True | Some d' \<Rightarrow> steady r evs d')"

lemma drv_run_appends:
  assumes "drv_reach d" and "steady r evs d" and "ks_rbs (drv_k d) r = Some rb" and "rb_inv rb rs"
  shows "\<exists>d' rb' new. fold_opt drv_exec evs d = Some d' \<and> drv_reach d' \<and> ks_rbs (drv_k d') r = Some rb' \<and>
    rb_inv rb' (rs @ new) \<and> list_all whole new"
  using assms
proof (induction evs arbitrary: d rb rs)
  case Nil
  then show ?case by (auto intro!: exI [of _ "[]"])
next
  case (Cons ev evs)
  then have ev: "drv_allowed ev d" "\<not> removes ev r" "\<not> reports ev d r" by simp_all
  from drv_exec_appends [OF Cons.prems(1) ev Cons.prems(3,4)] obtain d1 rb1 n1 where
    1: "drv_exec ev d = Some d1" "ks_rbs (drv_k d1) r = Some rb1" "rb_inv rb1 (rs @ n1)" "list_all whole n1" .
  have "drv_reach d1" using drv_next [OF Cons.prems(1) drv_event [OF ev(1) 1(1)]] .
  moreover have "steady r evs d1" using Cons.prems(2) 1(1) by simp
  ultimately obtain d' rb' n2 where "fold_opt drv_exec evs d1 = Some d'" "drv_reach d'"
    "ks_rbs (drv_k d') r = Some rb'" "rb_inv rb' ((rs @ n1) @ n2)" "list_all whole n2"
    using Cons.IH 1(2,3) by blast
  with 1(1,4) show ?case by (auto intro!: exI [of _ "n1 @ n2"])
qed

section \<open>Unloading\<close>

text \<open>Once nothing is mapped, no task is left on a list, and unloading frees the tables.\<close>

lemma unmapped_idle:
  assumes i: "kinv ks" and r: "ks_rbs ks = Map.empty"
  shows "ks_task_list ks = []" "ks_wait_list ks = []" "ks_cpu_list ks c = []"
proof -
  have t: "t_p t = None" "t_extra t = None" if "ks_tasks ks a = Some t" for a t
  proof -
    have ok: "task_ok ks t" using i that by (simp add: kinv_def)
    then have "t_rb t = None" using r by (auto simp: task_ok_def)
    with ok show "t_p t = None" by (simp add: task_ok_def)
    show "t_extra t = None" using ok r by (cases "t_extra t") (auto simp: task_ok_def)
  qed
  have "\<not> has_extra ks a" "\<not> runnable ks a" for a using t by (auto simp: has_extra_def runnable_def)
  moreover have "\<forall>a \<in> set (ks_task_list ks). has_extra ks a" "\<forall>a \<in> set (ks_wait_list ks). runnable ks a"
    "\<forall>a \<in> set (ks_cpu_list ks c). runnable ks a" using i by (auto simp: kinv_def lists_ok_def)
  ultimately show "ks_task_list ks = []" "ks_wait_list ks = []" "ks_cpu_list ks c = []"
    by (metis list.set_intros(1) neq_Nil_conv)+
qed

lemma unload_frees:
  assumes d: "drv_reach d" and u: "unload_allowed d"
  obtains md ks where "drv_unload n d = Some (md, ks)" "\<not> md_cdev md" "\<not> md_chrdev md"
    "ks_events ks = event_table0" "ks_evsets ks = evset_table0"
proof -
  let ?k = "drv_k d"
  have i: "kinv ?k" by (rule drv_reach_kinv [OF d])
  note e = unmapped_idle [OF i conjunct2 [OF u [unfolded unload_allowed_def]]]
  have "fold_opt (\<lambda>cpu ks. clear_cpu_list cpu (ks_cpu_list ks cpu) ks) cs ?k = Some ?k" for cs
    using e(3) by (induction cs) simp_all
  then have s: "smon_sched_exit n ?k = Some (0, ?k)" by (simp add: smon_sched_exit_def e(1))
  note c = kinv_config [OF i]
  from event_exit_spec [OF c(1)] evset_exit_spec [OF c(2)]
  show thesis
    by (intro that [of "(drv_module d)\<lparr>md_cdev := False, md_chrdev := False\<rparr>"
        "(drv_k d)\<lparr>ks_evsets := evset_table0, ks_events := event_table0\<rparr>"])
      (simp_all add: drv_unload_def smon_exit_def s)
qed

end
