(* ===== verification/C_Text.thy ===== *)
theory C_Text
  imports Prelude
begin

text \<open>
  What the tool uses of the C library on text: \<^verbatim>\<open>strtoul\<close> with base 0, \<^verbatim>\<open>strtok\<close>,
  \<^verbatim>\<open>getsubopt\<close>, \<^verbatim>\<open>getopt\<close> as the GNU library has it, and the conversions of
  \<^verbatim>\<open>printf\<close> that appear in its formats.
\<close>

section \<open>Numbers from text\<close>

text \<open>The value of a digit in any base up to 36, as \<^verbatim>\<open>strtoul\<close> reads it.\<close>

definition digit_value :: "char \<Rightarrow> nat option" where
  "digit_value c =
     (let n = of_char c :: nat
      in if 48 \<le> n \<and> n \<le> 57 then Some (n - 48)
         else if 97 \<le> n \<and> n \<le> 122 then Some (n - 87)
         else if 65 \<le> n \<and> n \<le> 90 then Some (n - 55)
         else None)"

definition is_digit :: "nat \<Rightarrow> char \<Rightarrow> bool" where
  "is_digit b c = (case digit_value c of None \<Rightarrow> False | Some d \<Rightarrow> d < b)"

definition is_space :: "char \<Rightarrow> bool" where
  "is_space c \<longleftrightarrow> (let n = of_char c :: nat in n = 32 \<or> 9 \<le> n \<and> n \<le> 13)"

text \<open>The digits are read until the first character that is none.\<close>

fun read_digits :: "nat \<Rightarrow> nat \<Rightarrow> string \<Rightarrow> nat" where
  "read_digits b acc [] = acc"
| "read_digits b acc (c # cs) =
     (case digit_value c of
        None \<Rightarrow> acc
      | Some d \<Rightarrow> if d < b then read_digits b (acc * b + d) cs else acc)"

text \<open>Base 0: the prefix selects the base. \<^verbatim>\<open>0x\<close> counts only before a digit.\<close>

fun read_base :: "string \<Rightarrow> nat \<times> string" where
  "read_base (c # x # d # cs) =
     (if c = CHR ''0'' \<and> (x = CHR ''x'' \<or> x = CHR ''X'') \<and> is_digit 16 d then (16, d # cs)
      else if c = CHR ''0'' then (8, x # d # cs) else (10, c # x # d # cs))"
| "read_base (c # cs) = (if c = CHR ''0'' then (8, cs) else (10, c # cs))"
| "read_base [] = (10, [])"

fun read_sign :: "string \<Rightarrow> bool \<times> string" where
  "read_sign (c # cs) =
     (if c = CHR ''-'' then (True, cs) else if c = CHR ''+'' then (False, cs) else (False, c # cs))"
| "read_sign [] = (False, [])"

text \<open>A value out of range gives \<^verbatim>\<open>ULONG_MAX\<close>; a minus sign negates the word.\<close>

definition strtoul :: "string \<Rightarrow> u64" where
  "strtoul s =
     (let (neg, s) = read_sign (dropWhile is_space s);
          (b, s) = read_base s;
          n = read_digits b 0 s
      in if 2 ^ 64 \<le> n then - 1 else if neg then - of_nat n else of_nat n)"

section \<open>Cutting text\<close>

text \<open>The tokens that successive calls of \<^verbatim>\<open>strtok\<close> with one delimiter return.\<close>

fun split_at :: "char \<Rightarrow> string \<Rightarrow> string list" where
  "split_at d [] = [[]]"
| "split_at d (c # cs) =
     (if c = d then [] # split_at d cs
      else case split_at d cs of [] \<Rightarrow> [[c]] | w # ws \<Rightarrow> (c # w) # ws)"

definition strtok_tokens :: "char \<Rightarrow> string \<Rightarrow> string list" where
  "strtok_tokens d s = filter (\<lambda>t. t \<noteq> []) (split_at d s)"

text \<open>
  \<^verbatim>\<open>getsubopt\<close>: the text up to the next comma, the name before the first \<open>=\<close> looked up, and
  the text after it, \<open>None\<close> being NULL. For an unknown name the index is \<open>None\<close> and the value
  the whole piece. The last component is what is left.
\<close>

fun find_index_of :: "nat \<Rightarrow> string \<Rightarrow> string list \<Rightarrow> nat option" where
  "find_index_of i k [] = None"
| "find_index_of i k (t # ts) = (if k = t then Some i else find_index_of (Suc i) k ts)"

definition getsubopt :: "string list \<Rightarrow> string \<Rightarrow> nat option \<times> string option \<times> string" where
  "getsubopt tokens s =
     (let piece = takeWhile (\<lambda>c. c \<noteq> CHR '','') s;
          rest = drop (Suc (length piece)) s;
          name = takeWhile (\<lambda>c. c \<noteq> CHR ''='') piece;
          val = (if name = piece then None else Some (drop (Suc (length name)) piece))
      in case find_index_of 0 name tokens of
           None \<Rightarrow> (None, Some piece, rest)
         | Some i \<Rightarrow> (Some i, val, rest))"

lemma getsubopt_rest: "s \<noteq> [] \<Longrightarrow> length (snd (snd (getsubopt tokens s))) < length s"
  by (simp add: getsubopt_def Let_def split: option.splits)

section \<open>Options\<close>

text \<open>
  \<^verbatim>\<open>getopt\<close> with the GNU permutation: the options in the order they are returned, each with
  its argument, and the arguments that are none, which end up behind them. An option that is not
  in the string, or whose argument is missing, is returned as a question mark.
\<close>

fun takes_arg :: "string \<Rightarrow> char \<Rightarrow> bool option" where
  "takes_arg [] c = None"
| "takes_arg (o1 # os) c =
     (if o1 = c \<and> c \<noteq> CHR '':'' then Some (case os of [] \<Rightarrow> False | p # _ \<Rightarrow> p = CHR '':'')
      else takes_arg os c)"

fun getopt_cluster :: "string \<Rightarrow> string \<Rightarrow> string list \<Rightarrow> (char \<times> string) list \<times> string list" where
  "getopt_cluster os [] args = ([], args)"
| "getopt_cluster os (c # cs) args =
     (case takes_arg os c of
        None \<Rightarrow> let (r, args) = getopt_cluster os cs args in ((CHR ''?'', []) # r, args)
      | Some False \<Rightarrow> let (r, args) = getopt_cluster os cs args in ((c, []) # r, args)
      | Some True \<Rightarrow>
          if cs \<noteq> [] then ([(c, cs)], args)
          else case args of [] \<Rightarrow> ([(CHR ''?'', [])], []) | a # args \<Rightarrow> ([(c, a)], args))"

lemma getopt_cluster_length: "length (snd (getopt_cluster os cs args)) \<le> length args"
  by (induction os cs args rule: getopt_cluster.induct)
    (auto split: option.splits bool.splits list.splits prod.splits)

function getopt_all :: "string \<Rightarrow> string list \<Rightarrow> (char \<times> string) list \<times> string list" where
  "getopt_all os [] = ([], [])"
| "getopt_all os (a # args) =
     (if a = ''--'' then ([], args)
      else if 1 < length a \<and> hd a = CHR ''-''
      then let (r, args') = getopt_cluster os (tl a) args; (r', rest) = getopt_all os args' in (r @ r', rest)
      else let (r, rest) = getopt_all os args in (r, a # rest))"
  by pat_completeness auto
termination
proof (relation "measure (\<lambda>(os, args). length args)")
  fix os :: string and a :: string and args x r args'
  assume "x = getopt_cluster os (tl a) args" "(r, args') = x"
  then have "args' = snd (getopt_cluster os (tl a) args)" by (metis snd_conv)
  then show "((os, args'), os, a # args) \<in> measure (\<lambda>(os, args). length args)"
    using getopt_cluster_length [of os "tl a" args] by simp
qed simp_all

section \<open>Text from numbers\<close>

definition digit_char :: "nat \<Rightarrow> char" where
  "digit_char d = (if d < 10 then char_of (48 + d) else char_of (87 + d))"

fun show_base :: "nat \<Rightarrow> nat \<Rightarrow> string" where
  "show_base b n = (if b < 2 \<or> n < b then [digit_char n] else show_base b (n div b) @ [digit_char (n mod b)])"

declare show_base.simps [simp del]

definition show_nat :: "nat \<Rightarrow> string" where "show_nat = show_base 10"

definition show_int :: "int \<Rightarrow> string" where
  "show_int i = (if i < 0 then CHR ''-'' # show_nat (nat (- i)) else show_nat (nat i))"

text \<open>\<^verbatim>\<open>%d\<close>, \<^verbatim>\<open>%lld\<close>, \<^verbatim>\<open>%u\<close> and \<^verbatim>\<open>%lu\<close>, and \<^verbatim>\<open>%.nx\<close>.\<close>

definition fmt_signed :: "'a::len word \<Rightarrow> string" where "fmt_signed w = show_int (sint w)"
definition fmt_unsigned :: "'a::len word \<Rightarrow> string" where "fmt_unsigned w = show_nat (unat w)"
definition fmt_hex :: "nat \<Rightarrow> 'a::len word \<Rightarrow> string" where
  "fmt_hex n w = (let s = show_base 16 (unat w) in replicate (n - length s) CHR ''0'' @ s)"

section \<open>Printing and reading back\<close>

lemma digit_char_0 [simp]: "digit_char 0 = CHR ''0''"
  by (simp add: digit_char_def char_of_eq_iff)

lemma digit_char_value: "d < 36 \<Longrightarrow> digit_value (digit_char d) = Some d"
  by (auto simp: digit_char_def digit_value_def Let_def)

lemma read_digits_append:
  assumes "\<forall>c \<in> set xs. is_digit b c"
  shows "read_digits b acc (xs @ ys) = read_digits b (read_digits b acc xs) ys"
  using assms by (induction xs arbitrary: acc) (auto simp: is_digit_def split: option.splits)

lemma show_base_digits: "2 \<le> b \<Longrightarrow> b \<le> 36 \<Longrightarrow> \<forall>c \<in> set (show_base b n). is_digit b c"
proof (induction n rule: less_induct)
  case (less n)
  have d: "is_digit b (digit_char k)" if "k < b" for k
    using that less.prems by (simp add: is_digit_def digit_char_value)
  show ?case
  proof (cases "n < b")
    case True
    then show ?thesis by (subst show_base.simps) (simp add: d)
  next
    case False
    then have "n div b < n" using less.prems by (intro div_less_dividend) auto
    then show ?thesis
      using less.IH [of "n div b"] less.prems d [of "n mod b"] False
      by (subst show_base.simps) auto
  qed
qed

lemma read_show_base: "2 \<le> b \<Longrightarrow> b \<le> 36 \<Longrightarrow> read_digits b 0 (show_base b n) = n"
proof (induction n rule: less_induct)
  case (less n)
  have v: "digit_value (digit_char k) = Some k" if "k < b" for k
    using that less.prems by (intro digit_char_value) simp
  show ?case
  proof (cases "n < b")
    case True
    then show ?thesis by (subst show_base.simps) (simp add: v)
  next
    case False
    then have lt: "n div b < n" using less.prems by (intro div_less_dividend) auto
    have "read_digits b 0 (show_base b (n div b) @ [digit_char (n mod b)]) = n div b * b + n mod b"
      using less.prems less.IH [OF lt]
      by (subst read_digits_append [OF show_base_digits]) (simp_all add: v)
    then show ?thesis using False less.prems by (subst show_base.simps) simp
  qed
qed

lemma show_base_not_Nil: "show_base b n \<noteq> []"
  by (subst show_base.simps) simp

lemma show_base_head: "2 \<le> b \<Longrightarrow> b \<le> 36 \<Longrightarrow> 0 < n \<Longrightarrow> hd (show_base b n) \<noteq> digit_char 0"
proof (induction n rule: less_induct)
  case (less n)
  show ?case
  proof (cases "n < b")
    case True
    then show ?thesis
      using less.prems digit_char_value [of n] digit_char_value [of 0]
      by (subst show_base.simps) auto
  next
    case False
    then have "0 < n div b" "n div b < n"
      using less.prems by (simp_all add: div_greater_zero_iff div_less_dividend)
    then show ?thesis using less False by (subst show_base.simps) (simp add: show_base_not_Nil hd_append)
  qed
qed


lemma digit_not_space:
  assumes "is_digit b c"
  shows "\<not> is_space c" "c \<noteq> CHR ''-''" "c \<noteq> CHR ''+''"
  using assms by (auto simp: is_digit_def is_space_def digit_value_def Let_def split: if_splits)

lemma read_base_nonzero: "c \<noteq> CHR ''0'' \<Longrightarrow> read_base (c # cs) = (10, c # cs)"
  by (cases cs; cases "tl cs") auto

text \<open>A number printed in decimal is read back, whatever follows it up to the next non-digit.\<close>

lemma strtoul_show_nat:
  assumes "n < 2 ^ 64"
  shows "strtoul (show_nat n) = of_nat n"
proof -
  have dg: "\<forall>c \<in> set (show_nat n). is_digit 10 c" by (simp add: show_nat_def show_base_digits)
  obtain c cs where s: "show_nat n = c # cs"
    using show_base_not_Nil [of 10 n] by (cases "show_nat n") (auto simp: show_nat_def)
  have c: "\<not> is_space c" "c \<noteq> CHR ''-''" "c \<noteq> CHR ''+''" using dg digit_not_space [of 10 c] by (simp_all add: s)
  show ?thesis
  proof (cases "n = 0")
    case True
    have "show_nat 0 = ''0''" by (simp add: show_nat_def show_base.simps)
    then show ?thesis using True by (simp add: strtoul_def is_space_def)
  next
    case False
    then have "c \<noteq> CHR ''0''"
      using show_base_head [of 10 n] s by (simp add: show_nat_def)
    moreover have "read_digits 10 0 (c # cs) = n"
      using read_show_base [of 10 n] s by (simp add: show_nat_def)
    ultimately show ?thesis using c assms by (simp add: strtoul_def s read_base_nonzero)
  qed
qed

lemma strtoul_show_hex:
  assumes "n < 2 ^ 64"
  shows "strtoul (''0x'' @ show_base 16 n) = of_nat n"
proof -
  have dg: "\<forall>c \<in> set (show_base 16 n). is_digit 16 c" by (simp add: show_base_digits)
  obtain c cs where s: "show_base 16 n = c # cs"
    using show_base_not_Nil [of 16 n] by (cases "show_base 16 n") auto
  have "read_digits 16 0 (c # cs) = n" using read_show_base [of 16 n] s by simp
  then show ?thesis using assms dg by (simp add: strtoul_def s is_space_def)
qed

end
