(* ===== verification/Cmd.thy ===== *)
theory Cmd
  imports C_Text Envir
begin

text \<open>
  \<^verbatim>\<open>tool/src/cmd.c\<close>: the command line of the tool. A parser returns \<open>Inl\<close> an error code that
  is not zero, or \<open>Inr\<close> the command; messages and the help texts are left out. A NULL that is
  dereferenced and a string that does not fit its array are faults.
\<close>

section \<open>The command\<close>

definition CMD_INVAL :: i32 where "CMD_INVAL = 0"
definition CMD_EVENT :: i32 where "CMD_EVENT = 1"
definition CMD_EVSET :: i32 where "CMD_EVSET = 2"
definition CMD_STAT :: i32 where "CMD_STAT = 4"
definition CMD_PROFILE :: i32 where "CMD_PROFILE = 5"
definition CMD_ROOF :: i32 where "CMD_ROOF = 6"

definition DEFAULT_BURST :: u32 where "DEFAULT_BURST = 1000"
definition DEFAULT_MMAP_PAGES :: u32 where "DEFAULT_MMAP_PAGES = 1024"
definition DEFAULT_OFILE :: string where "DEFAULT_OFILE = ''smon.data''"
definition TOOL_MAX_EVENTS :: int where "TOOL_MAX_EVENTS = 64"

text \<open>The pointer to one of the three global structures, with its contents, and the union.\<close>

datatype cmd_ptr = PtrNone | PtrEvent smon_event | PtrEvset smon_evset | PtrEnvir smon_envir
datatype cmd_union = Subcmd char | Argindex u32

record smon_cmd =
  c_type :: i32
  c_ptr :: cmd_ptr
  c_arg :: cmd_union
  c_count_mode :: u32
  c_cpumask :: u32
  c_mmap_pages :: u32
  c_out_file :: string

text \<open>\<^verbatim>\<open>sprintf (cmd->out_file, "%s", s)\<close> into the array of 512 characters.\<close>

definition set_out_file :: "string \<Rightarrow> smon_cmd \<Rightarrow> smon_cmd option" where
  "set_out_file s cmd = (if length s < 512 then Some (cmd\<lparr>c_out_file := s\<rparr>) else None)"

text \<open>The options one after another, up to the first that is an error.\<close>

fun run_opts ::
  "(char \<times> string \<Rightarrow> 's \<Rightarrow> (i32 + 's) option) \<Rightarrow> (char \<times> string) list \<Rightarrow> 's \<Rightarrow> (i32 + 's) option" where
  "run_opts f [] s = Some (Inr s)"
| "run_opts f (x # xs) s = do {
     r \<leftarrow> f x s;
     case r of Inl e \<Rightarrow> Some (Inl e) | Inr s \<Rightarrow> run_opts f xs s
   }"

section \<open>Events\<close>

definition zero_event :: smon_event where "zero_event = \<lparr>ev_tag = [], perfevtsel = 0\<rparr>"

definition event_add_opts :: "string list" where
  "event_add_opts = [''tag'', ''mode'', ''evsel'', ''umask'']"

text \<open>The counters \<^verbatim>\<open>ftag\<close>, \<^verbatim>\<open>fevsel\<close> and \<^verbatim>\<open>fumask\<close>.\<close>

record event_flags =
  ftag :: nat
  fevsel :: nat
  fumask :: nat

text \<open>One parameter of \<^verbatim>\<open>event --add\<close>; the inner \<open>None\<close> is an invalid one.\<close>

definition event_subopt ::
  "nat option \<Rightarrow> string option \<Rightarrow> smon_event \<Rightarrow> event_flags \<Rightarrow> (smon_event \<times> event_flags) option option" where
  "event_subopt i val e f =
     (if i = Some 0 then do {
        v \<leftarrow> val;
        Some (Some (e\<lparr>ev_tag := take 63 v\<rparr>, f\<lparr>ftag := ftag f + 1\<rparr>))
      }
      else if i = Some 1 then do {
        v \<leftarrow> val;
        let tmp = strtoul v AND 0x03;
        let e = e\<lparr>perfevtsel := perfevtsel e OR ucast (ucast (push_bit 16 tmp) :: u32)\<rparr>;
        let e = e\<lparr>perfevtsel := perfevtsel e OR push_bit 22 1\<rparr>;
        Some (Some (e, f))
      }
      else if i = Some 2 then do {
        v \<leftarrow> val;
        let tmp = strtoul v AND 0xff;
        Some (Some (e\<lparr>perfevtsel := perfevtsel e OR ucast (ucast tmp :: u32)\<rparr>, f\<lparr>fevsel := fevsel f + 1\<rparr>))
      }
      else if i = Some 3 then do {
        v \<leftarrow> val;
        let tmp = strtoul v AND 0xff;
        Some (Some (e\<lparr>perfevtsel := perfevtsel e OR ucast (ucast (push_bit 8 tmp) :: u32)\<rparr>, f\<lparr>fumask := fumask f + 1\<rparr>))
      }
      else Some None)"

function event_subopts :: "string \<Rightarrow> smon_event \<Rightarrow> event_flags \<Rightarrow> (smon_event \<times> event_flags) option option" where
  "event_subopts s e f =
     (if s = [] then Some (Some (e, f))
      else let (i, val, rest) = getsubopt event_add_opts s
           in case event_subopt i val e f of
                None \<Rightarrow> None
              | Some None \<Rightarrow> Some None
              | Some (Some (e, f)) \<Rightarrow> event_subopts rest e f)"
  by pat_completeness auto
termination
proof (relation "measure (\<lambda>(s, e, f). length s)")
  fix s :: string and e f x i y val rest z r e' f'
  assume "s \<noteq> []" "x = getsubopt event_add_opts s" "(i, y) = x" "(val, rest) = y"
  then show "((rest, e', f'), s, e, f) \<in> measure (\<lambda>(s, e, f). length s)"
    using getsubopt_rest [of s event_add_opts] by (metis case_prod_conv in_measure snd_conv)
qed simp

declare event_subopts.simps [simp del]

text \<open>The test on the three counters is the bitwise conjunction.\<close>

definition parse_event_add :: "string \<Rightarrow> (i32 + smon_event) option" where
  "parse_event_add optarg = do {
     r \<leftarrow> event_subopts optarg zero_event \<lparr>ftag = 0, fevsel = 0, fumask = 0\<rparr>;
     case r of
       None \<Rightarrow> Some (Inl 1)
     | Some (e, f) \<Rightarrow>
         if ftag f AND fevsel f AND fumask f = 0 then Some (Inl 1)
         else if ev_usr e = 0 \<and> ev_os e = 0 then Some (Inr (e\<lparr>perfevtsel := perfevtsel e OR push_bit 16 3\<rparr>))
         else Some (Inr e)
   }"

fun parse_event_opts :: "(char \<times> string) list \<Rightarrow> smon_cmd \<Rightarrow> (i32 + smon_cmd) option" where
  "parse_event_opts [] cmd = Some (Inl 1)"
| "parse_event_opts ((c, optarg) # opts) cmd =
     (if c = CHR ''a'' then do {
        r \<leftarrow> parse_event_add optarg;
        case r of
          Inl err \<Rightarrow> Some (Inl err)
        | Inr e \<Rightarrow> Some (Inr (cmd\<lparr>c_arg := Subcmd c, c_ptr := PtrEvent e\<rparr>))
      }
      else if c = CHR ''l'' then Some (Inr (cmd\<lparr>c_arg := Subcmd c, c_ptr := PtrEvent zero_event\<rparr>))
      else parse_event_opts opts cmd)"

definition parse_event :: "string list \<Rightarrow> smon_cmd \<Rightarrow> (i32 + smon_cmd) option" where
  "parse_event args cmd = parse_event_opts (fst (getopt_all ''a:l'' args)) cmd"

section \<open>Event-sets\<close>

definition zero_evset :: smon_evset where
  "zero_evset = \<lparr>es_tag = [], evids = replicate MAX_GP_CTRS 0, fixed_ctrl = 0, global_ctrl = 0\<rparr>"

definition evset_add_opts :: "string list" where "evset_add_opts = [''tag'', ''events'', ''fixed'']"

text \<open>The ids of the events; \<open>None\<close> is too many of them or one that is out of range.\<close>

fun read_evids :: "string list \<Rightarrow> i32 list \<Rightarrow> i32 list option" where
  "read_evids [] ids = Some ids"
| "read_evids (token # tokens) ids =
     (if length ids = MAX_GP_CTRS then None
      else let e = ucast (strtoul token)
           in if sint e \<ge> TOOL_MAX_EVENTS then None else read_evids tokens (ids @ [e]))"

definition evset_events :: "i32 list \<Rightarrow> smon_evset \<Rightarrow> smon_evset" where
  "evset_events ids s =
     (let evs = ids @ replicate (MAX_GP_CTRS - length ids) (- 1);
          g = fold (\<lambda>i g. if sint (evs ! i) < 0 then g else g OR push_bit i 1) [0..<MAX_GP_CTRS] (global_ctrl s)
      in s\<lparr>evids := evs, global_ctrl := g\<rparr>)"

definition evset_fixed :: "u32 \<Rightarrow> smon_evset \<Rightarrow> smon_evset" where
  "evset_fixed tmp s =
     (let s = s\<lparr>fixed_ctrl := fixed_ctrl s OR ucast tmp\<rparr>;
          s = (if tmp AND 0x003 \<noteq> 0 then s\<lparr>global_ctrl := global_ctrl s OR push_bit 32 1\<rparr> else s);
          s = (if tmp AND 0x030 \<noteq> 0 then s\<lparr>global_ctrl := global_ctrl s OR push_bit 33 1\<rparr> else s)
      in if tmp AND 0x300 \<noteq> 0 then s\<lparr>global_ctrl := global_ctrl s OR push_bit 34 1\<rparr> else s)"

definition evset_subopt ::
  "nat option \<Rightarrow> string option \<Rightarrow> smon_evset \<Rightarrow> nat \<times> nat \<Rightarrow> (smon_evset \<times> nat \<times> nat) option option" where
  "evset_subopt i val s f =
     (if i = Some 0 then do {
        v \<leftarrow> val;
        Some (Some (s\<lparr>es_tag := take 63 v\<rparr>, fst f + 1, snd f))
      }
      else if i = Some 1 then do {
        v \<leftarrow> val;
        let tokens = strtok_tokens CHR '':'' v;
        if tokens = [] then Some None
        else case read_evids tokens [] of
               None \<Rightarrow> Some None
             | Some ids \<Rightarrow> Some (Some (evset_events ids s, fst f, snd f + 1))
      }
      else if i = Some 2 then do {
        v \<leftarrow> val;
        Some (Some (evset_fixed (ucast (strtoul v) AND 0x0333) s, f))
      }
      else Some None)"

function evset_subopts :: "string \<Rightarrow> smon_evset \<Rightarrow> nat \<times> nat \<Rightarrow> (smon_evset \<times> nat \<times> nat) option option" where
  "evset_subopts str s f =
     (if str = [] then Some (Some (s, f))
      else let (i, val, rest) = getsubopt evset_add_opts str
           in case evset_subopt i val s f of
                None \<Rightarrow> None
              | Some None \<Rightarrow> Some None
              | Some (Some (s, f)) \<Rightarrow> evset_subopts rest s f)"
  by pat_completeness auto
termination
proof (relation "measure (\<lambda>(str, s, f). length str)")
  fix str :: string and s f x i y val rest z r s' f'
  assume "str \<noteq> []" "x = getsubopt evset_add_opts str" "(i, y) = x" "(val, rest) = y"
  then show "((rest, s', f'), str, s, f) \<in> measure (\<lambda>(str, s, f). length str)"
    using getsubopt_rest [of str evset_add_opts] by (metis case_prod_conv in_measure snd_conv)
qed simp

declare evset_subopts.simps [simp del]

definition parse_evset_add :: "string \<Rightarrow> (i32 + smon_evset) option" where
  "parse_evset_add optarg = do {
     r \<leftarrow> evset_subopts optarg zero_evset (0, 0);
     case r of
       None \<Rightarrow> Some (Inl 1)
     | Some (s, f1, f2) \<Rightarrow> if f1 AND f2 = 0 then Some (Inl 1) else Some (Inr s)
   }"

fun parse_evset_opts :: "(char \<times> string) list \<Rightarrow> smon_cmd \<Rightarrow> (i32 + smon_cmd) option" where
  "parse_evset_opts [] cmd = Some (Inl 1)"
| "parse_evset_opts ((c, optarg) # opts) cmd =
     (if c = CHR ''a'' then do {
        r \<leftarrow> parse_evset_add optarg;
        case r of
          Inl err \<Rightarrow> Some (Inl err)
        | Inr s \<Rightarrow> Some (Inr (cmd\<lparr>c_arg := Subcmd c, c_ptr := PtrEvset s\<rparr>))
      }
      else if c = CHR ''l'' then Some (Inr (cmd\<lparr>c_arg := Subcmd c, c_ptr := PtrEvset zero_evset\<rparr>))
      else parse_evset_opts opts cmd)"

definition parse_evset :: "string list \<Rightarrow> smon_cmd \<Rightarrow> (i32 + smon_cmd) option" where
  "parse_evset args cmd = parse_evset_opts (fst (getopt_all ''a:l'' args)) cmd"

section \<open>Environments\<close>

definition zero_envir :: smon_envir where
  "zero_envir = \<lparr>esids = replicate MUX_EVSETS 0, n_esids = 0, sample_time = 0, batch_size = 0,
     options = 0, envir_count = 0\<rparr>"

text \<open>The ids of the event-sets; a negative one is read over by the next.\<close>

fun read_esids :: "string list \<Rightarrow> i32 list \<Rightarrow> i32 list option" where
  "read_esids [] ids = Some ids"
| "read_esids (token # tokens) ids =
     (if length ids = MUX_EVSETS then None
      else let e = ucast (strtoul token)
           in if sint e \<ge> sint MAX_EVSETS then None
              else read_esids tokens (if sint e \<ge> 0 then ids @ [e] else ids))"

definition set_esids :: "i32 list \<Rightarrow> smon_envir \<Rightarrow> smon_envir" where
  "set_esids ids e = e\<lparr>n_esids := of_nat (length ids), esids := ids @ replicate (MUX_EVSETS - length ids) (- 1)\<rparr>"

text \<open>The values that \<^verbatim>\<open>-p\<close> accepts.\<close>

definition mmap_choices :: "u32 list" where
  "mmap_choices = [2, 4, 8, 16, 32, 64, 128, 256, 512, 1024, 2048, 4096, 8192]"

definition opt_burst :: "string \<Rightarrow> smon_envir \<Rightarrow> smon_envir" where
  "opt_burst s e =
     (let tmp = ucast (strtoul s) in if tmp > 0 then e\<lparr>batch_size := tmp\<rparr> else e\<lparr>batch_size := DEFAULT_BURST\<rparr>)"

definition opt_pages :: "string \<Rightarrow> smon_cmd \<Rightarrow> smon_cmd" where
  "opt_pages s cmd =
     (let tmp = ucast (strtoul s)
      in cmd\<lparr>c_mmap_pages := (if tmp \<in> set mmap_choices then tmp else DEFAULT_MMAP_PAGES)\<rparr>)"

definition add_option :: "u32 \<Rightarrow> smon_envir \<Rightarrow> smon_envir" where
  "add_option op e = e\<lparr>options := options e OR op\<rparr>"

text \<open>The state of the parsers: the command, the environment and \<^verbatim>\<open>eflag\<close>.\<close>

type_synonym envir_state = "smon_cmd \<times> smon_envir \<times> nat"

definition profile_opt :: "char \<times> string \<Rightarrow> envir_state \<Rightarrow> (i32 + envir_state) option" where
  "profile_opt x s =
     (let (c, optarg) = x; (cmd, e, eflag) = s
      in if c = CHR ''b'' then Some (Inr (cmd, opt_burst optarg e, eflag))
         else if c = CHR ''c'' then Some (Inr (cmd\<lparr>c_cpumask := ucast (strtoul optarg)\<rparr>, e, eflag))
         else if c = CHR ''e''
         then (let tokens = strtok_tokens CHR '':'' optarg
               in if tokens = [] then Some (Inl 1)
                  else case read_esids tokens [] of
                         None \<Rightarrow> Some (Inl 1)
                       | Some ids \<Rightarrow> Some (Inr (cmd, set_esids ids e, eflag + 1)))
         else if c = CHR ''f'' then Some (Inr (cmd, add_option ENVOP_FORK e, eflag))
         else if c = CHR ''i'' then Some (Inr (cmd, add_option ENVOP_INH e, eflag))
         else if c = CHR ''m'' then Some (Inr (cmd, add_option ENVOP_CPU e, eflag))
         else if c = CHR ''o'' then map_option (\<lambda>cmd. Inr (cmd, e, eflag)) (set_out_file optarg cmd)
         else if c = CHR ''p'' then Some (Inr (opt_pages optarg cmd, e, eflag))
         else if c = CHR ''r'' then Some (Inr (cmd, add_option ENVOP_RAP e, eflag))
         else if c = CHR ''s'' then Some (Inr (cmd, add_option ENVOP_SCHED e, eflag))
         else if c = CHR ''t'' then Some (Inr (cmd, e\<lparr>sample_time := ucast (strtoul optarg)\<rparr>, eflag))
         else Some (Inr s))"

text \<open>
  The index of the first argument behind the options, counted in the shifted vector, and one more
  for the shift. The second component of the result is the vector from that index on.
\<close>

definition set_argindex :: "string list \<Rightarrow> string list \<Rightarrow> smon_cmd \<Rightarrow> smon_cmd" where
  "set_argindex args prog cmd = cmd\<lparr>c_arg := Argindex (of_nat (1 + length args - length prog) + 1)\<rparr>"

definition parse_profile :: "string list \<Rightarrow> smon_cmd \<Rightarrow> (i32 + smon_cmd \<times> string list) option" where
  "parse_profile args cmd =
     (let e = zero_envir;
          e = add_option ENVOP_EXE e;
          e = e\<lparr>batch_size := DEFAULT_BURST, sample_time := DEFAULT_SAMPLE_TIME\<rparr>
      in do {
        cmd \<leftarrow> set_out_file DEFAULT_OFILE cmd;
        let cmd = cmd\<lparr>c_mmap_pages := DEFAULT_MMAP_PAGES, c_cpumask := 0\<rparr>;
        let (opts, prog) = getopt_all ''b:c:e:fimo:p:rst:'' args;
        r \<leftarrow> run_opts profile_opt opts (cmd, e, 0);
        case r of
          Inl err \<Rightarrow> Some (Inl err)
        | Inr (cmd, e, eflag) \<Rightarrow>
            if prog = [] then Some (Inl 1)
            else let cmd = set_argindex args prog cmd
                 in if eflag = 0 then Some (Inl 1)
                    else Some (Inr (cmd\<lparr>c_ptr := PtrEnvir e\<rparr>, prog))
      })"

definition stat_opt :: "char \<times> string \<Rightarrow> envir_state \<Rightarrow> (i32 + envir_state) option" where
  "stat_opt x s =
     (let (c, optarg) = x; (cmd, e, eflag) = s
      in if c = CHR ''c'' then Some (Inr (cmd\<lparr>c_cpumask := ucast (strtoul optarg)\<rparr>, e, eflag))
         else if c = CHR ''e''
         then (let tokens = strtok_tokens CHR '':'' optarg
               in if tokens = [] then Some (Inl 1)
                  else case read_esids tokens [] of
                         None \<Rightarrow> Some (Inl 1)
                       | Some ids \<Rightarrow>
                           let e = set_esids ids e;
                               e = e\<lparr>n_esids := 1, esids := take 1 (esids e) @ replicate (MUX_EVSETS - 1) (- 1)\<rparr>
                           in Some (Inr (cmd, e, eflag + 1)))
         else if c = CHR ''i'' then Some (Inr (cmd, add_option ENVOP_INH e, eflag))
         else if c = CHR ''o'' then map_option (\<lambda>cmd. Inr (cmd, e, eflag)) (set_out_file optarg cmd)
         else Some (Inr s))"

definition parse_stat :: "string list \<Rightarrow> smon_cmd \<Rightarrow> (i32 + smon_cmd \<times> string list) option" where
  "parse_stat args cmd =
     (let e = zero_envir;
          e = add_option ENVOP_STAT (add_option ENVOP_EXE e);
          e = e\<lparr>batch_size := 1, sample_time := DEFAULT_SAMPLE_TIME\<rparr>
      in do {
        cmd \<leftarrow> set_out_file DEFAULT_OFILE cmd;
        let cmd = cmd\<lparr>c_mmap_pages := 8\<rparr>;
        let (opts, prog) = getopt_all ''c:e:io:'' args;
        r \<leftarrow> run_opts stat_opt opts (cmd, e, 0);
        case r of
          Inl err \<Rightarrow> Some (Inl err)
        | Inr (cmd, e, eflag) \<Rightarrow>
            if prog = [] then Some (Inl 1)
            else let cmd = set_argindex args prog cmd
                 in if eflag = 0 then Some (Inl 1)
                    else Some (Inr (cmd\<lparr>c_ptr := PtrEnvir e\<rparr>, prog))
      })"

definition roof_opt :: "char \<times> string \<Rightarrow> smon_cmd \<times> smon_envir \<Rightarrow> (i32 + smon_cmd \<times> smon_envir) option" where
  "roof_opt x s =
     (let (c, optarg) = x; (cmd, e) = s
      in if c = CHR ''b'' then Some (Inr (cmd, opt_burst optarg e))
         else if c = CHR ''c'' then Some (Inr (cmd\<lparr>c_cpumask := ucast (strtoul optarg)\<rparr>, e))
         else if c = CHR ''f'' then Some (Inr (cmd, add_option ENVOP_FORK e))
         else if c = CHR ''i'' then Some (Inr (cmd, add_option ENVOP_INH e))
         else if c = CHR ''m'' then Some (Inr (cmd, add_option ENVOP_CPU e))
         else if c = CHR ''o'' then map_option (\<lambda>cmd. Inr (cmd, e)) (set_out_file optarg cmd)
         else if c = CHR ''p'' then Some (Inr (opt_pages optarg cmd, e))
         else if c = CHR ''r'' then Some (Inr (cmd, add_option ENVOP_RAP e))
         else if c = CHR ''s'' then Some (Inr (cmd, add_option ENVOP_SCHED e))
         else if c = CHR ''t''
         then (let tmp = ucast (strtoul optarg)
               in if tmp \<le> 0 then Some (Inr (cmd\<lparr>c_count_mode := 1\<rparr>, e))
                  else Some (Inr (cmd, e\<lparr>sample_time := tmp\<rparr>)))
         else Some (Inr s))"

definition parse_roof :: "string list \<Rightarrow> smon_cmd \<Rightarrow> (i32 + smon_cmd \<times> string list) option" where
  "parse_roof args cmd =
     (let e = zero_envir;
          e = add_option ENVOP_EXE e;
          e = e\<lparr>batch_size := DEFAULT_BURST, sample_time := DEFAULT_SAMPLE_TIME\<rparr>;
          ids = [0, 1, - 1] @ drop 3 (esids e);
          e = e\<lparr>n_esids := 2, esids := ids\<rparr>
      in do {
        cmd \<leftarrow> set_out_file DEFAULT_OFILE cmd;
        let cmd = cmd\<lparr>c_mmap_pages := DEFAULT_MMAP_PAGES, c_count_mode := 0\<rparr>;
        let (opts, prog) = getopt_all ''b:c:fimo:p:rst:'' args;
        r \<leftarrow> run_opts roof_opt opts (cmd, e);
        case r of
          Inl err \<Rightarrow> Some (Inl err)
        | Inr (cmd, e) \<Rightarrow>
            if prog = [] then Some (Inl 1)
            else Some (Inr ((set_argindex args prog cmd)\<lparr>c_ptr := PtrEnvir e\<rparr>, prog))
      })"

section \<open>The whole command line\<close>

text \<open>\<open>argv\<close> starts with the name of the program.\<close>

definition smon_parse_input :: "string list \<Rightarrow> smon_cmd \<Rightarrow> (i32 + smon_cmd \<times> string list) option" where
  "smon_parse_input argv cmd =
     (if length argv < 2 then Some (Inl 1)
      else let name = argv ! 1; args = drop 2 argv
           in if name = ''event''
              then map_option (map_sum id (\<lambda>cmd. (cmd, []))) (parse_event (tl argv) (cmd\<lparr>c_type := CMD_EVENT\<rparr>))
              else if name = ''evset''
              then map_option (map_sum id (\<lambda>cmd. (cmd, []))) (parse_evset (tl argv) (cmd\<lparr>c_type := CMD_EVSET\<rparr>))
              else if name = ''profile'' then parse_profile args (cmd\<lparr>c_type := CMD_PROFILE\<rparr>)
              else if name = ''stat'' then parse_stat args (cmd\<lparr>c_type := CMD_STAT\<rparr>)
              else if name = ''roof'' then parse_roof args (cmd\<lparr>c_type := CMD_ROOF\<rparr>)
              else Some (Inl 1))"

end
