(* ===== verification/Tool_Driver.thy ===== *)
theory Tool_Driver
  imports Driver_Safe Cmd
begin

text \<open>
  \<^verbatim>\<open>tool/src/driver.c\<close>: the calls of the tool on the device file, each composed with the
  driver's own \<open>smon_ioctl\<close>. The descriptor that \<^verbatim>\<open>open\<close> returns is an argument; what is
  printed is kept as text.
\<close>

record tool =
  tl_dev :: i32
  tl_pd :: "addr option"
  tl_k :: kstate
  tl_out :: "string list"

definition put_out :: "string \<Rightarrow> tool \<Rightarrow> tool" where
  "put_out s u = u\<lparr>tl_out := tl_out u @ [s]\<rparr>"

section \<open>The system calls\<close>

text \<open>The C library turns a negative result into \<open>-1\<close> and \<^verbatim>\<open>errno\<close>.\<close>

definition user_ioctl :: "kernel_answers \<Rightarrow> u32 \<Rightarrow> ioctl_arg \<Rightarrow> tool \<Rightarrow> (int \<times> ioctl_arg \<times> tool) option" where
  "user_ioctl ka cmd arg u = do {
     (r, arg, k) \<leftarrow> smon_ioctl ka (tl_pd u) cmd arg (tl_k u);
     Some (if r < 0 then - 1 else r, arg, u\<lparr>tl_k := k\<rparr>)
   }"

section \<open>Loading\<close>

definition smon_load_driver :: "i32 \<Rightarrow> tool \<Rightarrow> int \<times> tool" where
  "smon_load_driver fd u =
     (if fd = - 1 then (- 1, u\<lparr>tl_dev := 0\<rparr>) else (0, u\<lparr>tl_dev := fd, tl_pd := None\<rparr>))"

definition smon_unload_driver :: "tool \<Rightarrow> int \<times> tool" where
  "smon_unload_driver u = (if tl_dev u \<noteq> 0 then (0, u\<lparr>tl_dev := 0\<rparr>) else (0, u))"

definition smon_get_dev_fd :: "tool \<Rightarrow> i32" where "smon_get_dev_fd u = tl_dev u"

section \<open>Events and event-sets\<close>

definition user_set_event :: "kernel_answers \<Rightarrow> smon_event \<Rightarrow> tool \<Rightarrow> (int \<times> tool) option" where
  "user_set_event ka event u =
     (if tl_dev u = 0 then Some (- 1, u)
      else do {
        (ret, _, u) \<leftarrow> user_ioctl ka SMON_IOCSEVT (ArgStruct \<lparr>ioc_ptr = IocEvent (Some event), ioc_word = 0\<rparr>) u;
        Some (ret, u)
      })"

definition local_print_event :: "smon_event \<Rightarrow> nat \<Rightarrow> string" where
  "local_print_event event i =
     ''    ['' @ show_nat i @ '']  '' @ ev_tag event @ '' :  '' @ [char_of (9 :: nat), char_of (9 :: nat)] @ ''evsel=0x'' @
     fmt_hex 2 (ucast (perfevtsel event AND 0x000000ff) :: u32) @ '',umask=0x'' @
     fmt_hex 2 (ucast (drop_bit 8 (perfevtsel event AND 0x0000ff00)) :: u32) @ '',mode='' @
     fmt_signed (ucast (drop_bit 16 (perfevtsel event AND 0x000f0000)) :: u32) @ '' -> perfevtsel=0x'' @
     fmt_hex 8 (ucast (perfevtsel event) :: u32) @ [char_of (10 :: nat)]"

text \<open>
  The loop asks for one id after another until the driver refuses. \<open>None\<close> is a fault or a loop
  that does not end.
\<close>

partial_function (option) list_events_loop :: "kernel_answers \<Rightarrow> smon_ioctl_arg \<Rightarrow> nat \<Rightarrow> tool \<Rightarrow> (nat \<times> tool) option" where
  "list_events_loop ka ioc i u =
     Option.bind (user_ioctl ka SMON_IOCGEVT (ArgStruct ioc) u) (\<lambda>(ret, arg, u).
     if ret \<noteq> 0 then Some (i, u)
     else Option.bind (arg_struct arg) (\<lambda>ioc.
          Option.bind (ioc_event (ioc_ptr ioc)) (\<lambda>p.
          Option.bind p (\<lambda>event.
            list_events_loop ka (ioc\<lparr>ioc_word := of_nat (Suc i)\<rparr>) (Suc i) (put_out (local_print_event event i) u)))))"

definition smon_list_events :: "kernel_answers \<Rightarrow> tool \<Rightarrow> (int \<times> tool) option" where
  "smon_list_events ka u =
     (if tl_dev u = 0 then Some (- 1, u)
      else do {
        (i, u) \<leftarrow> list_events_loop ka \<lparr>ioc_ptr = IocEvent (Some zero_event), ioc_word = 0\<rparr> 0 u;
        Some (int i, u)
      })"

text \<open>The ids that are not negative are checked one by one.\<close>

fun check_events_from :: "kernel_answers \<Rightarrow> i32 list \<Rightarrow> tool \<Rightarrow> (int \<times> tool) option" where
  "check_events_from ka [] u = Some (0, u)"
| "check_events_from ka (evt # evts) u =
     (if 0 \<le> sint evt
      then do {
        (ret, _, u) \<leftarrow> user_ioctl ka SMON_IOCCEVT (ArgWord (ucast evt)) u;
        if ret \<noteq> 0 then Some (- SMENOEVT, u) else check_events_from ka evts u
      }
      else check_events_from ka evts u)"

definition smon_check_events :: "kernel_answers \<Rightarrow> smon_evset \<Rightarrow> tool \<Rightarrow> (int \<times> tool) option" where
  "smon_check_events ka evset u = check_events_from ka (take MAX_GP_CTRS (evids evset)) u"

definition user_set_evset :: "kernel_answers \<Rightarrow> smon_evset \<Rightarrow> tool \<Rightarrow> (int \<times> tool) option" where
  "user_set_evset ka evset u =
     (if tl_dev u = 0 then Some (- 1, u)
      else do {
        (ret, _, u) \<leftarrow> user_ioctl ka SMON_IOCSEVS (ArgStruct \<lparr>ioc_ptr = IocEvset (Some evset), ioc_word = 0\<rparr>) u;
        Some (ret, u)
      })"

fun show_evids :: "i32 list \<Rightarrow> string" where
  "show_evids [] = [char_of (10 :: nat)]"
| "show_evids [e] = fmt_signed e @ [char_of (10 :: nat)]"
| "show_evids (e # es) = fmt_signed e @ '','' @ show_evids es"

definition local_print_evset :: "smon_evset \<Rightarrow> nat \<Rightarrow> string" where
  "local_print_evset evset i =
     ''    ['' @ show_nat i @ '']  '' @ es_tag evset @ '' :  '' @ [char_of (9 :: nat), char_of (9 :: nat)] @ ''fixed=0x'' @
     fmt_hex 3 (ucast (fixed_ctrl evset AND 0x0fff) :: u32) @ '', events='' @
     show_evids (take MAX_GP_CTRS (evids evset))"

partial_function (option) list_evsets_loop :: "kernel_answers \<Rightarrow> smon_ioctl_arg \<Rightarrow> nat \<Rightarrow> tool \<Rightarrow> (nat \<times> tool) option" where
  "list_evsets_loop ka ioc i u =
     Option.bind (user_ioctl ka SMON_IOCGEVS (ArgStruct ioc) u) (\<lambda>(ret, arg, u).
     if ret \<noteq> 0 then Some (i, u)
     else Option.bind (arg_struct arg) (\<lambda>ioc.
          Option.bind (ioc_evset (ioc_ptr ioc)) (\<lambda>p.
          Option.bind p (\<lambda>evset.
            list_evsets_loop ka (ioc\<lparr>ioc_word := of_nat (Suc i)\<rparr>) (Suc i) (put_out (local_print_evset evset i) u)))))"

definition smon_list_evsets :: "kernel_answers \<Rightarrow> tool \<Rightarrow> (int \<times> tool) option" where
  "smon_list_evsets ka u =
     (if tl_dev u = 0 then Some (- 1, u)
      else do {
        (i, u) \<leftarrow> list_evsets_loop ka \<lparr>ioc_ptr = IocEvset (Some zero_evset), ioc_word = 0\<rparr> 0 u;
        Some (int i, u)
      })"

text \<open>The counter is compared with \<^verbatim>\<open>n_esids\<close>; reading behind the array is a fault.\<close>

fun check_evsets_from :: "kernel_answers \<Rightarrow> smon_envir \<Rightarrow> nat \<Rightarrow> nat \<Rightarrow> tool \<Rightarrow> (int \<times> tool) option" where
  "check_evsets_from ka e i 0 u = Some (0, u)"
| "check_evsets_from ka e i (Suc n) u = do {
     esid \<leftarrow> (if i < length (esids e) then Some (esids e ! i) else None);
     (ret, _, u) \<leftarrow> user_ioctl ka SMON_IOCCEVS (ArgWord (scast esid)) u;
     if ret \<noteq> 0 then Some (- SMENOEVS, u) else check_evsets_from ka e (Suc i) n u
   }"

definition smon_check_evsets :: "kernel_answers \<Rightarrow> smon_envir \<Rightarrow> tool \<Rightarrow> (int \<times> tool) option" where
  "smon_check_evsets ka envir u =
     (if tl_dev u = 0 then Some (- 1, u) else check_evsets_from ka envir 0 (unat (n_esids envir)) u)"

section \<open>Tasks, samples and the mapping\<close>

definition smon_set_task :: "kernel_answers \<Rightarrow> i32 \<Rightarrow> smon_envir \<Rightarrow> tool \<Rightarrow> (int \<times> tool) option" where
  "smon_set_task ka pid envir u =
     (if tl_dev u = 0 then Some (- 1, u)
      else do {
        (ret, _, u) \<leftarrow> user_ioctl ka SMON_IOCSTSK (ArgStruct \<lparr>ioc_ptr = IocEnvir (Some envir), ioc_word = pid\<rparr>) u;
        Some (ret, u)
      })"

text \<open>The pointer of the argument is not initialised here and not read by the driver.\<close>

definition smon_unset_task :: "kernel_answers \<Rightarrow> ioc_ptr \<Rightarrow> i32 \<Rightarrow> tool \<Rightarrow> (int \<times> tool) option" where
  "smon_unset_task ka junk pid u =
     (if tl_dev u = 0 then Some (- 1, u)
      else do {
        (ret, _, u) \<leftarrow> user_ioctl ka SMON_IOCUTSK (ArgStruct \<lparr>ioc_ptr = junk, ioc_word = pid\<rparr>) u;
        Some (ret, u)
      })"

definition smon_read_samples :: "kernel_answers \<Rightarrow> u32 \<Rightarrow> u32 \<Rightarrow> tool \<Rightarrow> (int \<times> tool) option" where
  "smon_read_samples ka items sz u =
     (if tl_dev u = 0 then Some (- 1, u)
      else do {
        (ret, _, u) \<leftarrow> user_ioctl ka SMON_IOCREAD (ArgStruct \<lparr>ioc_ptr = IocItems items, ioc_word = sz\<rparr>) u;
        Some (ret, u)
      })"

end
