(* ===== verification/Cmd_Facts.thy ===== *)
theory Cmd_Facts
  imports Cmd
begin

text \<open>
  What a command line that is accepted asks for: the values the driver receives are of the shape
  its own code relies on.
\<close>

section \<open>Environments\<close>

lemma bind_sumE:
  assumes "(m \<bind> (\<lambda>r. case r of Inl e \<Rightarrow> f e | Inr s \<Rightarrow> g s)) = Some y"
  obtains e where "m = Some (Inl e)" "f e = Some y" | s where "m = Some (Inr s)" "g s = Some y"
proof -
  from assms obtain r where "m = Some r" "(case r of Inl e \<Rightarrow> f e | Inr s \<Rightarrow> g s) = Some y"
    by (auto simp: bind_eq_Some_conv)
  with that show thesis by (cases r) simp_all
qed

lemma run_opts_inv:
  assumes "run_opts f xs s = Some (Inr s')" and "P s"
    and "\<And>x s s'. P s \<Longrightarrow> f x s = Some (Inr s') \<Longrightarrow> P s'"
  shows "P s'"
  using assms(1,2)
  by (induction xs arbitrary: s) (auto elim!: bind_sumE intro: assms(3))

lemma read_esids_spec:
  assumes "read_esids ts ids = Some ids'" and "length ids \<le> MUX_EVSETS" and "\<forall>i \<in> set ids. 0 \<le> sint i \<and> sint i < 64"
  shows "length ids' \<le> MUX_EVSETS \<and> (\<forall>i \<in> set ids'. 0 \<le> sint i \<and> sint i < 64)"
  using assms
proof (induction ts ids rule: read_esids.induct)
  case (2 token tokens ids)
  define e :: i32 where "e = ucast (strtoul token)"
  have r: "length ids \<noteq> MUX_EVSETS" "sint e < 64"
    "read_esids tokens (if sint e \<ge> 0 then ids @ [e] else ids) = Some ids'"
    using "2.prems"(1) by (simp_all add: Let_def MAX_EVSETS_def e_def [symmetric] split: if_split_asm)
  show ?case
    by (rule "2.IH" [OF r(1) e_def]) (use r "2.prems"(2,3) in \<open>simp_all add: MAX_EVSETS_def\<close>)
qed simp

text \<open>
  The environment of a profiling command: room for all ids, ids that a table of 64 event-sets can
  have, and the monitoring starts at the first \<^verbatim>\<open>exec\<close>. The number of ids may be zero.
\<close>

definition cmd_envir_ok :: "smon_envir \<Rightarrow> bool" where
  "cmd_envir_ok e \<longleftrightarrow> length (esids e) = MUX_EVSETS \<and> unat (n_esids e) \<le> MUX_EVSETS \<and>
     (\<forall>i < unat (n_esids e). 0 \<le> sint (esids e ! i) \<and> sint (esids e ! i) < 64) \<and> envir_option_exec e"

lemma set_esids_ok:
  assumes "read_esids ts [] = Some ids" and "envir_option_exec e"
  shows "cmd_envir_ok (set_esids ids e)"
proof -
  have l: "length ids \<le> 32" and i: "\<forall>i \<in> set ids. 0 \<le> sint i \<and> sint i < 64"
    using read_esids_spec [OF assms(1)] by (simp_all add: MUX_EVSETS_def)
  have "unat (of_nat (length ids) :: u32) = length ids" using l by (simp add: unat_of_nat)
  then show ?thesis
    using l i assms(2) by (auto simp: cmd_envir_ok_def set_esids_def MUX_EVSETS_def envir_option_exec_def nth_append)
qed

lemma option_word_or: "x AND m \<noteq> 0 \<Longrightarrow> (x OR y) AND m \<noteq> (0 :: u32)"
  by (metis bit.conj_disj_distrib2 or_eq_0_iff)

lemma add_option_ok: "cmd_envir_ok e \<Longrightarrow> cmd_envir_ok (add_option op e)"
  using option_word_or by (simp add: cmd_envir_ok_def add_option_def envir_option_exec_def)

lemma envir_other_ok [simp]:
  "cmd_envir_ok (e\<lparr>batch_size := b\<rparr>) = cmd_envir_ok e" "cmd_envir_ok (e\<lparr>sample_time := t\<rparr>) = cmd_envir_ok e"
  by (simp_all add: cmd_envir_ok_def envir_option_exec_def)

lemma opt_burst_ok [simp]: "cmd_envir_ok (opt_burst s e) = cmd_envir_ok e"
  by (simp add: opt_burst_def Let_def)

lemma cmd_envir_exec: "cmd_envir_ok e \<Longrightarrow> envir_option_exec e"
  by (simp add: cmd_envir_ok_def)

text \<open>A profiling command never asks for the totals of a whole run, which would set the number of ids to one.\<close>

lemma no_stat [simp]:
  "envir_option_stat (e\<lparr>batch_size := b\<rparr>) = envir_option_stat e" "envir_option_stat (e\<lparr>sample_time := t\<rparr>) = envir_option_stat e"
  "envir_option_stat (set_esids ids e) = envir_option_stat e" "envir_option_stat (opt_burst s e) = envir_option_stat e"
  by (simp_all add: envir_option_stat_def set_esids_def opt_burst_def Let_def)

lemma add_option_no_stat:
  assumes "op AND ENVOP_STAT = 0"
  shows "envir_option_stat (add_option op e) = envir_option_stat e"
proof -
  have "(options e OR op) AND ENVOP_STAT = options e AND ENVOP_STAT OR op AND ENVOP_STAT" by (rule bit.conj_disj_distrib2)
  then show ?thesis using assms by (simp add: envir_option_stat_def add_option_def)
qed

lemma profile_opt_no_stat:
  assumes "profile_opt x (cmd, e, n) = Some (Inr (cmd', e', n'))"
  shows "envir_option_stat e' = envir_option_stat e"
proof -
  obtain c arg where x: "x = (c, arg)" by (cases x)
  show ?thesis
    using assms unfolding x profile_opt_def
    by (auto simp: Let_def add_option_no_stat envop_defs split: if_splits option.splits)
qed

definition pages_ok :: "smon_cmd \<Rightarrow> bool" where
  "pages_ok cmd \<longleftrightarrow> c_mmap_pages cmd \<in> set mmap_choices"

lemma opt_pages_ok: "pages_ok (opt_pages s cmd)"
  by (simp add: pages_ok_def opt_pages_def Let_def DEFAULT_MMAP_PAGES_def mmap_choices_def)

lemma set_out_file_keeps:
  assumes "set_out_file s cmd = Some cmd'"
  shows "pages_ok cmd' = pages_ok cmd" "c_type cmd' = c_type cmd" "c_cpumask cmd' = c_cpumask cmd"
    "length (c_out_file cmd') < 512"
  using assms by (auto simp: set_out_file_def pages_ok_def split: if_splits)

lemma profile_opt_keeps:
  assumes "profile_opt x (cmd, e, n) = Some (Inr (cmd', e', n'))" and "cmd_envir_ok e" and "pages_ok cmd"
  shows "cmd_envir_ok e'" "pages_ok cmd'"
proof -
  obtain c arg where x: "x = (c, arg)" by (cases x)
  have p: "pages_ok (cmd\<lparr>c_cpumask := m\<rparr>)" for m using assms(3) by (simp add: pages_ok_def)
  have "cmd_envir_ok e' \<and> pages_ok cmd'"
    using assms p set_out_file_keeps(1) [of arg cmd] unfolding x profile_opt_def
    by (auto simp: opt_pages_ok Let_def split: if_splits option.splits
        intro: add_option_ok set_esids_ok cmd_envir_exec)
  then show "cmd_envir_ok e'" "pages_ok cmd'" by simp_all
qed

lemma start_envir_ok: "cmd_envir_ok (add_option ENVOP_EXE zero_envir)"
  by (simp add: cmd_envir_ok_def add_option_def zero_envir_def envir_option_exec_def MUX_EVSETS_def ENVOP_EXE_def)

lemma parse_profile_ok:
  assumes "parse_profile args cmd = Some (Inr (cmd', prog))"
  obtains e where "c_ptr cmd' = PtrEnvir e" "cmd_envir_ok e" "pages_ok cmd'" "prog \<noteq> []" "\<not> envir_option_stat e"
proof -
  obtain opts prog' where o: "getopt_all ''b:c:e:fimo:p:rst:'' args = (opts, prog')" by fastforce
  define e0 where "e0 = (add_option ENVOP_EXE zero_envir)\<lparr>batch_size := DEFAULT_BURST, sample_time := DEFAULT_SAMPLE_TIME\<rparr>"
  from assms o obtain cmd1 cmd2 e n where
    r: "run_opts profile_opt opts (cmd1\<lparr>c_mmap_pages := DEFAULT_MMAP_PAGES, c_cpumask := 0\<rparr>, e0, 0) =
        Some (Inr (cmd2, e, n))"
    and p: "prog \<noteq> []" "cmd' = (set_argindex args prog cmd2)\<lparr>c_ptr := PtrEnvir e\<rparr>"
    by (auto simp: parse_profile_def Let_def e0_def bind_eq_Some_conv [of "set_out_file _ _"]
        elim!: bind_sumE split: if_split_asm)
  have "(\<lambda>(cmd, e, n). cmd_envir_ok e \<and> pages_ok cmd) (cmd2, e, n)"
    by (rule run_opts_inv [OF r])
      (auto simp: e0_def start_envir_ok pages_ok_def [of "_\<lparr>c_cpumask := _\<rparr>"] DEFAULT_MMAP_PAGES_def mmap_choices_def
        dest: profile_opt_keeps)
  then have "cmd_envir_ok e" "pages_ok cmd2" by simp_all
  moreover have "(\<lambda>(cmd, e, n). \<not> envir_option_stat e) (cmd2, e, n)"
  proof (rule run_opts_inv [OF r])
    show "(\<lambda>(cmd, e, n). \<not> envir_option_stat e) (cmd1\<lparr>c_mmap_pages := DEFAULT_MMAP_PAGES, c_cpumask := 0\<rparr>, e0, 0)"
      by (simp add: e0_def add_option_def zero_envir_def envir_option_stat_def envop_defs)
  qed (auto dest: profile_opt_no_stat)
  ultimately show thesis using p by (intro that [of e]) (simp_all add: pages_ok_def set_argindex_def)
qed

section \<open>Events\<close>

text \<open>
  The parameters of an option: the text between the commas, each split at its first equals sign.
\<close>

function split_opts :: "string \<Rightarrow> (string \<times> string option) list" where
  "split_opts s =
     (if s = [] then []
      else let piece = takeWhile (\<lambda>c. c \<noteq> CHR '','') s;
               name = takeWhile (\<lambda>c. c \<noteq> CHR ''='') piece
           in (name, if name = piece then None else Some (drop (Suc (length name)) piece)) #
              split_opts (drop (Suc (length piece)) s))"
  by pat_completeness auto
termination
  by (relation "measure length") (auto simp: neq_Nil_conv)

declare split_opts.simps [simp del]

lemma split_opts_Nil [simp]: "split_opts [] = []"
  by (simp add: split_opts.simps)

definition piece_rest :: "string \<Rightarrow> string" where
  "piece_rest s = drop (Suc (length (takeWhile (\<lambda>c. c \<noteq> CHR '','') s))) s"

lemma piece_rest_less: "s \<noteq> [] \<Longrightarrow> length (piece_rest s) < length s"
  by (cases s) (auto simp: piece_rest_def)

text \<open>The first parameter is what \<^verbatim>\<open>getsubopt\<close> finds.\<close>

lemma getsubopt_split:
  assumes "s \<noteq> []"
  obtains n v piece where "split_opts s = (n, v) # split_opts (piece_rest s)"
    "getsubopt tokens s = (case find_index_of 0 n tokens of None \<Rightarrow> (None, Some piece, piece_rest s)
       | Some i \<Rightarrow> (Some i, v, piece_rest s))"
proof -
  define piece where "piece = takeWhile (\<lambda>c. c \<noteq> CHR '','') s"
  define n where "n = takeWhile (\<lambda>c. c \<noteq> CHR ''='') piece"
  define v where "v = (if n = piece then None else Some (drop (Suc (length n)) piece))"
  have "split_opts s = (n, v) # split_opts (piece_rest s)"
    using assms unfolding split_opts.simps [of s] piece_rest_def v_def n_def piece_def Let_def by simp
  moreover have "getsubopt tokens s = (case find_index_of 0 n tokens of None \<Rightarrow> (None, Some piece, piece_rest s)
      | Some i \<Rightarrow> (Some i, v, piece_rest s))"
    unfolding getsubopt_def Let_def v_def n_def piece_def piece_rest_def by (simp split: option.split)
  ultimately show thesis by (rule that)
qed

text \<open>
  What the parameters amount to: how often a name is given, the text of the last tag, and the bits that the
  others set.
\<close>

type_synonym subopts = "(string \<times> string option) list"

definition opt_valid :: "string \<times> string option \<Rightarrow> bool" where
  "opt_valid p \<longleftrightarrow> fst p \<in> set event_add_opts \<and> snd p \<noteq> None"

definition given :: "string \<Rightarrow> subopts \<Rightarrow> nat" where "given n ps = length (filter (\<lambda>p. fst p = n) ps)"

fun given_tag :: "subopts \<Rightarrow> string \<Rightarrow> string" where
  "given_tag [] t = t"
| "given_tag (p # ps) t = given_tag ps (if fst p = ''tag'' then take 63 (the (snd p)) else t)"

fun given_bits :: "string \<Rightarrow> subopts \<Rightarrow> u64" where
  "given_bits n [] = 0"
| "given_bits n (p # ps) = (if fst p = n then strtoul (the (snd p)) OR given_bits n ps else given_bits n ps)"

definition opt_word :: "string \<times> string option \<Rightarrow> i64" where
  "opt_word p = (let w = strtoul (the (snd p))
     in if fst p = ''mode'' then ucast (ucast (push_bit 16 (w AND 0x03)) :: u32) OR push_bit 22 1
        else if fst p = ''evsel'' then ucast (ucast (w AND 0xff) :: u32)
        else if fst p = ''umask'' then ucast (ucast (push_bit 8 (w AND 0xff)) :: u32) else 0)"

fun given_word :: "subopts \<Rightarrow> i64" where
  "given_word [] = 0"
| "given_word (p # ps) = opt_word p OR given_word ps"

lemma given_simps [simp]:
  "given n [] = 0" "given n (p # ps) = (if fst p = n then Suc (given n ps) else given n ps)"
  by (simp_all add: given_def)

lemma given_tag_none: "filter (\<lambda>p. fst p = ''tag'') ps = [] \<Longrightarrow> given_tag ps t = t"
  by (induction ps) (auto split: if_splits)

lemma given_tag_last: "0 < given ''tag'' ps \<Longrightarrow> given_tag ps t = take 63 (the (snd (last (filter (\<lambda>p. fst p = ''tag'') ps))))"
proof (induction ps arbitrary: t)
  case (Cons p ps)
  then show ?case by (cases "0 < given ''tag'' ps") (auto simp: given_def given_tag_none)
qed simp

definition opt_event :: "string \<times> string option \<Rightarrow> smon_event \<Rightarrow> smon_event" where
  "opt_event p e = e\<lparr>ev_tag := (if fst p = ''tag'' then take 63 (the (snd p)) else ev_tag e),
     perfevtsel := perfevtsel e OR opt_word p\<rparr>"

definition opt_flags :: "string \<times> string option \<Rightarrow> event_flags \<Rightarrow> event_flags" where
  "opt_flags p f = f\<lparr>ftag := ftag f + given ''tag'' [p], fevsel := fevsel f + given ''evsel'' [p],
     fumask := fumask f + given ''umask'' [p]\<rparr>"

lemma event_subopts_valid:
  assumes "s \<noteq> []" and "split_opts s = p # ps" and "opt_valid p"
  shows "event_subopts s e f = event_subopts (piece_rest s) (opt_event p e) (opt_flags p f)"
proof -
  obtain n v piece where g: "split_opts s = (n, v) # split_opts (piece_rest s)"
    "getsubopt event_add_opts s = (case find_index_of 0 n event_add_opts of None \<Rightarrow> (None, Some piece, piece_rest s)
       | Some i \<Rightarrow> (Some i, v, piece_rest s))"
    by (rule getsubopt_split [OF assms(1)])
  then have p: "p = (n, v)" using assms(2) by simp
  with assms(3) obtain w where v: "v = Some w" and n: "n = ''tag'' \<or> n = ''mode'' \<or> n = ''evsel'' \<or> n = ''umask''"
    by (auto simp: opt_valid_def event_add_opts_def)
  show ?thesis
    using assms(1) g(2) n unfolding p v
    by (subst event_subopts.simps)
      (auto simp: event_add_opts_def event_subopt_def opt_event_def opt_flags_def opt_word_def Let_def or.assoc)
qed

lemma event_subopts_invalid:
  assumes "s \<noteq> []" and "split_opts s = p # ps" and "\<not> opt_valid p"
  shows "event_subopts s e f = (if fst p \<in> set event_add_opts then None else Some None)"
proof -
  obtain n v piece where g: "split_opts s = (n, v) # split_opts (piece_rest s)"
    "getsubopt event_add_opts s = (case find_index_of 0 n event_add_opts of None \<Rightarrow> (None, Some piece, piece_rest s)
       | Some i \<Rightarrow> (Some i, v, piece_rest s))"
    by (rule getsubopt_split [OF assms(1)])
  then have p: "p = (n, v)" using assms(2) by simp
  show ?thesis
    using assms(1,3) g(2) unfolding p opt_valid_def
    by (subst event_subopts.simps) (auto simp: event_add_opts_def event_subopt_def)
qed

lemma event_subopts_all:
  "event_subopts s e f = (case dropWhile opt_valid (split_opts s) of
     [] \<Rightarrow> Some (Some (e\<lparr>ev_tag := given_tag (split_opts s) (ev_tag e), perfevtsel := perfevtsel e OR given_word (split_opts s)\<rparr>,
       f\<lparr>ftag := ftag f + given ''tag'' (split_opts s), fevsel := fevsel f + given ''evsel'' (split_opts s),
         fumask := fumask f + given ''umask'' (split_opts s)\<rparr>))
   | p # _ \<Rightarrow> if fst p \<in> set event_add_opts then None else Some None)"
proof (induction "length s" arbitrary: s e f rule: less_induct)
  case less
  show ?case
  proof (cases "s = []")
    case True
    then show ?thesis by (subst event_subopts.simps) simp
  next
    case False
    obtain n v piece where g: "split_opts s = (n, v) # split_opts (piece_rest s)"
      by (rule getsubopt_split [OF False, of "[]"])
    define p where "p = (n, v)"
    have g': "split_opts s = p # split_opts (piece_rest s)" using g by (simp add: p_def)
    show ?thesis
    proof (cases "opt_valid p")
      case True
      show ?thesis
        unfolding event_subopts_valid [OF False g' True] less.hyps [OF piece_rest_less [OF False]]
        using True by (cases "dropWhile opt_valid (split_opts (piece_rest s))")
          (simp_all add: g' opt_event_def opt_flags_def or.assoc del: dropWhile_eq_Nil_conv)
    qed (simp add: event_subopts_invalid [OF False g'] g')
  qed
qed

lemma parse_event_add_all:
  "parse_event_add s = (let ps = split_opts s in case dropWhile opt_valid ps of
     [] \<Rightarrow> if given ''tag'' ps AND given ''evsel'' ps AND given ''umask'' ps = 0 then Some (Inl 1)
       else let e = \<lparr>ev_tag = given_tag ps [], perfevtsel = given_word ps\<rparr>
         in Some (Inr (if ev_usr e = 0 \<and> ev_os e = 0 then e\<lparr>perfevtsel := given_word ps OR push_bit 16 3\<rparr> else e))
   | p # _ \<Rightarrow> if fst p \<in> set event_add_opts then None else Some (Inl 1))"
  by (cases "dropWhile opt_valid (split_opts s)")
    (simp_all add: parse_event_add_def event_subopts_all zero_event_def Let_def del: dropWhile_eq_Nil_conv)

text \<open>The bits of the word.\<close>

lemma bit_opt_word:
  "bit (opt_word p) i \<longleftrightarrow>
     fst p = ''evsel'' \<and> i < 8 \<and> bit (strtoul (the (snd p))) i \<or>
     fst p = ''umask'' \<and> 8 \<le> i \<and> i < 16 \<and> bit (strtoul (the (snd p))) (i - 8) \<or>
     fst p = ''mode'' \<and> (16 \<le> i \<and> i < 18 \<and> bit (strtoul (the (snd p))) (i - 16) \<or> i = 22)"
proof -
  define w where "w = strtoul (the (snd p))"
  have k: "(0xff :: u64) = mask 8" "(0x03 :: u64) = mask 2" by (simp_all add: mask_eq_exp_minus_1)
  have m: "bit (ucast (ucast (push_bit 16 (w AND 0x03)) :: u32) :: i64) i \<longleftrightarrow> 16 \<le> i \<and> i < 18 \<and> bit w (i - 16)"
    "bit (ucast (ucast (w AND 0xff) :: u32) :: i64) i \<longleftrightarrow> i < 8 \<and> bit w i"
    "bit (ucast (ucast (push_bit 8 (w AND 0xff)) :: u32) :: i64) i \<longleftrightarrow> 8 \<le> i \<and> i < 16 \<and> bit w (i - 8)"
    unfolding k by (auto simp: bit_simps)
  have "bit (push_bit 22 (1 :: i64)) i \<longleftrightarrow> i = 22" by (simp only: bit_push_bit_iff bit_1_iff) auto
  then show ?thesis using m by (auto simp: opt_word_def Let_def bit_or_iff simp flip: w_def)
qed

lemma bit_given_word:
  "bit (given_word ps) i \<longleftrightarrow>
     i < 8 \<and> bit (given_bits ''evsel'' ps) i \<or> 8 \<le> i \<and> i < 16 \<and> bit (given_bits ''umask'' ps) (i - 8) \<or>
     16 \<le> i \<and> i < 18 \<and> bit (given_bits ''mode'' ps) (i - 16) \<or> i = 22 \<and> 0 < given ''mode'' ps"
  by (induction ps) (auto simp: bit_or_iff bit_opt_word)

lemma bit_bit_field: "bit (bit_field off n w) i \<longleftrightarrow> i < n \<and> i < 64 \<and> bit w (off + i)"
  by (auto simp: bit_field_def bit_simps)

lemma bit_of_bool_word: "bit (of_bool b :: i64) i \<longleftrightarrow> b \<and> i = 0"
  by (auto simp: bit_simps)

text \<open>The event that an accepted argument gives; without a mode, or with mode 0, both modes are counted.\<close>

definition given_event :: "subopts \<Rightarrow> smon_event" where
  "given_event ps = (let m = given_bits ''mode'' ps
     in \<lparr>ev_tag = given_tag ps [], perfevtsel = given_word ps OR (if bit m 0 \<or> bit m 1 then 0 else push_bit 16 3)\<rparr>)"

lemma event_word_fields:
  assumes "\<And>i. bit w i \<longleftrightarrow> bit (given_word ps) i \<or> both \<and> (i = 16 \<or> i = 17)"
  shows "ev_evsel \<lparr>ev_tag = t, perfevtsel = w\<rparr> = given_bits ''evsel'' ps AND 0xff"
    "ev_umask \<lparr>ev_tag = t, perfevtsel = w\<rparr> = given_bits ''umask'' ps AND 0xff"
    "ev_usr \<lparr>ev_tag = t, perfevtsel = w\<rparr> = of_bool (bit (given_bits ''mode'' ps) 0 \<or> both)"
    "ev_os \<lparr>ev_tag = t, perfevtsel = w\<rparr> = of_bool (bit (given_bits ''mode'' ps) 1 \<or> both)"
    "ev_en \<lparr>ev_tag = t, perfevtsel = w\<rparr> = of_bool (0 < given ''mode'' ps)"
proof -
  have k: "(0xff :: i64) = mask 8" by (simp add: mask_eq_exp_minus_1)
  show "ev_evsel \<lparr>ev_tag = t, perfevtsel = w\<rparr> = given_bits ''evsel'' ps AND 0xff"
    "ev_umask \<lparr>ev_tag = t, perfevtsel = w\<rparr> = given_bits ''umask'' ps AND 0xff"
    "ev_usr \<lparr>ev_tag = t, perfevtsel = w\<rparr> = of_bool (bit (given_bits ''mode'' ps) 0 \<or> both)"
    "ev_os \<lparr>ev_tag = t, perfevtsel = w\<rparr> = of_bool (bit (given_bits ''mode'' ps) 1 \<or> both)"
    "ev_en \<lparr>ev_tag = t, perfevtsel = w\<rparr> = of_bool (0 < given ''mode'' ps)"
    unfolding k ev_evsel_def ev_umask_def ev_usr_def ev_os_def ev_en_def smon_event.simps
    by (rule bit_word_eqI, (auto simp: bit_bit_field assms bit_given_word bit_of_bool_word bit_and_iff bit_mask_iff) [1])+
qed

lemma bit_both: "bit (push_bit 16 (3 :: i64)) i \<longleftrightarrow> i = 16 \<or> i = 17"
proof -
  have "(3 :: i64) = mask 2" by (simp add: mask_eq_exp_minus_1)
  then show ?thesis by (simp only: bit_push_bit_iff bit_mask_iff possible_bit_word) auto
qed

lemma parse_event_add_given:
  "parse_event_add s = (let ps = split_opts s in case dropWhile opt_valid ps of
     [] \<Rightarrow> if given ''tag'' ps AND given ''evsel'' ps AND given ''umask'' ps = 0 then Some (Inl 1)
       else Some (Inr (given_event ps))
   | p # _ \<Rightarrow> if fst p \<in> set event_add_opts then None else Some (Inl 1))"
proof -
  define ps where "ps = split_opts s"
  define e where "e = \<lparr>ev_tag = given_tag ps [], perfevtsel = given_word ps\<rparr>"
  note f = event_word_fields [where both = False and w = "given_word ps" and ps = ps]
  have "ev_usr e = 0 \<and> ev_os e = 0 \<longleftrightarrow> \<not> (bit (given_bits ''mode'' ps) 0 \<or> bit (given_bits ''mode'' ps) 1)"
    unfolding e_def using f by simp
  then have "(if ev_usr e = 0 \<and> ev_os e = 0 then e\<lparr>perfevtsel := given_word ps OR push_bit 16 3\<rparr> else e) = given_event ps"
    by (simp add: given_event_def Let_def e_def)
  then show ?thesis unfolding parse_event_add_all Let_def ps_def e_def by (simp only:)
qed

lemma given_event_fields:
  "ev_tag (given_event ps) = given_tag ps []"
  "ev_evsel (given_event ps) = given_bits ''evsel'' ps AND 0xff" "ev_umask (given_event ps) = given_bits ''umask'' ps AND 0xff"
  "ev_usr (given_event ps) = of_bool (bit (given_bits ''mode'' ps) 0 \<or> \<not> bit (given_bits ''mode'' ps) 1)"
  "ev_os (given_event ps) = of_bool (bit (given_bits ''mode'' ps) 1 \<or> \<not> bit (given_bits ''mode'' ps) 0)"
  "ev_en (given_event ps) = of_bool (0 < given ''mode'' ps)"
proof -
  define both where "both = (\<not> (bit (given_bits ''mode'' ps) 0 \<or> bit (given_bits ''mode'' ps) 1))"
  define w where "w = given_word ps OR (if bit (given_bits ''mode'' ps) 0 \<or> bit (given_bits ''mode'' ps) 1 then 0 else push_bit 16 3)"
  have w: "bit w i \<longleftrightarrow> bit (given_word ps) i \<or> both \<and> (i = 16 \<or> i = 17)" for i
    unfolding w_def both_def bit_or_iff
    by (cases "bit (given_bits ''mode'' ps) 0 \<or> bit (given_bits ''mode'' ps) 1") (simp_all only: if_True if_False bit_both bit_0_eq, simp_all)
  have e: "given_event ps = \<lparr>ev_tag = given_tag ps [], perfevtsel = w\<rparr>" by (simp add: given_event_def Let_def w_def)
  show "ev_tag (given_event ps) = given_tag ps []"
    "ev_evsel (given_event ps) = given_bits ''evsel'' ps AND 0xff" "ev_umask (given_event ps) = given_bits ''umask'' ps AND 0xff"
    "ev_usr (given_event ps) = of_bool (bit (given_bits ''mode'' ps) 0 \<or> \<not> bit (given_bits ''mode'' ps) 1)"
    "ev_os (given_event ps) = of_bool (bit (given_bits ''mode'' ps) 1 \<or> \<not> bit (given_bits ''mode'' ps) 0)"
    "ev_en (given_event ps) = of_bool (0 < given ''mode'' ps)"
    unfolding e event_word_fields [OF w] by (auto simp: both_def)
qed

section \<open>Event-sets\<close>

text \<open>
  What an accepted \<^verbatim>\<open>evset --add\<close> gives: four slots with ids in range, a global enable
  bit for every configured event and for exactly the fixed counters that are configured.
\<close>

definition cmd_evset_ok :: "smon_evset \<Rightarrow> bool" where
  "cmd_evset_ok s \<longleftrightarrow> length (evids s) = MAX_GP_CTRS \<and> (\<forall>e \<in> set (evids s). sint e < 64) \<and>
     (bit (global_ctrl s) 32 \<longleftrightarrow> fixed_ctrl s AND 0x003 \<noteq> 0) \<and>
     (bit (global_ctrl s) 33 \<longleftrightarrow> fixed_ctrl s AND 0x030 \<noteq> 0) \<and>
     (bit (global_ctrl s) 34 \<longleftrightarrow> fixed_ctrl s AND 0x300 \<noteq> 0)"

definition evset_enabled :: "smon_evset \<Rightarrow> bool" where
  "evset_enabled s \<longleftrightarrow> (\<forall>i < MAX_GP_CTRS. 0 \<le> sint (evids s ! i) \<longrightarrow> bit (global_ctrl s) i)"

lemma read_evids_spec:
  assumes "read_evids ts ids = Some ids'" and "length ids \<le> MAX_GP_CTRS" and "\<forall>i \<in> set ids. sint i < 64"
  shows "length ids' \<le> MAX_GP_CTRS \<and> (\<forall>i \<in> set ids'. sint i < 64)"
  using assms
proof (induction ts ids rule: read_evids.induct)
  case (2 token tokens ids)
  define e :: i32 where "e = ucast (strtoul token)"
  have r: "length ids \<noteq> MAX_GP_CTRS" "sint e < 64" "read_evids tokens (ids @ [e]) = Some ids'"
    using "2.prems"(1) by (simp_all add: Let_def TOOL_MAX_EVENTS_def e_def [symmetric] split: if_split_asm)
  show ?case
    by (rule "2.IH" [OF r(1) e_def]) (use r "2.prems"(2,3) in \<open>simp_all add: TOOL_MAX_EVENTS_def\<close>)
qed simp

lemma bit_fold_enable:
  fixes g :: i64
  assumes "n \<le> 32"
  shows "bit (fold (\<lambda>i g. if sint (xs ! i) < 0 then g else g OR push_bit i 1) [0..<n] g) j \<longleftrightarrow>
    bit g j \<or> j < n \<and> 0 \<le> sint ((xs :: i32 list) ! j)"
  using assms
proof (induction n)
  case (Suc n)
  have "bit (push_bit n (1 :: i64)) j \<longleftrightarrow> j = n"
    using Suc.prems unfolding bit_push_bit_iff bit_1_iff by auto
  with Suc show ?case by (auto simp: bit_or_iff less_Suc_eq not_less simp del: push_bit_of_1)
qed simp

lemma evset_events_ok:
  assumes "cmd_evset_ok s" and "read_evids ts [] = Some ids"
  shows "cmd_evset_ok (evset_events ids s)" "evset_enabled (evset_events ids s)"
proof -
  have l: "length ids \<le> MAX_GP_CTRS" "\<forall>i \<in> set ids. sint i < 64"
    using read_evids_spec [OF assms(2)] by simp_all
  have g: "bit (global_ctrl (evset_events ids s)) j \<longleftrightarrow> bit (global_ctrl s) j \<or>
      j < MAX_GP_CTRS \<and> 0 \<le> sint (evids (evset_events ids s) ! j)" for j
    by (simp add: evset_events_def Let_def bit_fold_enable MAX_GP_CTRS_def)
  show "evset_enabled (evset_events ids s)" by (simp add: evset_enabled_def g)
  have f: "fixed_ctrl (evset_events ids s) = fixed_ctrl s" by (simp add: evset_events_def Let_def)
  have "length (evids (evset_events ids s)) = MAX_GP_CTRS \<and> (\<forall>e \<in> set (evids (evset_events ids s)). sint e < 64)"
    using l by (auto simp: evset_events_def Let_def)
  then show "cmd_evset_ok (evset_events ids s)"
    using assms(1) g f by (simp add: cmd_evset_ok_def MAX_GP_CTRS_def)
qed

lemma or_ucast_and:
  fixes f :: i64 and t m :: u32
  shows "(f OR ucast t) AND ucast m = 0 \<longleftrightarrow> f AND ucast m = 0 \<and> t AND m = 0"
proof -
  have small: "n < 32" "n < 64" if "bit t n" for n
    using bit_imp_le_length [OF that] by simp_all
  have "ucast t AND ucast m = (0 :: i64) \<longleftrightarrow> (\<forall>n. bit t n \<longrightarrow> \<not> bit m n)"
    "t AND m = 0 \<longleftrightarrow> (\<forall>n. bit t n \<longrightarrow> \<not> bit m n)"
    using small by (auto simp: bit_eq_iff [of _ 0] bit_and_iff bit_ucast_iff)
  then have "ucast t AND ucast m = (0 :: i64) \<longleftrightarrow> t AND m = 0" by blast
  then show ?thesis by (simp add: bit.conj_disj_distrib2 or_eq_0_iff)
qed

lemma bit_or_push: "n < 64 \<Longrightarrow> bit (g OR push_bit n (1 :: i64)) j \<longleftrightarrow> bit g j \<or> j = n"
  unfolding bit_or_iff bit_push_bit_iff bit_1_iff by auto

lemma evset_fixed_ok:
  assumes "cmd_evset_ok s"
  shows "cmd_evset_ok (evset_fixed tmp s)" "evset_enabled s \<Longrightarrow> evset_enabled (evset_fixed tmp s)"
proof -
  have e: "evids (evset_fixed tmp s) = evids s" "fixed_ctrl (evset_fixed tmp s) = fixed_ctrl s OR ucast tmp"
    by (simp_all add: evset_fixed_def Let_def)
  have g: "bit (global_ctrl (evset_fixed tmp s)) j \<longleftrightarrow> bit (global_ctrl s) j \<or>
      j = 32 \<and> tmp AND 0x003 \<noteq> 0 \<or> j = 33 \<and> tmp AND 0x030 \<noteq> 0 \<or> j = 34 \<and> tmp AND 0x300 \<noteq> 0" for j
    unfolding evset_fixed_def Let_def by (simp add: bit_or_push del: push_bit_of_1)
  have m: "(fixed_ctrl s OR ucast tmp) AND 0x003 = 0 \<longleftrightarrow> fixed_ctrl s AND 0x003 = 0 \<and> tmp AND 0x003 = 0"
    "(fixed_ctrl s OR ucast tmp) AND 0x030 = 0 \<longleftrightarrow> fixed_ctrl s AND 0x030 = 0 \<and> tmp AND 0x030 = 0"
    "(fixed_ctrl s OR ucast tmp) AND 0x300 = 0 \<longleftrightarrow> fixed_ctrl s AND 0x300 = 0 \<and> tmp AND 0x300 = 0"
    using or_ucast_and [of "fixed_ctrl s" tmp "0x003"] or_ucast_and [of "fixed_ctrl s" tmp "0x030"]
      or_ucast_and [of "fixed_ctrl s" tmp "0x300"] by simp_all
  show "cmd_evset_ok (evset_fixed tmp s)"
    using assms unfolding cmd_evset_ok_def e g m by simp
  show "evset_enabled s \<Longrightarrow> evset_enabled (evset_fixed tmp s)"
    by (simp add: evset_enabled_def e g)
qed

lemma zero_evset_ok: "cmd_evset_ok zero_evset"
  by (simp add: cmd_evset_ok_def zero_evset_def)

lemma evset_subopt_ok:
  assumes "evset_subopt i val s f = Some (Some (s', f'))" and "cmd_evset_ok s" and "0 < snd f \<longrightarrow> evset_enabled s"
  shows "cmd_evset_ok s' \<and> (0 < snd f' \<longrightarrow> evset_enabled s')"
proof -
  have t: "cmd_evset_ok (s\<lparr>es_tag := t\<rparr>) = cmd_evset_ok s" "evset_enabled (s\<lparr>es_tag := t\<rparr>) = evset_enabled s" for t
    by (simp_all add: cmd_evset_ok_def evset_enabled_def)
  show ?thesis
    using assms evset_fixed_ok [OF assms(2)] evset_events_ok [OF assms(2)] unfolding evset_subopt_def
    by (auto simp: bind_eq_Some_conv t Let_def split: if_splits option.splits)
qed

lemma evset_subopts_ok:
  assumes "evset_subopts str s f = Some (Some (s', f'))" and "cmd_evset_ok s" and "0 < snd f \<longrightarrow> evset_enabled s"
  shows "cmd_evset_ok s' \<and> (0 < snd f' \<longrightarrow> evset_enabled s')"
  using assms
proof (induction "length str" arbitrary: str s f rule: less_induct)
  case less
  show ?case
  proof (cases "str = []")
    case True
    then show ?thesis using less.prems by (simp add: evset_subopts.simps)
  next
    case False
    obtain i val rest where g: "getsubopt evset_add_opts str = (i, val, rest)" by (cases "getsubopt evset_add_opts str") auto
    then obtain s1 f1 where s1: "evset_subopt i val s f = Some (Some (s1, f1))" "evset_subopts rest s1 f1 = Some (Some (s', f'))"
      using less.prems(1) False by (subst (asm) evset_subopts.simps) (auto split: option.splits)
    have "cmd_evset_ok s1" "0 < snd f1 \<longrightarrow> evset_enabled s1"
      using evset_subopt_ok [OF s1(1) less.prems(2,3)] by simp_all
    moreover have "length rest < length str" using getsubopt_rest [OF False, of evset_add_opts] g by simp
    ultimately show ?thesis using less.hyps [OF _ s1(2)] by simp
  qed
qed

lemma parse_evset_ok:
  assumes "parse_evset_add str = Some (Inr s)"
  shows "cmd_evset_ok s" "evset_enabled s"
proof -
  from assms obtain q where q: "evset_subopts str zero_evset (0, 0) = Some q"
    "(case q of None \<Rightarrow> Some (Inl 1) | Some (s, f1, f2) \<Rightarrow> if f1 AND f2 = 0 then Some (Inl 1) else Some (Inr s)) =
      (Some (Inr s) :: (i32 + smon_evset) option)"
    by (auto simp: parse_evset_add_def bind_eq_Some_conv)
  then obtain f1 f2 where r: "evset_subopts str zero_evset (0, 0) = Some (Some (s, f1, f2))" and f: "f1 AND f2 \<noteq> 0"
    by (cases q) (auto split: if_split_asm)
  have "0 < f2" using f by (cases f2) simp_all
  with evset_subopts_ok [OF r zero_evset_ok] show "cmd_evset_ok s" "evset_enabled s" by simp_all
qed

end
