(* ===== verification/Tool_Facts.thy ===== *)
theory Tool_Facts
  imports Tool_Driver Cmd_Facts
begin

text \<open>
  The tool's calls reach the driver's tables: listing prints every entry once, in order, and ends;
  the checks before a registration agree with the tests the driver makes.
\<close>

text \<open>The kernel lets the call through and copies all bytes.\<close>

definition ka_good :: "kernel_answers \<Rightarrow> bool" where
  "ka_good ka \<longleftrightarrow> ka_access ka \<and> ka_uncopied ka = 0"

lemma ioctl_access: "ka_access ka \<Longrightarrow> ioctl_access_ok ka cmd"
  by (simp add: ioctl_access_ok_def)

lemma ioc_fields [simp]:
  "IOC_TYPE 0x4004A601 = SMON_IOC_MAGIC" "IOC_TYPE 0x8004A602 = SMON_IOC_MAGIC" "IOC_TYPE 0x8004A603 = SMON_IOC_MAGIC"
  "IOC_TYPE 0x4004A604 = SMON_IOC_MAGIC" "IOC_TYPE 0x8004A605 = SMON_IOC_MAGIC" "IOC_TYPE 0x8004A606 = SMON_IOC_MAGIC"
  "IOC_TYPE 0x4004A607 = SMON_IOC_MAGIC" "IOC_TYPE 0x4004A608 = SMON_IOC_MAGIC" "IOC_TYPE 0x4004A609 = SMON_IOC_MAGIC"
  "IOC_NR 0x4004A601 = 1" "IOC_NR 0x8004A602 = 2" "IOC_NR 0x8004A603 = 3" "IOC_NR 0x4004A604 = 4"
  "IOC_NR 0x8004A605 = 5" "IOC_NR 0x8004A606 = 6" "IOC_NR 0x4004A607 = 7" "IOC_NR 0x4004A608 = 8" "IOC_NR 0x4004A609 = 9"
  by (simp_all add: IOC_TYPE_def IOC_NR_def SMON_IOC_MAGIC_def)

lemma get_event_ioctl:
  assumes "event_inv (ks_events k)" and "ka_good ka" and "ioc_ptr s = IocEvent p"
  shows "smon_ioctl ka pd SMON_IOCGEVT (ArgStruct s) k =
    (if unat (ioc_word s) < length (event_entries (ks_events k))
     then Some (0, ArgStruct (s\<lparr>ioc_ptr := IocEvent (Some (event_entries (ks_events k) ! unat (ioc_word s)))\<rparr>), k)
     else Some (- SMENOEVT, ArgStruct s, k))"
  using assms
  by (simp add: smon_ioctl_def ka_good_def ioctl_access SMON_IOC_MAXNR_def event_get_spec copy_event_def)

lemma get_evset_ioctl:
  assumes "evset_inv (ks_evsets k)" and "ka_good ka" and "ioc_ptr s = IocEvset p"
  shows "smon_ioctl ka pd SMON_IOCGEVS (ArgStruct s) k =
    (if unat (ioc_word s) < length (evset_entries (ks_evsets k))
     then Some (0, ArgStruct (s\<lparr>ioc_ptr := IocEvset (Some (evset_entries (ks_evsets k) ! unat (ioc_word s)))\<rparr>), k)
     else Some (- SMENOEVS, ArgStruct s, k))"
  using assms
  by (simp add: smon_ioctl_def ka_good_def ioctl_access SMON_IOC_MAXNR_def evset_get_spec copy_evset_def)

section \<open>Listing\<close>

text \<open>The lines for the entries from the \<open>i\<close>-th on.\<close>

definition lines_from :: "('a \<Rightarrow> nat \<Rightarrow> string) \<Rightarrow> 'a list \<Rightarrow> nat \<Rightarrow> string list" where
  "lines_from f xs i = map (\<lambda>j. f (xs ! j) j) [i..<length xs]"

lemma lines_from_step: "i < length xs \<Longrightarrow> lines_from f xs i = f (xs ! i) i # lines_from f xs (Suc i)"
  by (simp add: lines_from_def upt_conv_Cons)

lemma lines_from_end: "length xs \<le> i \<Longrightarrow> lines_from f xs i = []"
  by (simp add: lines_from_def)

lemma list_events_loop_spec:
  assumes "event_inv (ks_events (tl_k u))" and "ka_good ka" and "ioc_ptr s = IocEvent p"
    and "i \<le> length (event_entries (ks_events (tl_k u)))" and "ioc_word s = of_nat i"
  shows "list_events_loop ka s i u = Some (length (event_entries (ks_events (tl_k u))),
    u\<lparr>tl_out := tl_out u @ lines_from local_print_event (event_entries (ks_events (tl_k u))) i\<rparr>)"
  using assms(1,3-5)
proof (induction "length (event_entries (ks_events (tl_k u))) - i" arbitrary: s p i u)
  case (0 i u)
  let ?es = "event_entries (ks_events (tl_k u))"
  have l: "length ?es \<le> 64" using "0.prems"(1) by (auto elim: event_invE)
  have "unat (of_nat i :: u32) = i" using 0 l by (simp add: unat_of_nat)
  then show ?case
    using 0 get_event_ioctl [OF "0.prems"(1) assms(2) "0.prems"(2)]
    by (subst list_events_loop.simps) (simp add: user_ioctl_def lines_from_end SMENOEVT_def)
next
  case (Suc n)
  let ?es = "event_entries (ks_events (tl_k u))"
  have l: "length ?es \<le> 64" using Suc.prems(1) by (auto elim: event_invE)
  have i: "i < length ?es" "unat (of_nat i :: u32) = i" using Suc.hyps(2) Suc.prems(3) l by (auto simp: unat_of_nat)
  define u' where "u' = put_out (local_print_event (?es ! i) i) u"
  define s' where "s' = s\<lparr>ioc_ptr := IocEvent (Some (?es ! i)), ioc_word := of_nat (Suc i)\<rparr>"
  have k: "tl_k u' = tl_k u" by (simp add: u'_def put_out_def)
  have "list_events_loop ka s' (Suc i) u' = Some (length (event_entries (ks_events (tl_k u'))),
      u'\<lparr>tl_out := tl_out u' @ lines_from local_print_event (event_entries (ks_events (tl_k u'))) (Suc i)\<rparr>)"
    using Suc.hyps Suc.prems i(1) by (intro Suc.hyps(1)) (simp_all add: k s'_def)
  moreover have "list_events_loop ka s i u = list_events_loop ka s' (Suc i) u'"
    using Suc.prems i get_event_ioctl [OF Suc.prems(1) assms(2) Suc.prems(2)]
    by (subst list_events_loop.simps) (simp add: user_ioctl_def u'_def s'_def)
  ultimately show ?case
    by (simp add: k lines_from_step [OF i(1)]) (simp add: u'_def put_out_def)
qed

lemma list_evsets_loop_spec:
  assumes "evset_inv (ks_evsets (tl_k u))" and "ka_good ka" and "ioc_ptr s = IocEvset p"
    and "i \<le> length (evset_entries (ks_evsets (tl_k u)))" and "ioc_word s = of_nat i"
  shows "list_evsets_loop ka s i u = Some (length (evset_entries (ks_evsets (tl_k u))),
    u\<lparr>tl_out := tl_out u @ lines_from local_print_evset (evset_entries (ks_evsets (tl_k u))) i\<rparr>)"
  using assms(1,3-5)
proof (induction "length (evset_entries (ks_evsets (tl_k u))) - i" arbitrary: s p i u)
  case (0 i u)
  let ?es = "evset_entries (ks_evsets (tl_k u))"
  have l: "length ?es \<le> 64" using "0.prems"(1) by (auto elim: evset_invE)
  have "unat (of_nat i :: u32) = i" using 0 l by (simp add: unat_of_nat)
  then show ?case
    using 0 get_evset_ioctl [OF "0.prems"(1) assms(2) "0.prems"(2)]
    by (subst list_evsets_loop.simps) (simp add: user_ioctl_def lines_from_end SMENOEVS_def)
next
  case (Suc n)
  let ?es = "evset_entries (ks_evsets (tl_k u))"
  have l: "length ?es \<le> 64" using Suc.prems(1) by (auto elim: evset_invE)
  have i: "i < length ?es" "unat (of_nat i :: u32) = i" using Suc.hyps(2) Suc.prems(3) l by (auto simp: unat_of_nat)
  define u' where "u' = put_out (local_print_evset (?es ! i) i) u"
  define s' where "s' = s\<lparr>ioc_ptr := IocEvset (Some (?es ! i)), ioc_word := of_nat (Suc i)\<rparr>"
  have k: "tl_k u' = tl_k u" by (simp add: u'_def put_out_def)
  have "list_evsets_loop ka s' (Suc i) u' = Some (length (evset_entries (ks_evsets (tl_k u'))),
      u'\<lparr>tl_out := tl_out u' @ lines_from local_print_evset (evset_entries (ks_evsets (tl_k u'))) (Suc i)\<rparr>)"
    using Suc.hyps Suc.prems i(1) by (intro Suc.hyps(1)) (simp_all add: k s'_def)
  moreover have "list_evsets_loop ka s i u = list_evsets_loop ka s' (Suc i) u'"
    using Suc.prems i get_evset_ioctl [OF Suc.prems(1) assms(2) Suc.prems(2)]
    by (subst list_evsets_loop.simps) (simp add: user_ioctl_def u'_def s'_def)
  ultimately show ?case
    by (simp add: k lines_from_step [OF i(1)]) (simp add: u'_def put_out_def)
qed

lemma smon_list_events_spec:
  assumes "kinv (tl_k u)" and "ka_good ka" and "tl_dev u \<noteq> 0"
  shows "smon_list_events ka u = Some (int (length (event_entries (ks_events (tl_k u)))),
    u\<lparr>tl_out := tl_out u @ lines_from local_print_event (event_entries (ks_events (tl_k u))) 0\<rparr>)"
  using list_events_loop_spec [OF kinv_config(1) [OF assms(1)] assms(2), of "\<lparr>ioc_ptr = IocEvent (Some zero_event), ioc_word = 0\<rparr>" _ 0]
    assms(3) by (simp add: smon_list_events_def)

lemma smon_list_evsets_spec:
  assumes "kinv (tl_k u)" and "ka_good ka" and "tl_dev u \<noteq> 0"
  shows "smon_list_evsets ka u = Some (int (length (evset_entries (ks_evsets (tl_k u)))),
    u\<lparr>tl_out := tl_out u @ lines_from local_print_evset (evset_entries (ks_evsets (tl_k u))) 0\<rparr>)"
  using list_evsets_loop_spec [OF kinv_config(2) [OF assms(1)] assms(2), of "\<lparr>ioc_ptr = IocEvset (Some zero_evset), ioc_word = 0\<rparr>" _ 0]
    assms(3) by (simp add: smon_list_evsets_def)

section \<open>Checks before a registration\<close>

lemma ucast_down_up: "ucast (ucast (e :: u32) :: u64) = e" "ucast (scast (e :: u32) :: u64) = e"
  by (rule bit_word_eqI, simp add: bit_simps, rule bit_word_eqI, simp add: bit_simps)

lemma check_events_from_spec:
  assumes "event_inv (ks_events (tl_k u))" and "ka_good ka"
  shows "check_events_from ka es u =
    Some (if \<forall>e \<in> set es. nonneg e \<longrightarrow> unat e < length (event_entries (ks_events (tl_k u))) then 0 else - SMENOEVT, u)"
proof (induction es)
  case (Cons e es)
  have "smon_ioctl ka (tl_pd u) SMON_IOCCEVT (ArgWord (ucast e)) (tl_k u) =
      Some (smon_check_event e (ks_events (tl_k u)), ArgWord (ucast e), tl_k u)"
    using assms(2) by (simp add: smon_ioctl_def ka_good_def ioctl_access SMON_IOC_MAXNR_def ucast_down_up)
  moreover have "smon_check_event e (ks_events (tl_k u)) \<le> 0" by (simp add: smon_check_event_def SMENOEVT_def)
  moreover have "smon_check_event e (ks_events (tl_k u)) = 0 \<longleftrightarrow> unat e < length (event_entries (ks_events (tl_k u)))"
    by (rule ev.check_entries [OF assms(1)])
  ultimately show ?case using Cons by (auto simp: user_ioctl_def)
qed simp

lemma check_events_agree:
  assumes "kinv (tl_k u)" and "ka_good ka" and "cmd_evset_ok s"
  shows "smon_check_events ka s u =
    Some (if evset_refs_ok (ks_events (tl_k u)) s then 0 else - SMENOEVT, u)"
  using check_events_from_spec [OF kinv_config(1) [OF assms(1)] assms(2)] assms(3)
  by (simp add: smon_check_events_def cmd_evset_ok_def evset_refs_ok_def)


lemma check_evsets_from_spec:
  assumes "evset_inv (ks_evsets (tl_k u))" and "ka_good ka" and "i + n \<le> length (esids e)"
  shows "check_evsets_from ka e i n u =
    Some (if \<forall>j \<in> {i..<i + n}. unat (esids e ! j) < length (evset_entries (ks_evsets (tl_k u))) then 0
          else - SMENOEVS, u)"
  using assms(3)
proof (induction n arbitrary: i)
  case (Suc n)
  let ?x = "esids e ! i"
  have x: "smon_ioctl ka (tl_pd u) SMON_IOCCEVS (ArgWord (scast ?x)) (tl_k u) =
      Some (smon_check_evset ?x (ks_evsets (tl_k u)), ArgWord (scast ?x), tl_k u)"
    using assms(2) by (simp add: smon_ioctl_def ka_good_def ioctl_access SMON_IOC_MAXNR_def ucast_down_up)
  have le: "smon_check_evset ?x (ks_evsets (tl_k u)) \<le> 0" by (simp add: smon_check_evset_def SMENOEVS_def)
  have z: "smon_check_evset ?x (ks_evsets (tl_k u)) = 0 \<longleftrightarrow> unat ?x < length (evset_entries (ks_evsets (tl_k u)))"
    by (rule es.check_entries [OF assms(1)])
  have r: "{i..<i + Suc n} = insert i {Suc i..<Suc i + n}" by auto
  show ?case
    unfolding r using Suc.prems Suc.IH [of "Suc i"] x le z by (auto simp: user_ioctl_def)
qed simp

lemma check_evsets_agree:
  assumes "kinv (tl_k u)" and "ka_good ka" and "cmd_envir_ok e" and "tl_dev u \<noteq> 0"
  shows "smon_check_evsets ka e u = Some (if envir_refs_ok (ks_evsets (tl_k u)) e then 0 else - SMENOEVS, u)"
proof -
  have "0 + unat (n_esids e) \<le> length (esids e)" using assms(3) by (simp add: cmd_envir_ok_def)
  from check_evsets_from_spec [OF kinv_config(2) [OF assms(1)] assms(2) this] assms(4) show ?thesis
    by (auto simp: smon_check_evsets_def envir_refs_ok_def)
qed

section \<open>Registrations\<close>

lemma user_set_event_spec:
  assumes "kinv (tl_k u)" and "ka_good ka" and "tl_dev u \<noteq> 0"
  obtains r u' where "user_set_event ka e u = Some (r, u')" "tl_out u' = tl_out u" "tl_dev u' = tl_dev u"
    "r = 0 \<longleftrightarrow> ka_alloc ka \<and> length (event_entries (ks_events (tl_k u))) < 64"
    "event_entries (ks_events (tl_k u')) =
       (if r = 0 then event_entries (ks_events (tl_k u)) @ [e] else event_entries (ks_events (tl_k u)))"
    "kinv (tl_k u')"
proof -
  from event_set_spec [OF kinv_config(1) [OF assms(1)], of "ka_alloc ka" e] obtain r t where
    t: "smon_set_event (ka_alloc ka) e (ks_events (tl_k u)) = Some (r, t)"
    "event_entries t = (if r = 0 then event_entries (ks_events (tl_k u)) @ [e] else event_entries (ks_events (tl_k u)))"
    "r = 0 \<longleftrightarrow> ka_alloc ka \<and> length (event_entries (ks_events (tl_k u))) < 64" by blast
  have r: "r \<le> 0" using t(1) by (auto simp: smon_set_event_def sme_defs bind_eq_Some_conv split: if_splits)
  have "user_set_event ka e u = Some (if r < 0 then - 1 else r, u\<lparr>tl_k := (tl_k u)\<lparr>ks_events := t\<rparr>\<rparr>)"
    using assms(2,3) t(1)
    by (simp add: user_set_event_def user_ioctl_def smon_ioctl_def ka_good_def ioctl_access SMON_IOC_MAXNR_def)
  from that [OF this] show thesis
    using t(2,3) r kinv_events [OF assms(1) t(1)] by (simp split: if_splits)
qed

lemma user_set_evset_spec:
  assumes "kinv (tl_k u)" and "ka_good ka" and "tl_dev u \<noteq> 0" and "cmd_evset_ok s"
  obtains r u' where "user_set_evset ka s u = Some (r, u')" "tl_out u' = tl_out u" "tl_dev u' = tl_dev u"
    "r = 0 \<longleftrightarrow> ka_alloc ka \<and> evset_refs_ok (ks_events (tl_k u)) s \<and> length (evset_entries (ks_evsets (tl_k u))) < 64"
    "evset_entries (ks_evsets (tl_k u')) =
       (if r = 0 then evset_entries (ks_evsets (tl_k u)) @ [s] else evset_entries (ks_evsets (tl_k u)))"
    "kinv (tl_k u')"
proof -
  note c = kinv_config [OF assms(1)]
  from evset_set_spec [OF c(2,1), of "ka_alloc ka" s] obtain r t where
    t: "smon_set_evset (ka_alloc ka) s (ks_events (tl_k u)) (ks_evsets (tl_k u)) = Some (r, t)"
    "evset_entries t = (if r = 0 then evset_entries (ks_evsets (tl_k u)) @ [s] else evset_entries (ks_evsets (tl_k u)))"
    "r = 0 \<longleftrightarrow> ka_alloc ka \<and> evset_refs_ok (ks_events (tl_k u)) s \<and> length (evset_entries (ks_evsets (tl_k u))) < 64"
    by blast
  have r: "r \<le> 0"
    using t(1) by (auto simp: smon_set_evset_def sme_defs bind_eq_Some_conv split: if_split_asm)
  have l: "length (evids s) = MAX_GP_CTRS" using assms(4) by (simp add: cmd_evset_ok_def)
  have "user_set_evset ka s u = Some (if r < 0 then - 1 else r, u\<lparr>tl_k := (tl_k u)\<lparr>ks_evsets := t\<rparr>\<rparr>)"
    using assms(2,3) t(1)
    by (simp add: user_set_evset_def user_ioctl_def smon_ioctl_def ka_good_def ioctl_access SMON_IOC_MAXNR_def)
  from that [OF this] show thesis
    using t(2,3) r kinv_evsets [OF assms(1) t(1) l] by (simp split: if_splits)
qed

end
