(* ===== verification/Prop_Kernel.thy ===== *)
theory Prop_Kernel
  imports Example_States Kernel_Effects Driver_Safe Tool_Facts
begin

text \<open>
  The properties of the driver as a whole: of every reachable state, and of the hooks, the timers and
  the system calls.
\<close>

section \<open>A run of the driver\<close>

definition ex_module :: smon_module where
  "ex_module = \<lparr>md_count = 0, md_major = 240, md_chrdev = True, md_cdev = True\<rparr>"

definition ex_blank :: kstate where
  "ex_blank = ex_idle\<lparr>ks_events := event_table0, ks_evsets := evset_table0, ks_rbs := Map.empty\<rparr>"

definition ex_loaded :: kstate where
  "ex_loaded = ex_idle\<lparr>ks_events := \<lparr>events = Some (replicate 64 None), n_events = 0\<rparr>,
     ks_evsets := \<lparr>evsets = Some (replicate 64 None), n_evsets = 0\<rparr>, ks_rbs := Map.empty\<rparr>"

definition ex_answers :: kernel_answers where
  "ex_answers = \<lparr>ka_access = True, ka_alloc = True, ka_task = Some 20, ka_envir = Some 30, ka_extra = True,
     ka_uncopied = 0\<rparr>"

definition ex_drv :: "kstate \<Rightarrow> (nat \<Rightarrow> addr option option) \<Rightarrow> i32 \<Rightarrow> drv" where
  "ex_drv ks fs n = \<lparr>drv_k = ks, drv_files = fs, drv_module = ex_module\<lparr>md_count := n\<rparr>\<rparr>"

lemma ex_blank_blank: "blank ex_blank"
  by (simp add: blank_def ex_blank_def ex_idle_def)

lemma ex_load:
  "smon_init (0, 240) True True True (ex_module\<lparr>md_major := 0\<rparr>, ex_blank) = Some (0, ex_module, ex_loaded)"
  by (simp add: smon_init_def Let_def ex_blank_def smon_event_init_def smon_evset_init_def smon_sched_init_def
      ex_loaded_def ex_module_def smon_setup_cdev_def event_table0_def evset_table0_def MAX_EVENTS_def MAX_EVSETS_def
      ex_idle_def)

lemma ex_step: "drv_reach d \<Longrightarrow> drv_allowed ev d \<Longrightarrow> drv_exec ev d = Some d' \<Longrightarrow> drv_reach d'"
  by (blast intro: drv_next drv_event)

lemma ex_boot: "drv_reach (ex_drv ex_loaded Map.empty 0)"
  using drv_start [OF ex_blank_blank ex_load] by (simp add: ex_drv_def ex_module_def)

lemma ex_opened: "drv_reach (ex_drv ex_loaded [3 \<mapsto> None] 1)"
  by (rule ex_step [OF ex_boot, of "Open 3"]) (simp_all add: ex_drv_def smon_open_def ex_module_def)

lemma ex_mapped: "drv_reach (ex_drv (ex_loaded\<lparr>ks_rbs := [10 \<mapsto> ex_rb 0]\<rparr>) [3 \<mapsto> Some 10] 1)"
proof (rule ex_step [OF ex_opened, of "Mmap 3 10 True True (\<lambda>_. True) (\<lambda>_ _. 0) 0 8192"])
  have "smon_mmap True True (\<lambda>_. True) (\<lambda>_ _. 0) 0 8192 None = Some (0, Some (ex_rb 0), [0..<2])"
    by (simp add: smon_mmap_def PAGE_SHIFT_def is_power_of_2_def smon_create_rb_def SMON_MAX_PAGES_def PAGE_SIZE_def
        RB_DEFAULT_BATCH_def first_failure_None [THEN iffD2] ex_rb_def)
  then show "drv_exec (Mmap 3 10 True True (\<lambda>_. True) (\<lambda>_ _. 0) 0 8192) (ex_drv ex_loaded [3 \<mapsto> None] 1) =
      Some (ex_drv (ex_loaded\<lparr>ks_rbs := [10 \<mapsto> ex_rb 0]\<rparr>) [3 \<mapsto> Some 10] 1)"
    by (simp add: ex_drv_def put_rb_def ex_loaded_def)
qed (simp add: ex_drv_def ex_loaded_def PAGE_SHIFT_def)

lemma replicate_64: "replicate 64 x = x # replicate 63 x"
  using replicate_Suc [of 63 x] by simp

lemma ex_configured: "drv_reach (ex_drv ex_idle [3 \<mapsto> Some 10] 1)"
proof -
  let ?k = "ex_loaded\<lparr>ks_rbs := [10 \<mapsto> ex_rb 0]\<rparr>"
  let ?e = "Ioctl 3 ex_answers SMON_IOCSEVT (ArgStruct \<lparr>ioc_ptr = IocEvent (Some ex_event), ioc_word = 0\<rparr>)"
  let ?s = "Ioctl 3 ex_answers SMON_IOCSEVS (ArgStruct \<lparr>ioc_ptr = IocEvset (Some ex_evset), ioc_word = 0\<rparr>)"
  have "smon_set_event True ex_event (ks_events ?k) = Some (0, ev_tab ex_config)"
    by (simp add: smon_set_event_def MAX_EVENTS_def slot_store_def ex_config_def replicate_64 ex_loaded_def)
  then have "drv_exec ?e (ex_drv ?k [3 \<mapsto> Some 10] 1) =
      Some (ex_drv (?k\<lparr>ks_events := ev_tab ex_config\<rparr>) [3 \<mapsto> Some 10] 1)"
    by (simp add: ex_drv_def on_kernel_def smon_ioctl_def ioctl_access ex_answers_def SMON_IOC_MAXNR_def)
  then have 1: "drv_reach (ex_drv (?k\<lparr>ks_events := ev_tab ex_config\<rparr>) [3 \<mapsto> Some 10] 1)"
    by (rule ex_step [OF ex_mapped, rotated]) (simp add: ex_drv_def ioctl_ok_def word_cmds_def)
  have "smon_set_evset True ex_evset (ev_tab ex_config) (ks_evsets ?k) = Some (0, es_tab ex_config)"
    by (simp add: smon_set_evset_def MAX_EVSETS_def slot_store_def ex_config_def replicate_64 ex_loaded_def ex_evset_def
        smon_get_event_def slot_load_def)
  then have "drv_exec ?s (ex_drv (?k\<lparr>ks_events := ev_tab ex_config\<rparr>) [3 \<mapsto> Some 10] 1) =
      Some (ex_drv ex_idle [3 \<mapsto> Some 10] 1)"
    by (simp add: ex_drv_def on_kernel_def smon_ioctl_def ioctl_access ex_answers_def SMON_IOC_MAXNR_def
        ex_loaded_def ex_idle_def)
  then show ?thesis
    by (rule ex_step [OF 1, rotated])
      (simp add: ex_drv_def ioctl_ok_def word_cmds_def ex_evset_def MAX_GP_CTRS_def)
qed

definition ex_register :: drv_event where
  "ex_register = Ioctl 3 ex_answers SMON_IOCSTSK (ArgStruct \<lparr>ioc_ptr = IocEnvir (Some ex_envir), ioc_word = 7\<rparr>)"

lemma ex_register_ok: "register_ok (Some 20) (Some 30) True ex_envir 10 ex_idle"
  using ex_envir_ok by (simp add: register_ok_def fresh_task_def ex_idle_def)

lemma ex_register_allowed: "drv_allowed ex_register (ex_drv ex_idle [3 \<mapsto> Some 10] 1)"
  using ex_register_ok by (simp add: ex_register_def ex_drv_def ioctl_ok_def word_cmds_def ex_answers_def)

text \<open>The task of process 5, whose pid is 7, has been registered and is on the list of processor 0.\<close>

lemma ex_registered:
  obtains d where "drv_reach d" "ks_task_list (drv_k d) = [20]" "ks_cpu_list (drv_k d) 0 = [20]"
    "task_live (drv_k d) 20" "\<exists>rb. ks_rbs (drv_k d) 10 = Some rb \<and> smon_rb_is_active rb \<and> grows True (ex_rb 0) rb"
proof -
  obtain k where k: "smon_sched_register_task (Some 20) (Some 30) True 7 ex_envir 10 ex_idle = Some (0, k)"
    "task_added 20 ex_envir ex_idle k" "dom (ks_tasks k) = insert 20 (dom (ks_tasks ex_idle))"
    "buffers_grow True ex_idle k" "map_option t_rb (ks_tasks k 20) = Some (Some 10)"
    by (rule register_task_spec [OF ex_idle_inv ex_register_ok])
  have "drv_exec ex_register (ex_drv ex_idle [3 \<mapsto> Some 10] 1) = Some (ex_drv k [3 \<mapsto> Some 10] 1)"
    using k(1) by (simp add: ex_register_def ex_drv_def on_kernel_def smon_ioctl_def ioctl_access ex_answers_def
        SMON_IOC_MAXNR_def)
  from ex_step [OF ex_configured ex_register_allowed this] have r: "drv_reach (ex_drv k [3 \<mapsto> Some 10] 1)" .
  have x: "\<not> envir_option_exec ex_envir" by (simp add: ex_envir_def envir_option_defs envop_defs)
  have "ks_rbs ex_idle 10 = Some (ex_rb 0)" by (simp add: ex_idle_def)
  with k(4) obtain rb where rb: "ks_rbs k 10 = Some rb" "grows True (ex_rb 0) rb"
    unfolding buffers_grow_def by blast
  have i: "kinv k" using drv_reach_kinv [OF r] by (simp add: ex_drv_def)
  then have c: "counts_ok k" by (simp add: kinv_def)
  have "20 \<in> rb_users k 10" using k(5) by (auto simp: rb_users_def)
  then have "0 < card (rb_users k 10)" using counts_users(1) [OF c] by (rule card_pos [rotated])
  moreover have u: "unat (rb_active rb) = card (rb_users k 10)" using c rb(1) by (simp add: counts_ok_def)
  moreover have "unat (rb_active rb) < 2 ^ 31" unfolding u using counts_users(2) [OF c, of 10] counts_users(6) [OF c] by linarith
  then have "sint (rb_active rb) = int (unat (rb_active rb))" by (rule sint_small)
  ultimately have "smon_rb_is_active rb" by (simp add: smon_rb_is_active_def)
  then have b: "\<exists>rb. ks_rbs k 10 = Some rb \<and> smon_rb_is_active rb \<and> grows True (ex_rb 0) rb" using rb by blast
  show thesis
    by (rule that [OF r]) (use b k(2,3) x in \<open>auto simp: ex_drv_def task_added_def Let_def ex_idle_def task_live_def\<close>)
qed

section \<open>Every reachable state\<close>

text \<open>
  C5: from loading the module on, whatever sequence of hooks, timer expiries, interrupt work, wake-ups of readers,
  system calls (open, close, mmap, poll, ioctl), page faults, unmappings and changes of the rest of the
  kernel happens, no pointer to freed or never allocated memory is followed, no array is left and no
  loop runs for ever; and at any moment when no file is open and nothing mapped, unloading succeeds, takes
  the device away and empties both tables. The events are those that \<open>drv_allowed\<close> admits, and these are its conditions: a
  timer expires while it is queued, and wake-up work runs while it is queued; new tasks,
  environments and buffers are at unused addresses, open files at unused numbers, and there are fewer than \<open>2\<^sup>3\<^sup>1\<close>
  tasks; mmap is for fewer than \<open>2\<^sup>3\<^sup>2\<close> pages and is granted its first page; a buffer is unmapped when no
  task refers to it and its wake-up work has run; poll, page faults, \<^verbatim>\<open>SMON_IOCREAD\<close> and
  \<^verbatim>\<open>SMON_IOCSTSK\<close> reach a buffer that has not been unmapped, \<^verbatim>\<open>SMON_IOCREAD\<close> only on a file with
  a buffer; \<^verbatim>\<open>SMON_IOCSTSK\<close> names an environment of 1 to 32 registered event-sets and is granted the
  extra data of its task; \<^verbatim>\<open>SMON_IOCUTSK\<close> names a task that has exited with all its monitored descendants
  and whose interrupt work has run; the ioctl arguments have the type of their command. C11 shows that
  the driver does not check most of these itself and faults without them.
\<close>

theorem driver_never_faults:
  assumes "drv_reach d"
  shows "(drv_allowed ev d \<longrightarrow> (\<exists>d'. drv_exec ev d = Some d' \<and> drv_reach d')) \<and>
    (unload_allowed d \<longrightarrow> (\<exists>md ks. drv_unload n d = Some (md, ks) \<and> \<not> md_cdev md \<and> \<not> md_chrdev md \<and>
       ks_events ks = event_table0 \<and> ks_evsets ks = evset_table0))"
  using drv_no_fault [OF assms] unload_frees [OF assms, of n] by metis

theorem driver_never_faults_witness:
  "(\<exists>d'. drv_exec ex_register (ex_drv ex_idle [3 \<mapsto> Some 10] 1) = Some d' \<and> drv_reach d') \<and>
   (\<exists>md ks. drv_unload 4 (ex_drv ex_loaded Map.empty 0) = Some (md, ks) \<and> ks_events ks = event_table0)"
proof -
  have "unload_allowed (ex_drv ex_loaded Map.empty 0)" by (simp add: unload_allowed_def ex_drv_def ex_loaded_def)
  then show ?thesis
    using driver_never_faults [OF ex_configured, of ex_register] ex_register_allowed
      driver_never_faults [OF ex_boot, of "IrqWork" 4] by blast
qed



text \<open>
  C7: in every reachable state the count of a buffer is the number of tasks that write to it, and the count
  of an environment is the number of tasks that use it: neither is released too early or too late.
\<close>

theorem counts_are_users:
  assumes "drv_reach d"
  shows "(\<forall>r rb. ks_rbs (drv_k d) r = Some rb \<longrightarrow>
      unat (rb_active rb) = card {a. \<exists>t. ks_tasks (drv_k d) a = Some t \<and> t_rb t = Some r}) \<and>
    (\<forall>ea e. ks_envirs (drv_k d) ea = Some e \<longrightarrow>
      unat (envir_count e) = card {a. \<exists>t. ks_tasks (drv_k d) a = Some t \<and> t_envir t = Some ea})"
  using drv_reach_kinv [OF assms] by (simp add: kinv_def counts_ok_def rb_users_def envir_users_def)

theorem counts_are_users_witness:
  "\<exists>d. drv_reach d \<and> ks_task_list (drv_k d) = [20] \<and> (\<forall>r rb. ks_rbs (drv_k d) r = Some rb \<longrightarrow>
     unat (rb_active rb) = card {a. \<exists>t. ks_tasks (drv_k d) a = Some t \<and> t_rb t = Some r})"
proof -
  obtain d where "drv_reach d" "ks_task_list (drv_k d) = [20]" by (rule ex_registered)
  with counts_are_users [of d] show ?thesis by blast
qed

text \<open>
  C6: from any reachable state on, while a buffer stays mapped and before the reader's next report on it, whatever
  events happen that \<open>drv_allowed\<close> admits, none of them faults, the records that the buffer holds stay
  what they are and where they are in the sequence, and what is appended are whole records: samples that
  the reader's own decoding accepts, or marks of the end. No event leaves half a record or a foreign type.
  The admitted events are the hooks, timers, interrupt work, system calls and page faults of C5 with the
  conditions listed there: tasks are unregistered only after they and their monitored descendants have exited
  and their interrupt work has run; poll, reports and registrations reach a buffer that is still mapped, and
  registrations name registered event-sets and get their extra data; mappings have fewer than \<open>2\<^sup>3\<^sup>2\<close> pages and
  get their first page; other buffers are unmapped when unused; timers expire and wake-ups run while queued; new addresses and file
  numbers are unused and tasks fewer than \<open>2\<^sup>3\<^sup>1\<close>; ioctl arguments have the type of their command.
\<close>

theorem driver_appends_records:
  assumes "drv_reach d" and "steady r evs d" and "ks_rbs (drv_k d) r = Some rb" and "rb_inv rb rs"
  shows "\<exists>d' rb' new. fold_opt drv_exec evs d = Some d' \<and> ks_rbs (drv_k d') r = Some rb' \<and>
    rb_inv rb' (rs @ new) \<and> (\<forall>x. x \<in> set new \<longrightarrow> whole x)"
  using drv_run_appends [OF assms] by (auto simp: list_all_iff)

lemma ex_steady: "steady 10 [Switch 5 6 0, ex_register] (ex_drv ex_idle [3 \<mapsto> Some 10] 1)"
proof -
  have "drv_exec (Switch 5 6 0) (ex_drv ex_idle [3 \<mapsto> Some 10] 1) = Some (ex_drv ex_idle [3 \<mapsto> Some 10] 1)"
    by (simp add: ex_drv_def on_kernel_def smon_sched_switch_def ex_idle_def Let_def)
  moreover have "\<exists>d. drv_exec ex_register (ex_drv ex_idle [3 \<mapsto> Some 10] 1) = Some d"
    using drv_no_fault [OF ex_configured ex_register_allowed] by blast
  moreover have "\<not> removes ex_register 10" "\<not> reports ex_register d 10" for d by (simp_all add: ex_register_def)
  ultimately show ?thesis using ex_register_allowed by auto
qed

theorem driver_appends_records_witness:
  "\<exists>d' rb' new. fold_opt drv_exec [Switch 5 6 0, ex_register] (ex_drv ex_idle [3 \<mapsto> Some 10] 1) = Some d' \<and>
    ks_rbs (drv_k d') 10 = Some rb' \<and> rb_inv rb' ([] @ new) \<and> (\<forall>x. x \<in> set new \<longrightarrow> whole x)"
  by (rule driver_appends_records [OF ex_configured ex_steady _ ex_rb_inv]) (simp add: ex_drv_def ex_idle_def)

text \<open>
  C8: in every state that the events admitted by \<open>drv_allowed\<close> reach from loading the module, a task that is on the list of a processor or
  waits for its exec is allocated, has not exited, has an environment whose event-sets are registered and a
  buffer that is mapped, and is on one list only, once. The conditions of \<open>drv_allowed\<close> are those of C5: a task is
  unregistered only when it and its monitored descendants have exited and their interrupt work has run (C36 is the
  case without it); a buffer is unmapped only when no task refers to it and its wake-up work has run; poll, page
  faults, reports and registrations reach a buffer that has not been unmapped; registrations name 1 to 32 registered
  event-sets and get their extra data; mappings have fewer than \<open>2\<^sup>3\<^sup>2\<close> pages and get their first page;
  timers expire and wake-ups run while queued; new addresses and file numbers are unused and tasks fewer than
  \<open>2\<^sup>3\<^sup>1\<close>; ioctl arguments have the type of their command.
\<close>

theorem listed_tasks_usable:
  assumes "drv_reach d" and "a \<in> set (ks_cpu_list (drv_k d) c) \<or> a \<in> set (ks_wait_list (drv_k d))"
  shows "(\<exists>t ea e r. ks_tasks (drv_k d) a = Some t \<and> t_p t \<noteq> None \<and> t_envir t = Some ea \<and>
      ks_envirs (drv_k d) ea = Some e \<and> envir_refs_ok (ks_evsets (drv_k d)) e \<and>
      t_rb t = Some r \<and> ks_rbs (drv_k d) r \<noteq> None) \<and>
    distinct (ks_cpu_list (drv_k d) c) \<and> distinct (ks_wait_list (drv_k d)) \<and>
    (a \<in> set (ks_cpu_list (drv_k d) c) \<longrightarrow> a \<notin> set (ks_wait_list (drv_k d)) \<and>
      (\<forall>c'. a \<in> set (ks_cpu_list (drv_k d) c') \<longrightarrow> c' = c))"
proof -
  note i = drv_reach_kinv [OF assms(1)]
  have "runnable (drv_k d) a" using assms(2) lists_okD(4,6) [OF i] by blast
  then obtain t where t: "ks_tasks (drv_k d) a = Some t" "t_p t \<noteq> None" by (auto simp: runnable_def)
  have "runnable (drv_k d) a" using t by (simp add: runnable_def)
  from runnable_refs [OF i this] t obtain r ea e where "t_rb t = Some r" "ks_rbs (drv_k d) r \<noteq> None"
    "t_envir t = Some ea" "ks_envirs (drv_k d) ea = Some e" "envir_refs_ok (ks_evsets (drv_k d)) e" by force
  with t lists_okD [OF i] show ?thesis by blast
qed

theorem listed_tasks_usable_witness:
  "\<exists>d t. drv_reach d \<and> 20 \<in> set (ks_cpu_list (drv_k d) 0) \<and> ks_tasks (drv_k d) 20 = Some t \<and> t_rb t \<noteq> None"
proof -
  obtain d where "drv_reach d" "ks_cpu_list (drv_k d) 0 = [20]" by (rule ex_registered)
  with listed_tasks_usable [of d 20 0] show ?thesis by fastforce
qed

section \<open>Registering and unregistering\<close>

text \<open>
  The search of \<^verbatim>\<open>smon_create_task\<close> finds the first process that has the pid; there being none, it
  ends at \<^verbatim>\<open>init_task\<close>.
\<close>

lemma find_process_first:
  "find_process pid ks = (case find (\<lambda>q. ks_pid ks q = pid) (ks_processes ks) of Some q \<Rightarrow> q | None \<Rightarrow> ks_init_task ks)"
proof -
  have "(case filter P xs of [] \<Rightarrow> d | q # _ \<Rightarrow> q) = (case find P xs of Some q \<Rightarrow> q | None \<Rightarrow> d)" for P xs and d :: addr
    by (induction xs) auto
  then show ?thesis by (simp add: find_process_def)
qed

text \<open>
  C16: in a state of the driver's invariant (every state of C5 is one), registering a task, for an environment of 1 to 32
  registered event-sets, a buffer that is mapped, unused addresses and fewer than \<open>2\<^sup>3\<^sup>1\<close> tasks, makes a task of the pid with this buffer, whose process is the first one that has the pid and,
  when there is none, the kernel's initial process; it puts the task on the list of monitored tasks and
  either on the list of those that wait for their exec or on the list of its processor, as the
  environment asks. Without memory for the task or its environment nothing is changed and the call fails;
  without memory for the extra data the code does not fail but follows the NULL pointer.
\<close>

theorem register_task:
  assumes "kinv ks" and "register_ok alloc envir_alloc True envir r ks"
  shows "case (alloc, envir_alloc) of
      (Some a, Some ea) \<Rightarrow>
        smon_sched_register_task alloc envir_alloc False pid envir r ks = None \<and>
        (\<exists>ks' t p. smon_sched_register_task alloc envir_alloc True pid envir r ks = Some (0, ks') \<and>
          kinv ks' \<and> ks_tasks ks' a = Some t \<and> t_pid t = pid \<and> t_rb t = Some r \<and> t_p t = Some p \<and>
          (case find (\<lambda>q. ks_pid ks q = pid) (ks_processes ks) of Some q \<Rightarrow> p = q | None \<Rightarrow> p = ks_init_task ks) \<and>
          ks_task_list ks' = a # ks_task_list ks \<and>
          (if envir_option_exec envir
           then ks_wait_list ks' = a # ks_wait_list ks \<and> ks_cpu_list ks' = ks_cpu_list ks
           else ks_wait_list ks' = ks_wait_list ks \<and>
             ks_cpu_list ks' = (ks_cpu_list ks)(ks_task_cpu ks p := a # ks_cpu_list ks (ks_task_cpu ks p))))
    | _ \<Rightarrow> smon_sched_register_task alloc envir_alloc x pid envir r ks = Some (- 1, ks)"
proof (cases "alloc = None \<or> envir_alloc = None")
  case True
  then show ?thesis by (auto simp: register_task_fail split: option.splits)
next
  case False
  then obtain a ea where a: "alloc = Some a" "envir_alloc = Some ea" by auto
  obtain ks' where k: "smon_sched_register_task (Some a) (Some ea) True pid envir r ks = Some (0, ks')" "kinv ks'"
    "task_added a envir ks ks'" "map_option t_pid (ks_tasks ks' a) = Some pid"
    "map_option t_rb (ks_tasks ks' a) = Some (Some r)" "map_option t_p (ks_tasks ks' a) = Some (Some (find_process pid ks))"
    by (rule register_task_spec [OF assms(1) assms(2) [unfolded a]])
  then obtain t where t: "ks_tasks ks' a = Some t" "t_pid t = pid" "t_rb t = Some r" "t_p t = Some (find_process pid ks)"
    by auto
  have p: "case find (\<lambda>q. ks_pid ks q = pid) (ks_processes ks) of Some q \<Rightarrow> find_process pid ks = q
      | None \<Rightarrow> find_process pid ks = ks_init_task ks"
    by (simp add: find_process_first split: option.split)
  have added: "ks_task_list ks' = a # ks_task_list ks"
    "if envir_option_exec envir then ks_wait_list ks' = a # ks_wait_list ks \<and> ks_cpu_list ks' = ks_cpu_list ks
     else ks_wait_list ks' = ks_wait_list ks \<and> ks_cpu_list ks' = (ks_cpu_list ks)
       (ks_task_cpu ks (find_process pid ks) := a # ks_cpu_list ks (ks_task_cpu ks (find_process pid ks)))"
    using k(3) t by (auto simp: task_added_def Let_def)
  show ?thesis unfolding a prod.case option.case
    by (intro exI [of _ ks'] exI [of _ t] exI [of _ "find_process pid ks"] conjI register_no_extra k(1,2) t p added)
qed

theorem register_task_witness:
  "\<exists>ks'. smon_sched_register_task (Some 20) (Some 30) True 7 ex_envir 10 ex_idle = Some (0, ks') \<and>
     ks_task_list ks' = [20] \<and> ks_cpu_list ks' 0 = [20]"
proof -
  have "\<not> envir_option_exec ex_envir" by (simp add: ex_envir_def envir_option_defs envop_defs)
  with register_task [OF ex_idle_inv ex_register_ok, where pid = 7] show ?thesis by (auto simp: ex_idle_def)
qed

text \<open>
  C15: in a state of the driver's invariant (every state of C5 is one), unregistering a task that has exited with all its descendants, for none of which interrupt work is still
  queued, frees the whole ring of them, however they are nested, takes the task off the list of monitored
  tasks, ends, and changes no other task, no buffer and no list of a processor or of waiting tasks.
\<close>

theorem unregister_frees_family:
  assumes "kinv ks" and "find_entry (\<lambda>t. t_pid t = pid) ks (ks_task_list ks) = Some (Some a)"
    and "\<forall>c \<in> family ks a. retired ks c"
  shows "\<exists>ks'. smon_sched_unregister_task pid ks = Some (0, ks') \<and> kinv ks' \<and>
    ks_tasks ks' = (\<lambda>x. if x \<in> family ks a then None else ks_tasks ks x) \<and>
    ks_task_list ks' = remove1 a (ks_task_list ks) \<and> ks_cpu_list ks' = ks_cpu_list ks \<and>
    ks_wait_list ks' = ks_wait_list ks \<and> ks_rbs ks' = ks_rbs ks"
proof -
  have "a \<in> set (ks_task_list ks)" using find_entry_Some [OF assms(2)] by simp
  then obtain ks' where k: "unregister_at a ks = Some ks'" "kinv ks'"
    "dom (ks_tasks ks') = dom (ks_tasks ks) - family ks a" "ks_task_list ks' = remove1 a (ks_task_list ks)"
    "ks_rbs ks' = ks_rbs ks" "\<forall>x. x \<notin> family ks a \<longrightarrow> ks_tasks ks' x = ks_tasks ks x"
    "ks_cpu_list ks' = ks_cpu_list ks" "ks_wait_list ks' = ks_wait_list ks"
    by (rule unregister_at_spec [OF assms(1) _ assms(3)])
  have "ks_tasks ks' = (\<lambda>x. if x \<in> family ks a then None else ks_tasks ks x)"
    using k(3,6) by (auto simp: fun_eq_iff)
  then show ?thesis using k assms(2) by (simp add: smon_sched_unregister_task_def)
qed

theorem unregister_frees_family_witness:
  "\<exists>ks'. smon_sched_unregister_task 7 (ex_kernel False) = Some (0, ks') \<and> ks_tasks ks' = Map.empty \<and> ks_task_list ks' = []"
proof -
  have f: "find_entry (\<lambda>t. t_pid t = 7) (ex_kernel False) (ks_task_list (ex_kernel False)) = Some (Some 20)"
    by (simp add: ex_kernel_fields ex_task_fields)
  have "\<forall>c \<in> family (ex_kernel False) 20. retired (ex_kernel False) c"
    by (simp add: ex_family retired_def ex_kernel_fields ex_task_fields)
  then obtain ks' where "smon_sched_unregister_task 7 (ex_kernel False) = Some (0, ks')"
    "ks_tasks ks' = (\<lambda>x. if x = 20 then None else ks_tasks (ex_kernel False) x)" "ks_task_list ks' = []"
    using unregister_frees_family [OF ex_kernel_inv f] by (auto simp: ex_family ex_kernel_fields(4))
  then show ?thesis by (simp add: fun_eq_iff ex_kernel_fields)
qed

text \<open>
  C36: in a state of the driver's invariant (every state of C5 is one), a task that is unregistered while it is the task
  of a process on the list of the processor, its monitored descendants, if any, having exited with no interrupt work
  queued, is freed but stays on the list of the processor: the call succeeds, and the next switch away from the
  process and its exit both follow the dangling pointer.
\<close>

theorem unregister_running_dangles:
  assumes "kinv ks" and "find_entry (\<lambda>t. t_pid t = pid) ks (ks_task_list ks) = Some (Some a)"
    and "find_entry (\<lambda>t. t_p t = Some p) ks (ks_cpu_list ks (ks_task_cpu ks p)) = Some (Some a)"
    and "\<forall>c \<in> family ks a - {a}. retired ks c"
  shows "\<exists>ks'. smon_sched_unregister_task pid ks = Some (0, ks') \<and> ks_tasks ks' a = None \<and>
    a \<in> set (ks_cpu_list ks' (ks_task_cpu ks' p)) \<and> smon_sched_switch p next rem ks' = None \<and>
    smon_sched_process_exit p ks' = None"
proof -
  have a: "a \<in> set (ks_task_list ks)" "a \<in> set (ks_cpu_list ks (ks_task_cpu ks p))"
    using find_entry_Some [OF assms(2)] find_entry_Some [OF assms(3)] by simp_all
  obtain ks' where k: "unregister_at a ks = Some ks'" "ks_tasks ks' a = None" "ks_cpu_list ks' = ks_cpu_list ks"
    "ks_task_cpu ks' = ks_task_cpu ks" "find_entry (\<lambda>t. t_p t = Some p) ks' (ks_cpu_list ks (ks_task_cpu ks p)) = None"
    by (rule unregister_running_spec [OF assms(1) a(1) assms(4,3)])
  have "smon_sched_switch p next rem ks' = None" "smon_sched_process_exit p ks' = None"
    using k(3-5) by (simp_all add: smon_sched_switch_def smon_sched_process_exit_def Let_def)
  then show ?thesis using k a(2) assms(2) by (simp add: smon_sched_unregister_task_def)
qed

theorem unregister_running_dangles_witness:
  "\<exists>ks'. smon_sched_unregister_task 7 (ex_kernel True) = Some (0, ks') \<and> ks_tasks ks' 20 = None \<and>
     smon_sched_switch 5 6 0 ks' = None"
proof -
  have "find_entry (\<lambda>t. t_pid t = 7) (ex_kernel True) (ks_task_list (ex_kernel True)) = Some (Some 20)"
    "find_entry (\<lambda>t. t_p t = Some 5) (ex_kernel True) (ks_cpu_list (ex_kernel True) (ks_task_cpu (ex_kernel True) 5)) =
      Some (Some 20)"
    by (simp_all add: ex_kernel_fields ex_task_fields)
  from unregister_running_dangles [OF ex_kernel_inv this, of 6 0] show ?thesis by (auto simp: ex_family)
qed

section \<open>Timer and hooks\<close>

text \<open>
  C14: when the timer of a running task expires, the counters of the current event-set are read and written to
  the buffer as a sample that carries the task, the event-set and the time since the counters were
  started; the next event-set of the environment becomes current, the timer is started again for one
  sample time, and the new sample starts with no time in it.
\<close>

theorem timer_tick:
  assumes "kinv ks" and "ks_tasks ks a = Some t" and "t_timer_flags t AND SMON_TIMER_ON \<noteq> 0"
    and "task_envir t ks = Some e" and "t_rb t = Some r" and "ks_rbs ks r = Some rb"
  shows "\<exists>ks' t' s p. smon_sched_timer_tick a ks = Some (True, ks') \<and> ks_tasks ks' a = Some t' \<and>
    smon_envir_get_evset e (t_evset t) (ks_evsets ks) = Some (Some s) \<and>
    smon_pmc_read (Some s) (smon_pmc_stop (ks_mach ks)) = Some p \<and>
    ks_rbs ks' r = smon_rb_write SAMPLE_TYPE_PMC (pmc_image
      \<lparr>sp_start = sp_start (t_sample_pmc t), sp_stop = read_clock ks,
       sp_duration = sp_duration (t_sample_pmc t) + (read_clock ks - t_tsc_tmp t), sp_pid = t_pid t, sp_pmc = p,
       sp_evset = t_evset t\<rparr>) rb \<and>
    unat (t_evset t') = Suc (unat (t_evset t)) mod unat (n_esids e) \<and>
    t_kt_remain t' = ktime_of_ms (sample_time e) \<and> tm_kt (t_timer t') = ktime_of_ms (sample_time e) \<and>
    sp_duration (t_sample_pmc t') = 0"
  using timer_tick_effect [OF assms] unfolding finished_sample_def by metis

theorem timer_tick_witness:
  "\<exists>ks' t'. smon_sched_timer_tick 20 (ex_kernel True) = Some (True, ks') \<and> ks_tasks ks' 20 = Some t' \<and>
     t_kt_remain t' = ktime_of_ms 10 \<and>
     ks_rbs ks' 10 = smon_rb_write SAMPLE_TYPE_PMC (pmc_image \<lparr>sp_start = 0, sp_stop = 1, sp_duration = 1, sp_pid = 7,
       sp_pmc = \<lparr>fx = [0, 0, 0], gp = [0, 0, 0, 0]\<rparr>, sp_evset = 0\<rparr>) (ex_rb 1)"
proof -
  have t: "ks_tasks (ex_kernel True) 20 = Some (ex_task True)" "task_envir (ex_task True) (ex_kernel True) = Some ex_envir"
    "t_rb (ex_task True) = Some 10" "ks_rbs (ex_kernel True) 10 = Some (ex_rb 1)"
    "t_timer_flags (ex_task True) AND SMON_TIMER_ON \<noteq> 0"
    by (simp_all add: ex_kernel_fields ex_task_fields task_envir_def SMON_TIMER_ON_def)
  have c: "read_clock (ex_kernel True) = 1" by (simp add: read_clock_def ex_kernel_fields ex_mach_def)
  have s: "smon_envir_get_evset ex_envir 0 (ks_evsets (ex_kernel True)) = Some (Some ex_evset)"
    by (simp add: smon_envir_get_evset_def envir_esid_def ex_envir_def ex_kernel_fields smon_get_evset_def ex_config_def slot_load_def)
  have p: "smon_pmc_read (Some ex_evset) (smon_pmc_stop (ks_mach (ex_kernel True))) =
      Some \<lparr>fx = [0, 0, 0], gp = [0, 0, 0, 0]\<rparr>"
    by (simp add: smon_pmc_read_def smon_pmc_stop_def msr_read_write ex_evset_def ex_kernel_fields ex_mach_def
        msr_read_regs msr_write_regs fx_enabled_def MAX_FX_CTRS_def ia32_defs upt_conv_Cons)
  have z: "sp_start zero_sample_pmc = 0" "sp_duration zero_sample_pmc = 0" by (simp_all add: zero_sample_pmc_def)
  have st: "sample_time ex_envir = 10" by (simp add: ex_envir_def)
  show ?thesis
    using timer_tick [OF ex_kernel_inv t(1) t(5) t(2) t(3) t(4)]
    by (simp add: ex_task_fields c s p z st) blast
qed

text \<open>
  C34: the interval of the timer is the sample time in nanoseconds for sample times up to 4294 ms, and for no
  longer one: the product is computed in 32 bits.
\<close>

theorem sample_time_range:
  "unat (ktime_of_ms ms) = unat ms * 1000000 \<longleftrightarrow> unat ms \<le> 4294"
proof -
  have "unat (ktime_of_ms ms) = unat ms * 1000000 mod 2 ^ 32"
    by (simp add: ktime_of_ms_def MS_TO_NS_def unat_ucast unat_word_ariths take_bit_eq_mod)
  moreover have "n * 1000000 mod 2 ^ 32 = n * 1000000 \<longleftrightarrow> n \<le> 4294" for n :: nat
  proof
    assume "n * 1000000 mod 2 ^ 32 = n * 1000000"
    moreover have "n * 1000000 mod 2 ^ 32 < 2 ^ 32" by (rule mod_less_divisor) simp
    ultimately have "n * 1000000 < 2 ^ 32" by simp
    then show "n \<le> 4294" by simp
  qed (simp add: mod_less)
  ultimately show ?thesis by simp
qed

text \<open>
  C18: when the process of a monitored task exits in a state of the driver's invariant (every state of C5 is one), and
  the task is on the list of the processor of the process and has a buffer, the task is taken off its processor's list, its timer is
  cancelled, it is cut off from the process and from its buffer; the counters of its current event-set are
  stopped and read (\<open>counters_now\<close>) and what they are now is written to the buffer as a last sample with the
  time up to now, and only then the buffer is released and has one writer less.
\<close>

theorem exit_retires_task:
  assumes "kinv ks" and "find_entry (\<lambda>t. t_p t = Some p) ks (ks_cpu_list ks (ks_task_cpu ks p)) = Some (Some a)"
    and "ks_tasks ks a = Some t" and "t_rb t = Some r" and "ks_rbs ks r = Some rb"
  shows "\<exists>ks' t' rb'. smon_sched_process_exit p ks = Some ks' \<and> ks_tasks ks' a = Some t' \<and>
    t_p t' = None \<and> t_rb t' = None \<and> \<not> tm_active (t_timer t') \<and> (\<forall>c. a \<notin> set (ks_cpu_list ks' c)) \<and>
    ks_rbs ks' r = Some rb' \<and> rb_active rb' = rb_active rb - 1 \<and>
    (\<exists>pm rb2. counters_now t ks = Some pm \<and>
       smon_rb_write SAMPLE_TYPE_PMC (pmc_image (finished_sample t (read_clock ks) pm)) rb = Some rb2 \<and>
       smon_release_rb rb2 = Some rb')"
  using exit_effect [OF assms] unfolding unlisted_def by metis

lemma ex_find: "find_entry (\<lambda>t. t_p t = Some 5) (ex_kernel True) (ks_cpu_list (ex_kernel True) (ks_task_cpu (ex_kernel True) 5)) =
    Some (Some 20)"
  by (simp add: ex_kernel_fields ex_task_fields)

theorem exit_retires_task_witness:
  "\<exists>ks' t' rb'. smon_sched_process_exit 5 (ex_kernel True) = Some ks' \<and> ks_tasks ks' 20 = Some t' \<and> t_p t' = None \<and>
     ks_rbs ks' 10 = Some rb' \<and> rb_active rb' = 0"
proof -
  have "ks_tasks (ex_kernel True) 20 = Some (ex_task True)" "t_rb (ex_task True) = Some 10"
    "ks_rbs (ex_kernel True) 10 = Some (ex_rb 1)" "rb_active (ex_rb 1) = 1"
    by (simp_all add: ex_kernel_fields ex_task_fields ex_rb_def)
  with exit_retires_task [OF ex_kernel_inv ex_find, of "ex_task True" 10 "ex_rb 1"] show ?thesis by auto
qed

text \<open>
  C17: when a monitored process forks and its environment is inherited, the child is monitored as a task of its
  own with its own pid, with the same environment and the same buffer, on the list of its processor.
\<close>

theorem fork_monitors_child:
  assumes "kinv ks"
    and "find_entry (\<lambda>t. t_p t = Some parent) ks (ks_cpu_list ks (ks_task_cpu ks parent)) = Some (Some h)"
    and "ks_tasks ks h = Some u" and "task_envir u ks = Some e" and "envir_option_inherit e" and "fresh_task ks a"
  shows "\<exists>ks' t. smon_sched_process_fork (Some a) parent child ks = Some ks' \<and> kinv ks' \<and> ks_tasks ks' a = Some t \<and>
    t_p t = Some child \<and> t_pid t = ks_pid ks child \<and> t_envir t = t_envir u \<and> t_rb t = t_rb u \<and>
    ks_cpu_list ks' = (ks_cpu_list ks)(ks_task_cpu ks child := a # ks_cpu_list ks (ks_task_cpu ks child))"
proof -
  obtain ks' t where "smon_sched_process_fork (Some a) parent child ks = Some ks'" "kinv ks'" "ks_tasks ks' a = Some t"
    "t_p t = Some child" "t_pid t = ks_pid ks child" "t_envir t = t_envir u" "t_rb t = t_rb u"
    "ks_cpu_list ks' = (ks_cpu_list ks)(ks_task_cpu ks child := a # ks_cpu_list ks (ks_task_cpu ks child))"
    by (rule fork_effect [OF assms, of child])
  then show ?thesis by blast
qed

theorem fork_monitors_child_witness:
  "\<exists>ks' t. smon_sched_process_fork (Some 21) 5 6 (ex_kernel True) = Some ks' \<and> ks_tasks ks' 21 = Some t \<and>
     t_pid t = 8 \<and> t_rb t = Some 10 \<and> ks_cpu_list ks' 0 = [21, 20]"
proof -
  have "ks_tasks (ex_kernel True) 20 = Some (ex_task True)" "task_envir (ex_task True) (ex_kernel True) = Some ex_envir"
    "envir_option_inherit ex_envir" "fresh_task (ex_kernel True) 21"
    by (simp_all add: ex_kernel_fields ex_task_fields task_envir_def ex_envir_def envir_option_defs envop_defs
        fresh_task_def)
  from fork_monitors_child [OF ex_kernel_inv ex_find this, of 6] show ?thesis
    by (auto simp: ex_kernel_fields ex_task_fields)
qed

section \<open>Loading and the ioctl interface\<close>

text \<open>
  C33: loading the module is all or nothing: it succeeds exactly when the device numbers and the memory for both
  tables are granted, and then the driver is in a state of its invariant; otherwise the device numbers
  are given back and both tables are as they were before.
\<close>

theorem load_all_or_nothing:
  assumes "blank ks"
  shows "\<exists>r md' ks'. smon_init chr ev_ok es_ok added (md, ks) = Some (r, md', ks') \<and>
    (r = 0 \<longleftrightarrow> 0 \<le> fst chr \<and> ev_ok \<and> es_ok) \<and>
    (if r = 0 then kinv ks' \<and> md_chrdev md' \<and> ks_task_list ks' = []
     else r < 0 \<and> \<not> md_chrdev md' \<and> ks_events ks' = event_table0 \<and> ks_evsets ks' = evset_table0)"
proof -
  have "\<exists>r md' ks'. smon_init chr ev_ok es_ok added (md, ks) = Some (r, md', ks') \<and>
    (r = 0 \<longleftrightarrow> 0 \<le> fst chr \<and> ev_ok \<and> es_ok) \<and>
    (if r = 0 then md_chrdev md' \<and> ks_task_list ks' = []
     else r < 0 \<and> \<not> md_chrdev md' \<and> ks_events ks' = event_table0 \<and> ks_evsets ks' = evset_table0)"
    using assms by (auto simp: smon_init_def Let_def blank_def smon_event_init_def smon_evset_init_def smon_sched_init_def
        smon_setup_cdev_def smon_event_exit_def event_table0_def evset_table0_def sme_defs slots_clear.simps)
  with init_kinv [OF assms, of chr ev_ok es_ok added md] show ?thesis by metis
qed

theorem load_all_or_nothing_witness:
  "\<exists>r md' ks'. smon_init (0, 240) True False True (ex_module, ex_blank) = Some (r, md', ks') \<and> r < 0 \<and>
     ks_events ks' = event_table0"
proof -
  from load_all_or_nothing [OF ex_blank_blank, of "(0, 240)" True False True ex_module] obtain r md' ks' where
    "smon_init (0, 240) True False True (ex_module, ex_blank) = Some (r, md', ks')" "r < 0" "ks_events ks' = event_table0"
    by (auto split: if_splits)
  then show ?thesis by blast
qed

text \<open>
  A command that is none of the ten is refused with an error, whatever its argument is, and nothing is
  read, copied or changed.
\<close>

lemma unknown_ioctl_refused:
  assumes "cmd \<notin> insert SMON_IOCRESET (word_cmds \<union> struct_cmds)"
  shows "\<exists>r. smon_ioctl ka p cmd arg ks = Some (r, arg, ks) \<and> (r = - ENOTTY \<or> r = - EFAULT)"
  using assms by (auto simp: smon_ioctl_def word_cmds_def struct_cmds_def)

lemma unknown_ioctl_refused_witness:
  "\<exists>r. smon_ioctl ex_answers None 0x4004A60A (ArgWord 0) ex_idle = Some (r, ArgWord 0, ex_idle) \<and> (r = - ENOTTY \<or> r = - EFAULT)"
  by (rule unknown_ioctl_refused) (simp add: word_cmds_def struct_cmds_def)

text \<open>
  The command with which the reader reports what it has consumed does move the tail of the buffer, but the
  case has no break: the call always returns the error of an unknown command.
\<close>

lemma read_ioctl_fails:
  assumes "ks_rbs ks r = Some rb" and "ka_access ka"
  shows "smon_ioctl ka (Some r) SMON_IOCREAD (ArgStruct \<lparr>ioc_ptr = IocItems items, ioc_word = sz\<rparr>) ks =
    Some (- ENOTTY, ArgStruct \<lparr>ioc_ptr = IocItems items, ioc_word = sz\<rparr>, put_rb r (smon_rb_read items sz rb) ks)"
  using assms by (simp add: smon_ioctl_def ioctl_access ioctl_read_def SMON_IOC_MAXNR_def)

lemma read_ioctl_fails_witness:
  "\<exists>ks'. smon_ioctl ex_answers (Some 10) SMON_IOCREAD (ArgStruct \<lparr>ioc_ptr = IocItems 1, ioc_word = 20\<rparr>) ex_idle =
     Some (- ENOTTY, ArgStruct \<lparr>ioc_ptr = IocItems 1, ioc_word = 20\<rparr>, ks')"
  using read_ioctl_fails [of ex_idle 10 "ex_rb 0" ex_answers 1 20] by (simp add: ex_idle_def ex_answers_def)

end
