(* ===== verification/Locks.thy ===== *)
theory Locks
  imports Prelude
begin

text \<open>
  Spinlocks and several processors. What a call does to the locks is the list of its lock operations;
  a machine of any number of processors runs such lists against one table of owners. The discipline
  is the usual one: the locks have ranks, a lock is only taken while all locks held have a lower rank,
  only locks that are held are released, nothing is held at the end, and data that a lock guards is
  only touched while the lock is held.
\<close>

datatype 'l lock_op = Acquire 'l | Release 'l | Touch 'l

section \<open>The discipline\<close>

text \<open>\<open>hs\<close> are the locks held, \<open>g\<close> tells for which locks accesses are checked.\<close>

fun lock_run :: "('l \<Rightarrow> nat) \<Rightarrow> ('l \<Rightarrow> bool) \<Rightarrow> 'l list \<Rightarrow> 'l lock_op list \<Rightarrow> 'l list option" where
  "lock_run rank g hs [] = Some hs"
| "lock_run rank g hs (Acquire l # xs) =
     (if list_all (\<lambda>h. rank h < rank l) hs then lock_run rank g (l # hs) xs else None)"
| "lock_run rank g hs (Release l # xs) = (if l \<in> set hs then lock_run rank g (remove1 l hs) xs else None)"
| "lock_run rank g hs (Touch l # xs) = (if g l \<longrightarrow> l \<in> set hs then lock_run rank g hs xs else None)"

definition disciplined :: "('l \<Rightarrow> nat) \<Rightarrow> ('l \<Rightarrow> bool) \<Rightarrow> 'l lock_op list \<Rightarrow> bool" where
  "disciplined rank g xs \<longleftrightarrow> lock_run rank g [] xs = Some []"

lemma lock_run_append: "lock_run rank g hs (xs @ ys) = Option.bind (lock_run rank g hs xs) (\<lambda>ks. lock_run rank g ks ys)"
  by (induction rank g hs xs rule: lock_run.induct) simp_all

lemma lock_run_weaken:
  "lock_run rank g hs xs = Some ks \<Longrightarrow> (\<And>l. g' l \<Longrightarrow> g l) \<Longrightarrow> lock_run rank g' hs xs = Some ks"
  by (induction rank g hs xs rule: lock_run.induct) (auto split: if_splits)

text \<open>The locks held after some operations, whatever the discipline.\<close>

fun holding :: "'l list \<Rightarrow> 'l lock_op list \<Rightarrow> 'l list" where
  "holding hs [] = hs"
| "holding hs (Acquire l # xs) = holding (l # hs) xs"
| "holding hs (Release l # xs) = holding (remove1 l hs) xs"
| "holding hs (Touch l # xs) = holding hs xs"

lemma lock_run_holding: "lock_run rank g hs xs = Some ks \<Longrightarrow> holding hs xs = ks"
  by (induction rank g hs xs rule: lock_run.induct) (auto split: if_splits)

text \<open>
  What one processor does: calls one after the other, each of which may be interrupted by further calls
  where no lock is held. \<^verbatim>\<open>spin_lock_irqsave\<close> keeps interrupts off while one is.
\<close>

inductive_set programs :: "'l lock_op list set \<Rightarrow> 'l lock_op list set" for calls where
  idle: "[] \<in> programs calls"
| call: "xs \<in> calls \<Longrightarrow> ys \<in> programs calls \<Longrightarrow> xs @ ys \<in> programs calls"
| interrupt: "xs @ ys \<in> programs calls \<Longrightarrow> holding [] xs = [] \<Longrightarrow> zs \<in> calls \<Longrightarrow> xs @ zs @ ys \<in> programs calls"

section \<open>Several processors\<close>

record 'l machine =
  lk_owner :: "'l \<Rightarrow> nat option"
  lk_todo :: "nat \<Rightarrow> 'l lock_op list"

text \<open>A processor that wants a lock of another one spins: it makes no step.\<close>

fun lock_op_exec :: "nat \<Rightarrow> 'l lock_op \<Rightarrow> ('l \<Rightarrow> nat option) \<Rightarrow> ('l \<Rightarrow> nat option) option" where
  "lock_op_exec i (Acquire l) ow = (if ow l = None then Some (ow(l \<mapsto> i)) else None)"
| "lock_op_exec i (Release l) ow = (if ow l = Some i then Some (ow(l := None)) else None)"
| "lock_op_exec i (Touch l) ow = Some ow"

definition lock_step :: "nat \<Rightarrow> 'l machine \<Rightarrow> 'l machine option" where
  "lock_step i m = (case lk_todo m i of [] \<Rightarrow> None
     | x # xs \<Rightarrow> map_option (\<lambda>ow. \<lparr>lk_owner = ow, lk_todo = (lk_todo m)(i := xs)\<rparr>) (lock_op_exec i x (lk_owner m)))"

inductive lock_reach :: "(nat \<Rightarrow> 'l lock_op list) \<Rightarrow> 'l machine \<Rightarrow> bool" for progs where
  lock_start: "lock_reach progs \<lparr>lk_owner = Map.empty, lk_todo = progs\<rparr>"
| lock_next: "lock_reach progs m \<Longrightarrow> lock_step i m = Some m' \<Longrightarrow> lock_reach progs m'"

definition finished :: "'l machine \<Rightarrow> bool" where
  "finished m \<longleftrightarrow> (\<forall>i. lk_todo m i = []) \<and> (\<forall>l. lk_owner m l = None)"

definition todo_left :: "nat \<Rightarrow> 'l machine \<Rightarrow> nat" where
  "todo_left n m = (\<Sum>i<n. length (lk_todo m i))"

lemma lock_step_less:
  assumes "lock_step i m = Some m'" and "i < n"
  shows "todo_left n m' < todo_left n m"
proof -
  from assms(1) obtain x xs ow where x: "lk_todo m i = x # xs" "m' = \<lparr>lk_owner = ow, lk_todo = (lk_todo m)(i := xs)\<rparr>"
    by (auto simp: lock_step_def split: list.splits)
  show ?thesis unfolding todo_left_def
    by (rule sum_strict_mono_ex1) (use assms(2) x in \<open>auto intro!: bexI [of _ i]\<close>)
qed

lemma lock_reach_schedule: "fold_opt lock_step is \<lparr>lk_owner = Map.empty, lk_todo = progs\<rparr> = Some m \<Longrightarrow> lock_reach progs m"
proof -
  have "lock_reach progs m0 \<Longrightarrow> fold_opt lock_step is m0 = Some m \<Longrightarrow> lock_reach progs m" for m0
    by (induction "is" arbitrary: m0) (auto simp: bind_eq_Some_conv intro: lock_next)
  then show "fold_opt lock_step is \<lparr>lk_owner = Map.empty, lk_todo = progs\<rparr> = Some m \<Longrightarrow> lock_reach progs m"
    by (blast intro: lock_start)
qed

section \<open>Disciplined calls never block each other for good\<close>

locale lock_order =
  fixes rank :: "'l \<Rightarrow> nat" and guarded :: "'l \<Rightarrow> bool" and calls :: "'l lock_op list set"
  assumes ordered: "xs \<in> calls \<Longrightarrow> disciplined rank guarded xs"
begin

lemma program_disciplined: "xs \<in> programs calls \<Longrightarrow> disciplined rank guarded xs"
proof (induction rule: programs.induct)
  case (call xs ys)
  then show ?case using ordered [OF call(1)] by (simp add: disciplined_def lock_run_append)
next
  case (interrupt xs ys zs)
  then obtain hs where hs: "lock_run rank guarded [] xs = Some hs" "lock_run rank guarded hs ys = Some []"
    by (auto simp: disciplined_def lock_run_append bind_eq_Some_conv)
  moreover from lock_run_holding [OF hs(1)] interrupt(2) have "hs = []" by simp
  ultimately show ?case using ordered [OF interrupt(3)] by (simp add: disciplined_def lock_run_append)
qed (simp add: disciplined_def)

text \<open>The locks a processor owns are the ones its remaining operations start from.\<close>

definition in_order :: "'l machine \<Rightarrow> bool" where
  "in_order m \<longleftrightarrow> (\<forall>i. \<exists>hs. distinct hs \<and> (\<forall>l. l \<in> set hs \<longleftrightarrow> lk_owner m l = Some i) \<and>
     lock_run rank guarded hs (lk_todo m i) = Some [])"

lemma in_orderD:
  "in_order m \<Longrightarrow> \<exists>hs. distinct hs \<and> (\<forall>l. l \<in> set hs \<longleftrightarrow> lk_owner m l = Some i) \<and>
     lock_run rank guarded hs (lk_todo m i) = Some []"
  by (simp add: in_order_def)

lemma step_in_order:
  assumes m: "in_order m" and s: "lock_step i m = Some m'"
  shows "in_order m'"
  unfolding in_order_def
proof
  fix j
  from s obtain x xs ow where x: "lk_todo m i = x # xs" "lock_op_exec i x (lk_owner m) = Some ow"
    and m': "m' = \<lparr>lk_owner = ow, lk_todo = (lk_todo m)(i := xs)\<rparr>"
    by (auto simp: lock_step_def split: list.splits)
  from in_orderD [OF m, of j] obtain hs where hs: "distinct hs" "\<forall>l. l \<in> set hs \<longleftrightarrow> lk_owner m l = Some j"
    "lock_run rank guarded hs (lk_todo m j) = Some []" by blast
  show "\<exists>hs. distinct hs \<and> (\<forall>l. l \<in> set hs \<longleftrightarrow> lk_owner m' l = Some j) \<and>
      lock_run rank guarded hs (lk_todo m' j) = Some []"
  proof (cases "j = i")
    case False
    then have "\<forall>l. lk_owner m' l = Some j \<longleftrightarrow> lk_owner m l = Some j"
      using x(2) by (cases x) (auto simp: m' split: if_splits)
    moreover have "lk_todo m' j = lk_todo m j" using False by (simp add: m')
    ultimately show ?thesis using hs by (intro exI [of _ hs]) simp
  next
    case True
    show ?thesis
    proof (cases x)
      case (Acquire l)
      with x have ow: "lk_owner m l = None" "lk_owner m' = (lk_owner m)(l \<mapsto> i)" "lk_todo m' i = xs"
        by (auto simp: m' split: if_splits)
      have "lock_run rank guarded (l # hs) xs = Some []" "l \<notin> set hs"
        using hs(2,3) x(1) Acquire True ow(1) by (auto split: if_splits)
      then show ?thesis using hs(1,2) ow True by (intro exI [of _ "l # hs"]) auto
    next
      case (Release l)
      with x have ow: "lk_owner m' = (lk_owner m)(l := None)" "lk_todo m' i = xs"
        by (auto simp: m' split: if_splits)
      have "lock_run rank guarded (remove1 l hs) xs = Some []"
        using hs(3) x(1) Release True by (simp split: if_splits)
      then show ?thesis using hs(1,2) ow True by (intro exI [of _ "remove1 l hs"]) auto
    next
      case (Touch l)
      with x have "lk_owner m' = lk_owner m" "lk_todo m' i = xs" by (auto simp: m')
      moreover have "lock_run rank guarded hs xs = Some []"
        using hs(3) x(1) Touch True by (auto split: if_splits)
      ultimately show ?thesis using hs(1,2) True by (intro exI [of _ hs]) simp
    qed
  qed
qed

lemma reach_in_order:
  assumes "lock_reach progs m" and "\<And>i. progs i \<in> programs calls"
  shows "in_order m"
  using assms(1)
proof induction
  case lock_start
  show ?case unfolding in_order_def
    using program_disciplined [OF assms(2)] by (auto simp: disciplined_def intro!: exI [of _ "[]"])
qed (rule step_in_order)

text \<open>A processor that cannot move waits for a lock that another one owns.\<close>

lemma blocked_waits:
  assumes m: "in_order m" and b: "lock_step i m = None" and t: "lk_todo m i \<noteq> []"
  obtains l j where "hd (lk_todo m i) = Acquire l" "lk_owner m l = Some j" "lk_todo m j \<noteq> []"
    "\<And>k. lk_owner m k = Some i \<Longrightarrow> rank k < rank l"
proof -
  from t obtain x xs where x: "lk_todo m i = x # xs" by (auto simp: neq_Nil_conv)
  from in_orderD [OF m, of i] obtain hs where hs: "\<forall>l. l \<in> set hs \<longleftrightarrow> lk_owner m l = Some i"
    "lock_run rank guarded hs (x # xs) = Some []" by (auto simp: x)
  from b x have e: "lock_op_exec i x (lk_owner m) = None" by (simp add: lock_step_def)
  then obtain l j where l: "x = Acquire l" "lk_owner m l = Some j"
    using hs by (cases x) (auto split: if_splits)
  from in_orderD [OF m, of j] obtain hs' where "\<forall>l. l \<in> set hs' \<longleftrightarrow> lk_owner m l = Some j"
    "lock_run rank guarded hs' (lk_todo m j) = Some []" by blast
  then have "lk_todo m j \<noteq> []" using l(2) by (cases hs') auto
  moreover have "\<And>k. lk_owner m k = Some i \<Longrightarrow> rank k < rank l"
    using hs l(1) by (auto simp: list_all_iff split: if_splits)
  ultimately show thesis using that l x by simp
qed

lemma progress:
  assumes m: "in_order m" and n: "\<And>i. n \<le> i \<Longrightarrow> lk_todo m i = []" and b: "\<And>i. lock_step i m = None"
  shows "finished m"
proof -
  have idle: "lk_todo m i = []" for i
  proof (rule ccontr)
    assume i: "lk_todo m i \<noteq> []"
    define W where "W = {i. lk_todo m i \<noteq> []}"
    define want where "want i = (case hd (lk_todo m i) of Acquire l \<Rightarrow> rank l | _ \<Rightarrow> 0)" for i
    have "W \<subseteq> {..<n}" using n by (force simp: W_def not_less [symmetric])
    then have fin: "finite (want ` W)" "want ` W \<noteq> {}" using i by (auto simp: W_def intro: finite_subset)
    from Max_in [OF this] obtain k where k: "k \<in> W" "want k = Max (want ` W)" by auto
    have "lk_todo m k \<noteq> []" using k(1) by (simp add: W_def)
    from blocked_waits [OF m b this] obtain l j where
      l: "hd (lk_todo m k) = Acquire l" "lk_owner m l = Some j" "lk_todo m j \<noteq> []" by blast
    from blocked_waits [OF m b l(3)] obtain l' where l': "hd (lk_todo m j) = Acquire l'"
      "\<And>k. lk_owner m k = Some j \<Longrightarrow> rank k < rank l'" by metis
    have "want k < want j" using l l' by (simp add: want_def)
    moreover have "want j \<le> want k" unfolding k(2) using l(3) by (intro Max_ge fin) (simp add: W_def)
    ultimately show False by simp
  qed
  moreover have "lk_owner m l = None" for l
  proof (cases "lk_owner m l")
    case (Some i)
    from in_orderD [OF m, of i] obtain hs where "\<forall>l. l \<in> set hs \<longleftrightarrow> lk_owner m l = Some i"
      "lock_run rank guarded hs (lk_todo m i) = Some []" by blast
    then show ?thesis using Some idle [of i] by (cases hs) auto
  qed
  ultimately show ?thesis by (simp add: finished_def)
qed

lemma reach_idle: "lock_reach progs m \<Longrightarrow> progs i = [] \<Longrightarrow> lk_todo m i = []"
  by (induction rule: lock_reach.induct) (auto simp: lock_step_def split: list.splits)

lemma no_deadlock:
  assumes "lock_reach progs m" and "\<And>i. progs i \<in> programs calls" and "\<And>i. n \<le> i \<Longrightarrow> progs i = []"
    and "\<And>i. lock_step i m = None"
  shows "finished m"
  using progress [OF reach_in_order [OF assms(1,2)] _ assms(4)] reach_idle [OF assms(1) assms(3)] by blast

lemma no_race:
  assumes "lock_reach progs m" and "\<And>i. progs i \<in> programs calls" and "lk_todo m i = Touch l # xs" and "guarded l"
  shows "lk_owner m l = Some i"
  using in_orderD [OF reach_in_order [OF assms(1,2)], of i] assms(3,4) by (auto split: if_splits)

end

end
