(* ===== verification/Locked_Sched.thy ===== *)
theory Locked_Sched
  imports Locks Device Device_Mmap
begin

text \<open>
  The driver's functions once more, now with their spinlocks: \<^verbatim>\<open>driver/sched.c\<close> and what it calls of
  \<^verbatim>\<open>rb.c\<close>, \<^verbatim>\<open>sample.c\<close> and \<^verbatim>\<open>task.c\<close>. Each function carries the list of its lock operations so far
  beside the state. While a function waits for a lock the other processors may change the state: the
  interference \<open>env\<close> gives the change at each of its lock operations. Accesses to what a lock guards
  (a list of tasks, a ring of children, the positions and the data of a buffer) are recorded too.
\<close>

datatype smon_lock = TaskLock | WaitLock | CpuLock nat | ChildrenLock addr | RbLock addr

type_synonym interference = "nat \<Rightarrow> kstate \<Rightarrow> kstate"
type_synonym lk = "smon_lock lock_op list \<times> kstate"

definition calm :: interference where "calm = (\<lambda>n ks. ks)"

definition spin_lock :: "interference \<Rightarrow> smon_lock \<Rightarrow> lk \<Rightarrow> lk" where
  "spin_lock env l s = (fst s @ [Acquire l], env (length (fst s)) (snd s))"

definition spin_unlock :: "smon_lock \<Rightarrow> lk \<Rightarrow> lk" where
  "spin_unlock l s = (fst s @ [Release l], snd s)"

definition touching :: "smon_lock \<Rightarrow> lk \<Rightarrow> lk" where
  "touching l s = (fst s @ [Touch l], snd s)"

text \<open>Code that takes no lock, and code that works on what the lock \<open>l\<close> guards.\<close>

definition plain :: "(kstate \<Rightarrow> kstate option) \<Rightarrow> lk \<Rightarrow> lk option" where
  "plain f s = map_option (Pair (fst s)) (f (snd s))"

definition access :: "smon_lock \<Rightarrow> (kstate \<Rightarrow> kstate option) \<Rightarrow> lk \<Rightarrow> lk option" where
  "access l f s = plain f (touching l s)"

definition search :: "smon_lock \<Rightarrow> (smon_task \<Rightarrow> bool) \<Rightarrow> (kstate \<Rightarrow> addr list) \<Rightarrow> lk \<Rightarrow> (addr option \<times> lk) option" where
  "search l P xs s = map_option (\<lambda>a. (a, touching l s)) (find_entry P (snd s) (xs (snd s)))"

section \<open>The buffer\<close>

definition smon_rb_lock :: "interference \<Rightarrow> addr \<Rightarrow> lk \<Rightarrow> lk" where
  "smon_rb_lock env r s = spin_lock env (RbLock r) s"

definition smon_rb_unlock :: "addr \<Rightarrow> lk \<Rightarrow> lk" where
  "smon_rb_unlock r s = spin_unlock (RbLock r) s"

text \<open>A header of an unknown type returns before the lock is taken.\<close>

definition rb_write_at :: "addr \<Rightarrow> u32 \<Rightarrow> u8 list \<Rightarrow> kstate \<Rightarrow> kstate option" where
  "rb_write_at r ty sample ks = do { rb \<leftarrow> ks_rbs ks r; rb' \<leftarrow> smon_rb_write ty sample rb; Some (put_rb r rb' ks) }"

definition locked_rb_write :: "interference \<Rightarrow> addr \<Rightarrow> u32 \<Rightarrow> u8 list \<Rightarrow> lk \<Rightarrow> lk option" where
  "locked_rb_write env r ty sample s =
     (if sample_size_of ty = None then plain (rb_write_at r ty sample) s
      else do {
        let s = smon_rb_lock env r s;
        s \<leftarrow> access (RbLock r) (rb_write_at r ty sample) s;
        Some (smon_rb_unlock r s)
      })"

text \<open>The count of writers is atomic and has no lock.\<close>

definition locked_release_rb :: "interference \<Rightarrow> addr option \<Rightarrow> lk \<Rightarrow> lk option" where
  "locked_release_rb env p s = do {
     r \<leftarrow> p;
     rb \<leftarrow> ks_rbs (snd s) r;
     let rb = rb\<lparr>rb_active := rb_active rb - 1\<rparr>;
     s \<leftarrow> plain (Some \<circ> put_rb r rb) s;
     if rb_active rb = 0
     then do {
       s \<leftarrow> locked_rb_write env r SAMPLE_TYPE_EOF [] s;
       plain (\<lambda>ks. do { rb \<leftarrow> ks_rbs ks r; Some (put_rb r (rb\<lparr>rb_irq := True\<rparr>) ks) }) s
     }
     else Some s
   }"

definition locked_rb_read :: "interference \<Rightarrow> addr \<Rightarrow> u32 \<Rightarrow> u32 \<Rightarrow> lk \<Rightarrow> lk option" where
  "locked_rb_read env r items sz s = do {
     let s = smon_rb_lock env r s;
     s \<leftarrow> access (RbLock r) (\<lambda>ks. do { rb \<leftarrow> ks_rbs ks r; Some (put_rb r (smon_rb_read items sz rb) ks) }) s;
     Some (smon_rb_unlock r s)
   }"

definition locked_poll :: "interference \<Rightarrow> addr option \<Rightarrow> lk \<Rightarrow> (u32 \<times> lk) option" where
  "locked_poll env private_data s =
     (case private_data of
        None \<Rightarrow> Some (smon_poll None, s)
      | Some r \<Rightarrow> do {
          let s = touching (RbLock r) (smon_rb_lock env r s);
          rb \<leftarrow> ks_rbs (snd s) r;
          Some (smon_poll (Some rb), smon_rb_unlock r s)
        })"

section \<open>Samples\<close>

definition locked_sample_write :: "interference \<Rightarrow> addr option \<Rightarrow> u32 \<Rightarrow> u8 list \<Rightarrow> lk \<Rightarrow> lk option" where
  "locked_sample_write env p ty sample s =
     (case p of None \<Rightarrow> Some s | Some r \<Rightarrow> locked_rb_write env r ty sample s)"

definition locked_sample_save :: "interference \<Rightarrow> addr \<Rightarrow> lk \<Rightarrow> lk option" where
  "locked_sample_save env a s = do {
     t \<leftarrow> ks_tasks (snd s) a;
     let sample = (t_sample_pmc t)\<lparr>sp_pid := t_pid t, sp_evset := t_evset t\<rparr>;
     s \<leftarrow> locked_sample_write env (t_rb t) SAMPLE_TYPE_PMC (pmc_image sample) s;
     t \<leftarrow> ks_tasks (snd s) a;
     e \<leftarrow> task_envir t (snd s);
     next_evset \<leftarrow> smon_envir_next_evset e (t_evset t);
     plain (Some \<circ> put_task a (t\<lparr>t_sample_pmc := zero_sample_pmc, t_evset := next_evset\<rparr>)) s
   }"

definition locked_sched_save :: "interference \<Rightarrow> addr \<Rightarrow> lk \<Rightarrow> lk option" where
  "locked_sched_save env a s = do {
     t \<leftarrow> ks_tasks (snd s) a;
     locked_sample_write env (t_rb t) SAMPLE_TYPE_SCHED (sched_image (t_sample_sched t)) s
   }"

section \<open>Tasks and timers\<close>

definition locked_task_out :: "interference \<Rightarrow> addr \<Rightarrow> i64 \<Rightarrow> lk \<Rightarrow> lk option" where
  "locked_task_out env a remaining s = do {
     s \<leftarrow> plain (smon_sample_stop a) s;
     t \<leftarrow> ks_tasks (snd s) a;
     if tm_active (t_timer t)
     then do {
       s \<leftarrow> plain (modify_task a (\<lambda>t. t\<lparr>t_kt_remain := remaining\<rparr>)) s;
       s \<leftarrow> (if sint remaining \<le> 0 then locked_sample_save env a s else Some s);
       s \<leftarrow> plain (modify_task a (\<lambda>t. t\<lparr>t_timer_flags := t_timer_flags t AND NOT SMON_TIMER_ON\<rparr>)) s;
       s \<leftarrow> plain (Some \<circ> irq_work_queue (StopPmc a)) s;
       t \<leftarrow> ks_tasks (snd s) a;
       e \<leftarrow> task_envir t (snd s);
       if envir_option_sched e
       then do { s \<leftarrow> plain (smon_sample_sched_out a) s; locked_sched_save env a s }
       else Some s
     }
     else Some s
   }"

definition locked_timer_tick :: "interference \<Rightarrow> addr \<Rightarrow> lk \<Rightarrow> (bool \<times> lk) option" where
  "locked_timer_tick env a s = do {
     t \<leftarrow> ks_tasks (snd s) a;
     if t_timer_flags t AND SMON_TIMER_ON \<noteq> 0
     then do {
       s \<leftarrow> plain (smon_sample_stop a) s;
       s \<leftarrow> locked_sample_save env a s;
       t \<leftarrow> ks_tasks (snd s) a;
       e \<leftarrow> task_envir t (snd s);
       let kt = ktime_of_ms (sample_time e);
       let t = t\<lparr>t_timer := hrtimer_forward kt (t_timer t)\<rparr>;
       let t = t\<lparr>t_kt_remain := kt\<rparr>;
       s \<leftarrow> plain (smon_sample_start a \<circ> put_task a t) s;
       Some (True, s)
     }
     else Some (False, s)
   }"

text \<open>The extra data belongs to the callback while it runs: no other function writes its sample.\<close>

definition locked_timer_rapl :: "interference \<Rightarrow> addr \<Rightarrow> lk \<Rightarrow> (bool \<times> lk) option" where
  "locked_timer_rapl env a s = do {
     t \<leftarrow> ks_tasks (snd s) a;
     x \<leftarrow> t_extra t;
     if x_timer_flags x AND SMON_TIMER_ON \<noteq> 0
     then do {
       let (sample, m) = smon_sample_rapl_stop (x_rapl_sample x) (ks_mach (snd s));
       s \<leftarrow> plain (\<lambda>ks. Some (ks\<lparr>ks_mach := m\<rparr>)) s;
       s \<leftarrow> locked_sample_write env (x_rb x) SAMPLE_TYPE_RAPL (rapl_image sample) s;
       let (sample, m) = smon_sample_rapl_start sample (ks_mach (snd s));
       let kt = ktime_of_ms (x_rapl_sample_time x);
       t \<leftarrow> ks_tasks (snd s) a;
       x \<leftarrow> t_extra t;
       let x = x\<lparr>x_rapl_sample := sample, x_rapl_timer := hrtimer_forward kt (x_rapl_timer x)\<rparr>;
       s \<leftarrow> plain (\<lambda>ks. Some (put_task a (t\<lparr>t_extra := Some x\<rparr>) (ks\<lparr>ks_mach := m\<rparr>))) s;
       Some (True, s)
     }
     else Some (False, s)
   }"

definition locked_extra_start :: "interference \<Rightarrow> addr \<Rightarrow> lk \<Rightarrow> lk option" where
  "locked_extra_start env a s = do {
     t \<leftarrow> ks_tasks (snd s) a;
     x \<leftarrow> t_extra t;
     e \<leftarrow> task_envir t (snd s);
     let (info, m) = smon_sample_get_info (ks_online_cpus (snd s)) (x_info_sample x) e (ks_mach (snd s));
     s \<leftarrow> plain (\<lambda>ks. Some (put_task a (t\<lparr>t_extra := Some (x\<lparr>x_info_sample := info\<rparr>)\<rparr>) (ks\<lparr>ks_mach := m\<rparr>))) s;
     s \<leftarrow> locked_sample_write env (x_rb x) SAMPLE_TYPE_INFO (info_image info) s;
     t \<leftarrow> ks_tasks (snd s) a;
     e \<leftarrow> task_envir t (snd s);
     if envir_option_rapl e then plain (Some \<circ> irq_work_queue (StartRapl a)) s else Some s
   }"

section \<open>Registering and unregistering\<close>

text \<open>One operation on a list, with the list's lock taken around it.\<close>

definition within :: "interference \<Rightarrow> smon_lock \<Rightarrow> (kstate \<Rightarrow> kstate option) \<Rightarrow> lk \<Rightarrow> lk option" where
  "within env l f s = do {
     let s = spin_lock env l s;
     s \<leftarrow> access l f s;
     Some (spin_unlock l s)
   }"

definition locked_register_task ::
  "interference \<Rightarrow> addr option \<Rightarrow> addr option \<Rightarrow> bool \<Rightarrow> i32 \<Rightarrow> smon_envir \<Rightarrow> addr \<Rightarrow> lk \<Rightarrow> (i32 \<times> lk) option"
where
  "locked_register_task env alloc envir_alloc extra_alloc pid envir rb s = do {
     (task, ks) \<leftarrow> smon_create_task alloc envir_alloc extra_alloc pid envir rb (snd s);
     let s = (fst s, ks);
     case task of
       None \<Rightarrow> Some (- 1, s)
     | Some a \<Rightarrow> do {
         s \<leftarrow> plain (modify_task a (\<lambda>t. t\<lparr>t_timer := hrtimer_init, t_kt_remain := 0\<rparr>)) s;
         s \<leftarrow> within env TaskLock (add_to_tasks a) s;
         if envir_option_exec envir
         then do { s \<leftarrow> within env WaitLock (add_to_wait a) s; Some (0, s) }
         else do {
           t \<leftarrow> ks_tasks (snd s) a;
           s \<leftarrow> (if t_extra t \<noteq> None then locked_extra_start env a s else Some s);
           t \<leftarrow> ks_tasks (snd s) a;
           p \<leftarrow> t_p t;
           let cpu = ks_task_cpu (snd s) p;
           s \<leftarrow> within env (CpuLock cpu) (add_to_cpu cpu a) s;
           Some (0, s)
         }
       }
   }"

definition locked_register_child :: "interference \<Rightarrow> addr option \<Rightarrow> addr \<Rightarrow> addr \<Rightarrow> lk \<Rightarrow> (i32 \<times> lk) option" where
  "locked_register_child env alloc parent p s =
     (let cpu = ks_task_cpu (snd s) p
      in do {
        (child, ks) \<leftarrow> smon_create_child alloc parent p (snd s);
        let s = (fst s, ks);
        case child of
          None \<Rightarrow> Some (- 1, s)
        | Some c \<Rightarrow> do {
            s \<leftarrow> plain (modify_task c (\<lambda>t. t\<lparr>t_timer := hrtimer_init, t_kt_remain := 0\<rparr>)) s;
            s \<leftarrow> within env (ChildrenLock parent) (\<lambda>ks. do {
                  ks \<leftarrow> children_add c parent ks;
                  modify_task parent (\<lambda>t. t\<lparr>t_n_children := t_n_children t + 1\<rparr>) ks
                }) s;
            pt \<leftarrow> ks_tasks (snd s) parent;
            pp \<leftarrow> t_p pt;
            s \<leftarrow> (if cpu = ks_task_cpu (snd s) pp then access (CpuLock cpu) (add_to_cpu cpu c) s
                 else within env (CpuLock cpu) (add_to_cpu cpu c) s);
            Some (0, s)
          }
      })"

definition locked_destroy_task :: "interference \<Rightarrow> addr \<Rightarrow> lk \<Rightarrow> lk option" where
  "locked_destroy_task env a s = do {
     t \<leftarrow> ks_tasks (snd s) a;
     s \<leftarrow> (if t_rb t \<noteq> None then locked_release_rb env (t_rb t) s else Some s);
     t \<leftarrow> ks_tasks (snd s) a;
     s \<leftarrow> (if t_envir t \<noteq> None then plain (release_envir_at (t_envir t)) s else Some s);
     t \<leftarrow> (if t_extra t \<noteq> None then smon_task_extra_destroy t else Some t);
     plain (\<lambda>ks. Some (ks\<lparr>ks_tasks := (ks_tasks ks)(a := None)\<rparr>)) s
   }"

text \<open>The children are unlinked without their lock.\<close>

partial_function (option) locked_unregister_loop :: "interference \<Rightarrow> addr \<Rightarrow> addr \<Rightarrow> addr \<Rightarrow> lk \<Rightarrow> lk option" where
  "locked_unregister_loop env head child tmp s =
     (if child = head then Some s
      else Option.bind (access (ChildrenLock head) (children_del child) s) (\<lambda>s.
           Option.bind (plain (modify_task child (\<lambda>t. t\<lparr>t_timer := hrtimer_cancel (t_timer t)\<rparr>)) s) (\<lambda>s.
           Option.bind (locked_destroy_task env child s) (\<lambda>s.
           Option.bind (ks_tasks (snd s) tmp) (\<lambda>n. locked_unregister_loop env head tmp (t_ch_next n) s)))))"

definition locked_unregister_children :: "interference \<Rightarrow> addr \<Rightarrow> lk \<Rightarrow> lk option" where
  "locked_unregister_children env a s = do {
     t \<leftarrow> ks_tasks (snd s) a;
     c \<leftarrow> ks_tasks (snd s) (t_ch_next t);
     locked_unregister_loop env a (t_ch_next t) (t_ch_next c) s
   }"

definition locked_unregister_at :: "interference \<Rightarrow> addr \<Rightarrow> lk \<Rightarrow> lk option" where
  "locked_unregister_at env a s = do {
     s \<leftarrow> plain (modify_task a (\<lambda>t. t\<lparr>t_timer := hrtimer_cancel (t_timer t)\<rparr>)) s;
     s \<leftarrow> locked_unregister_children env a s;
     s \<leftarrow> within env TaskLock (del_from_tasks a) s;
     t \<leftarrow> ks_tasks (snd s) a;
     e \<leftarrow> task_envir t (snd s);
     s \<leftarrow> (if envir_option_rapl e then plain (smon_task_extra_rapl_stop a) s else Some s);
     locked_destroy_task env a s
   }"

definition locked_unregister_task :: "interference \<Rightarrow> i32 \<Rightarrow> lk \<Rightarrow> (i32 \<times> lk) option" where
  "locked_unregister_task env pid s = do {
     let s = spin_lock env TaskLock s;
     (found, s) \<leftarrow> search TaskLock (\<lambda>t. t_pid t = pid) ks_task_list s;
     let s = spin_unlock TaskLock s;
     case found of
       None \<Rightarrow> Some (- 1, s)
     | Some a \<Rightarrow> do { s \<leftarrow> locked_unregister_at env a s; Some (0, s) }
   }"

section \<open>The hooks\<close>

definition locked_switch :: "interference \<Rightarrow> addr \<Rightarrow> addr \<Rightarrow> i64 \<Rightarrow> lk \<Rightarrow> lk option" where
  "locked_switch env prev next remaining s =
     (let cpu = ks_task_cpu (snd s) prev
      in do {
        let s = spin_lock env (CpuLock cpu) s;
        (found, s) \<leftarrow> search (CpuLock cpu) (\<lambda>t. t_p t = Some prev) (\<lambda>ks. ks_cpu_list ks cpu) s;
        let s = spin_unlock (CpuLock cpu) s;
        s \<leftarrow> (case found of None \<Rightarrow> Some s | Some a \<Rightarrow> locked_task_out env a remaining s);
        let s = spin_lock env (CpuLock cpu) s;
        (found, s) \<leftarrow> search (CpuLock cpu) (\<lambda>t. t_p t = Some next) (\<lambda>ks. ks_cpu_list ks cpu) s;
        let s = spin_unlock (CpuLock cpu) s;
        case found of None \<Rightarrow> Some s | Some a \<Rightarrow> plain (smon_sched_task_in a) s
      })"

definition locked_migrate_task :: "interference \<Rightarrow> u32 \<Rightarrow> addr \<Rightarrow> nat \<Rightarrow> lk \<Rightarrow> lk option" where
  "locked_migrate_task env pad p dest_cpu s =
     (let old_cpu = ks_task_cpu (snd s) p
      in do {
        let s = spin_lock env (CpuLock old_cpu) s;
        (found, s) \<leftarrow> search (CpuLock old_cpu) (\<lambda>t. t_p t = Some p) (\<lambda>ks. ks_cpu_list ks old_cpu) s;
        s \<leftarrow> (case found of None \<Rightarrow> Some s | Some a \<Rightarrow> access (CpuLock old_cpu) (del_from_cpu old_cpu a) s);
        let s = spin_unlock (CpuLock old_cpu) s;
        case found of
          None \<Rightarrow> Some s
        | Some a \<Rightarrow> do {
            t \<leftarrow> ks_tasks (snd s) a;
            e \<leftarrow> task_envir t (snd s);
            s \<leftarrow> (if envir_option_cpu e
                 then do {
                   let (tsc, m) = msr_rdtsc (ks_mach (snd s));
                   let sample = \<lparr>sc_timestamp = tsc, sc_pid = t_pid t,
                                 sc_old_cpu = of_nat old_cpu, sc_new_cpu = of_nat dest_cpu\<rparr>;
                   s \<leftarrow> plain (\<lambda>ks. Some (ks\<lparr>ks_mach := m\<rparr>)) s;
                   locked_sample_write env (t_rb t) SAMPLE_TYPE_CPU (cpu_image pad sample) s
                 }
                 else Some s);
            within env (CpuLock dest_cpu) (add_to_cpu dest_cpu a) s
          }
      })"

definition locked_process_fork :: "interference \<Rightarrow> addr option \<Rightarrow> addr \<Rightarrow> addr \<Rightarrow> lk \<Rightarrow> lk option" where
  "locked_process_fork env alloc parent child s =
     (let cpu = ks_task_cpu (snd s) parent
      in do {
        let s = spin_lock env (CpuLock cpu) s;
        (found, s) \<leftarrow> search (CpuLock cpu) (\<lambda>t. t_p t = Some parent) (\<lambda>ks. ks_cpu_list ks cpu) s;
        s \<leftarrow> (case found of
                None \<Rightarrow> Some s
              | Some a \<Rightarrow> do {
                  t \<leftarrow> ks_tasks (snd s) a;
                  e \<leftarrow> task_envir t (snd s);
                  s \<leftarrow> (if envir_option_inherit e
                       then do { (r, s) \<leftarrow> locked_register_child env alloc a child s; Some s }
                       else Some s);
                  if envir_option_fork e
                  then do {
                    let (tsc, m) = msr_rdtsc (ks_mach (snd s));
                    let sample = \<lparr>sf_timestamp = tsc, sf_parent = t_pid t, sf_child = ks_pid (snd s) child\<rparr>;
                    s \<leftarrow> plain (\<lambda>ks. Some (ks\<lparr>ks_mach := m\<rparr>)) s;
                    locked_sample_write env (t_rb t) SAMPLE_TYPE_FORK (fork_image sample) s
                  }
                  else Some s
                });
        Some (spin_unlock (CpuLock cpu) s)
      })"

definition locked_process_exec :: "interference \<Rightarrow> addr \<Rightarrow> lk \<Rightarrow> lk option" where
  "locked_process_exec env p s = do {
     let s = spin_lock env WaitLock s;
     (found, s) \<leftarrow> search WaitLock (\<lambda>t. t_p t = Some p) ks_wait_list s;
     s \<leftarrow> (case found of None \<Rightarrow> Some s | Some a \<Rightarrow> access WaitLock (del_from_wait a) s);
     let s = spin_unlock WaitLock s;
     case found of
       None \<Rightarrow> Some s
     | Some a \<Rightarrow> do {
         let cpu = ks_task_cpu (snd s) p;
         t \<leftarrow> ks_tasks (snd s) a;
         s \<leftarrow> (if t_extra t \<noteq> None then locked_extra_start env a s else Some s);
         s \<leftarrow> plain (smon_sched_task_in a) s;
         within env (CpuLock cpu) (add_to_cpu cpu a) s
       }
   }"

definition locked_retire_task :: "interference \<Rightarrow> addr \<Rightarrow> lk \<Rightarrow> lk option" where
  "locked_retire_task env a s = do {
     s \<leftarrow> plain (modify_task a (\<lambda>t. t\<lparr>t_p := None\<rparr>)) s;
     t \<leftarrow> ks_tasks (snd s) a;
     s \<leftarrow> locked_release_rb env (t_rb t) s;
     plain (modify_task a (\<lambda>t. t\<lparr>t_rb := None\<rparr>)) s
   }"

definition locked_process_exit :: "interference \<Rightarrow> addr \<Rightarrow> lk \<Rightarrow> lk option" where
  "locked_process_exit env p s =
     (let cpu = ks_task_cpu (snd s) p
      in do {
        let s = spin_lock env (CpuLock cpu) s;
        (found, s) \<leftarrow> search (CpuLock cpu) (\<lambda>t. t_p t = Some p) (\<lambda>ks. ks_cpu_list ks cpu) s;
        s \<leftarrow> (case found of
                None \<Rightarrow> Some s
              | Some a \<Rightarrow> do {
                  s \<leftarrow> plain (modify_task a (\<lambda>t. if tm_active (t_timer t)
                                                then t\<lparr>t_timer := hrtimer_cancel (t_timer t)\<rparr> else t)) s;
                  s \<leftarrow> plain (smon_sample_stop a) s;
                  s \<leftarrow> locked_sample_save env a s;
                  s \<leftarrow> access (CpuLock cpu) (del_from_cpu cpu a) s;
                  s \<leftarrow> locked_retire_task env a s;
                  plain (modify_task a (\<lambda>t. t\<lparr>t_extra :=
                    map_option (\<lambda>x. x\<lparr>x_rapl_timer := hrtimer_cancel (x_rapl_timer x)\<rparr>) (t_extra t)\<rparr>)) s
                });
        let s = spin_unlock (CpuLock cpu) s;
        if found \<noteq> None then Some s
        else do {
          let s = spin_lock env WaitLock s;
          (found, s) \<leftarrow> search WaitLock (\<lambda>t. t_p t = Some p) ks_wait_list s;
          s \<leftarrow> (case found of
                  None \<Rightarrow> Some s
                | Some a \<Rightarrow> do {
                    s \<leftarrow> access WaitLock (del_from_wait a) s;
                    locked_retire_task env a s
                  });
          Some (spin_unlock WaitLock s)
        }
      })"

section \<open>The calls\<close>

text \<open>What reaches the driver and works on tasks or buffers: hooks, timers and the file operations.\<close>

datatype smon_call =
    SwitchCall addr addr i64
  | MigrateCall u32 addr nat
  | ForkCall "addr option" addr addr
  | ExecCall addr
  | ExitCall addr
  | TickCall addr
  | RaplCall addr
  | RegisterCall "addr option" "addr option" bool i32 smon_envir addr
  | UnregisterCall i32
  | ReadCall addr u32 u32
  | PollCall "addr option"

fun call_locked :: "interference \<Rightarrow> smon_call \<Rightarrow> lk \<Rightarrow> lk option" where
  "call_locked env (SwitchCall prev next remaining) s = locked_switch env prev next remaining s"
| "call_locked env (MigrateCall pad p cpu) s = locked_migrate_task env pad p cpu s"
| "call_locked env (ForkCall alloc parent child) s = locked_process_fork env alloc parent child s"
| "call_locked env (ExecCall p) s = locked_process_exec env p s"
| "call_locked env (ExitCall p) s = locked_process_exit env p s"
| "call_locked env (TickCall a) s = map_option snd (locked_timer_tick env a s)"
| "call_locked env (RaplCall a) s = map_option snd (locked_timer_rapl env a s)"
| "call_locked env (RegisterCall al ea xa pid e rb) s = map_option snd (locked_register_task env al ea xa pid e rb s)"
| "call_locked env (UnregisterCall pid) s = map_option snd (locked_unregister_task env pid s)"
| "call_locked env (ReadCall r items sz) s = locked_rb_read env r items sz s"
| "call_locked env (PollCall p) s = map_option snd (locked_poll env p s)"

text \<open>The same calls without locks. A poll gives the mask of the file's buffer and changes nothing.\<close>

definition poll_file :: "addr option \<Rightarrow> kstate \<Rightarrow> u32 option" where
  "poll_file p ks =
     (case p of None \<Rightarrow> Some (smon_poll None) | Some r \<Rightarrow> do { rb \<leftarrow> ks_rbs ks r; Some (smon_poll (Some rb)) })"

fun call_exec :: "smon_call \<Rightarrow> kstate \<Rightarrow> kstate option" where
  "call_exec (SwitchCall prev next remaining) ks = smon_sched_switch prev next remaining ks"
| "call_exec (MigrateCall pad p cpu) ks = smon_sched_migrate_task pad p cpu ks"
| "call_exec (ForkCall alloc parent child) ks = smon_sched_process_fork alloc parent child ks"
| "call_exec (ExecCall p) ks = smon_sched_process_exec p ks"
| "call_exec (ExitCall p) ks = smon_sched_process_exit p ks"
| "call_exec (TickCall a) ks = map_option snd (smon_sched_timer_tick a ks)"
| "call_exec (RaplCall a) ks = map_option snd (smon_sched_timer_rapl a ks)"
| "call_exec (RegisterCall al ea xa pid e rb) ks = map_option snd (smon_sched_register_task al ea xa pid e rb ks)"
| "call_exec (UnregisterCall pid) ks = map_option snd (smon_sched_unregister_task pid ks)"
| "call_exec (ReadCall r items sz) ks = do { rb \<leftarrow> ks_rbs ks r; Some (put_rb r (smon_rb_read items sz rb) ks) }"
| "call_exec (PollCall p) ks = do { mask \<leftarrow> poll_file p ks; Some ks }"

end
