(* ===== verification/Lock_Erase.thy ===== *)
theory Lock_Erase
  imports Locked_Sched Kernel_Inv
begin

text \<open>
  Without other processors the functions with locks are the functions without: forgetting the lock
  operations gives back what \<open>Sched\<close>, \<open>Sample\<close> and \<open>Task\<close> say of the same code.
\<close>

named_theorems erase_rules \<open>rules that compare a function with locks to the one without\<close>

definition erase :: "lk option \<Rightarrow> kstate option \<Rightarrow> bool" where
  "erase r k \<longleftrightarrow> map_option snd r = k"

definition erase2 :: "('a \<times> lk) option \<Rightarrow> ('a \<times> kstate) option \<Rightarrow> bool" where
  "erase2 r k \<longleftrightarrow> map_option (apsnd snd) r = k"

lemma lock_snd [simp]: "snd (spin_lock calm l s) = snd s" "snd (spin_unlock l s) = snd s" "snd (touching l s) = snd s"
  by (simp_all add: spin_lock_def spin_unlock_def touching_def calm_def)

lemma erase_bind [erase_rules]:
  assumes "erase m m'" and "\<And>s. m' = Some (snd s) \<Longrightarrow> erase (f s) (f' (snd s))"
  shows "erase (Option.bind m f) (Option.bind m' f')"
  using assms by (cases m) (auto simp: erase_def)

lemma erase2_bind [erase_rules]:
  assumes "erase m m'" and "\<And>s. m' = Some (snd s) \<Longrightarrow> erase2 (f s) (f' (snd s))"
  shows "erase2 (Option.bind m f) (Option.bind m' f')"
  using assms by (cases m) (auto simp: erase_def erase2_def)

lemma erase_bind2 [erase_rules]:
  assumes "erase2 m m'" and "\<And>a s. m' = Some (a, snd s) \<Longrightarrow> erase (f a s) (f' a (snd s))"
  shows "erase (Option.bind m (\<lambda>(a, s). f a s)) (Option.bind m' (\<lambda>(a, k). f' a k))"
  using assms by (cases m) (auto simp: erase_def erase2_def)

lemma erase_unlock: "erase r k \<Longrightarrow> erase (Option.bind r (\<lambda>s. Some (spin_unlock l s))) k"
  by (cases r) (auto simp: erase_def)

lemma erase_pure [erase_rules]: "(\<And>x. v = Some x \<Longrightarrow> erase (f x) (f' x)) \<Longrightarrow> erase (Option.bind v f) (Option.bind v f')"
  by (cases v) (simp_all add: erase_def)

lemma erase2_pure [erase_rules]: "(\<And>x. v = Some x \<Longrightarrow> erase2 (f x) (f' x)) \<Longrightarrow> erase2 (Option.bind v f) (Option.bind v f')"
  by (cases v) (simp_all add: erase2_def)

lemma erase_if [erase_rules]: "(c \<Longrightarrow> erase x x') \<Longrightarrow> (\<not> c \<Longrightarrow> erase y y') \<Longrightarrow> erase (if c then x else y) (if c then x' else y')"
  by simp

lemma erase2_if [erase_rules]: "(c \<Longrightarrow> erase2 x x') \<Longrightarrow> (\<not> c \<Longrightarrow> erase2 y y') \<Longrightarrow> erase2 (if c then x else y) (if c then x' else y')"
  by simp

lemma erase_case [erase_rules]:
  "erase x x' \<Longrightarrow> (\<And>a. v = Some a \<Longrightarrow> erase (f a) (f' a)) \<Longrightarrow>
     erase (case v of None \<Rightarrow> x | Some a \<Rightarrow> f a) (case v of None \<Rightarrow> x' | Some a \<Rightarrow> f' a)"
  by (cases v) simp_all

lemma erase2_case [erase_rules]:
  "erase2 x x' \<Longrightarrow> (\<And>a. v = Some a \<Longrightarrow> erase2 (f a) (f' a)) \<Longrightarrow>
     erase2 (case v of None \<Rightarrow> x | Some a \<Rightarrow> f a) (case v of None \<Rightarrow> x' | Some a \<Rightarrow> f' a)"
  by (cases v) simp_all

lemma erase_prod [erase_rules]:
  "(\<And>a b. erase (f a b) (f' a b)) \<Longrightarrow> erase (case v of (a, b) \<Rightarrow> f a b) (case v of (a, b) \<Rightarrow> f' a b)"
  "(\<And>a b. erase2 (g a b) (g' a b)) \<Longrightarrow> erase2 (case v of (a, b) \<Rightarrow> g a b) (case v of (a, b) \<Rightarrow> g' a b)"
  by (simp_all add: case_prod_unfold)

lemma erase_Some [erase_rules]: "snd s = k \<Longrightarrow> erase (Some s) (Some k)"
  by (simp add: erase_def)

lemma erase2_Some [erase_rules]: "snd s = k \<Longrightarrow> erase2 (Some (a, s)) (Some (a, k))"
  by (simp add: erase2_def)

lemma erase_plain [erase_rules]: "f (snd s) = k \<Longrightarrow> erase (plain f s) k"
  by (auto simp: erase_def plain_def option.map_comp comp_def option.map_ident)

lemma erase_access [erase_rules]: "f (snd s) = k \<Longrightarrow> erase (access l f s) k"
  unfolding access_def by (rule erase_plain) simp

lemma erase_within [erase_rules]: "f (snd s) = k \<Longrightarrow> erase (within calm l f s) k"
  by (cases k) (auto simp: within_def access_def plain_def erase_def)

text \<open>A helper of several steps.\<close>

lemma erase_within_seq:
  assumes "\<And>s'. Option.bind (F (snd s)) G = Some (snd s') \<Longrightarrow> erase2 (f s') (f' (snd s'))"
  shows "erase2 (Option.bind (within calm l (\<lambda>k. Option.bind (F k) G) s) f) (Option.bind (F (snd s)) (\<lambda>k. Option.bind (G k) f'))"
  unfolding Option.bind_assoc [symmetric] by (rule erase2_bind [OF erase_within [OF refl]]) (rule assms)

lemma erase_find:
  "find_entry P (snd s) (xs (snd s)) = v \<Longrightarrow> (\<And>a s'. snd s' = snd s \<Longrightarrow> v = Some a \<Longrightarrow> erase (f a s') (f' a)) \<Longrightarrow>
     erase (Option.bind (search l P xs s) (\<lambda>(a, s). f a s)) (Option.bind v f')"
  by (cases v) (auto simp: search_def erase_def)

lemma erase2_find:
  "find_entry P (snd s) (xs (snd s)) = v \<Longrightarrow> (\<And>a s'. snd s' = snd s \<Longrightarrow> v = Some a \<Longrightarrow> erase2 (f a s') (f' a)) \<Longrightarrow>
     erase2 (Option.bind (search l P xs s) (\<lambda>(a, s). f a s)) (Option.bind v f')"
  by (cases v) (auto simp: search_def erase2_def)

lemma plain_Some [simp]:
  "plain (Some \<circ> f) s = Some (fst s, f (snd s))" "plain (\<lambda>ks. Some (f ks)) s = Some (fst s, f (snd s))"
  by (simp_all add: plain_def)

section \<open>Buffers and samples\<close>

lemma erase_rb_write [erase_rules]: "rb_write_at r ty sample (snd s) = k \<Longrightarrow> erase (locked_rb_write calm r ty sample s) k"
  by (cases k) (auto simp: locked_rb_write_def smon_rb_lock_def smon_rb_unlock_def access_def plain_def erase_def Let_def
      spin_unlock_def)

lemma erase_sample_write [erase_rules]:
  "smon_sample_write p ty sample (snd s) = k \<Longrightarrow> erase (locked_sample_write calm p ty sample s) k"
  unfolding locked_sample_write_def smon_sample_write_def
  by (cases p) (auto simp: rb_write_at_def erase_def intro!: erase_rb_write [unfolded erase_def])

lemma sample_write_tasks:
  "smon_sample_write p ty sample ks = Some ks' \<Longrightarrow> ks_tasks ks' = ks_tasks ks \<and> ks_envirs ks' = ks_envirs ks"
  by (auto simp: smon_sample_write_def put_rb_def bind_eq_Some_conv split: option.splits)

text \<open>A field that is read again has not changed.\<close>

lemma erase_reload:
  "v = Some x \<Longrightarrow> erase (f x) k \<Longrightarrow> erase (Option.bind v f) k"
  "v = Some x \<Longrightarrow> erase2 (g x) k2 \<Longrightarrow> erase2 (Option.bind v g) k2"
  by simp_all

lemma erase_release_rb [erase_rules]:
  assumes "release_rb_at p (snd s) = k"
  shows "erase (locked_release_rb calm p s) k"
proof (cases "\<exists>r rb. p = Some r \<and> ks_rbs (snd s) r = Some rb")
  case True
  then obtain r rb where r: "p = Some r" "ks_rbs (snd s) r = Some rb" by blast
  define rb1 where "rb1 = rb\<lparr>rb_active := rb_active rb - 1\<rparr>"
  define s1 where "s1 = (fst s, put_rb r rb1 (snd s))"
  have w: "map_option snd (locked_rb_write calm r SAMPLE_TYPE_EOF [] s1) =
      map_option (\<lambda>rb'. put_rb r rb' (snd s)) (smon_rb_write SAMPLE_TYPE_EOF [] rb1)"
    using erase_rb_write [OF refl, of r SAMPLE_TYPE_EOF "[]" s1]
    by (cases "smon_rb_write SAMPLE_TYPE_EOF [] rb1") (simp_all add: erase_def rb_write_at_def s1_def put_rb_def)
  have "locked_release_rb calm p s = (if rb_active rb1 = 0
      then locked_rb_write calm r SAMPLE_TYPE_EOF [] s1 \<bind>
        plain (\<lambda>ks. ks_rbs ks r \<bind> (\<lambda>rb. Some (put_rb r (rb\<lparr>rb_irq := True\<rparr>) ks)))
      else Some s1)"
    by (simp add: locked_release_rb_def r Let_def rb1_def s1_def)
  moreover have "release_rb_at p (snd s) = (if rb_active rb1 = 0
      then map_option (\<lambda>rb'. put_rb r (rb'\<lparr>rb_irq := True\<rparr>) (snd s)) (smon_rb_write SAMPLE_TYPE_EOF [] rb1)
      else Some (put_rb r rb1 (snd s)))"
    by (cases "smon_rb_write SAMPLE_TYPE_EOF [] (rb\<lparr>rb_active := 0\<rparr>)")
      (simp_all add: release_rb_at_def smon_release_rb_def smon_rb_write_eof_def r Let_def rb1_def)
  moreover have "map_option snd (locked_rb_write calm r SAMPLE_TYPE_EOF [] s1 \<bind>
        plain (\<lambda>ks. ks_rbs ks r \<bind> (\<lambda>rb. Some (put_rb r (rb\<lparr>rb_irq := True\<rparr>) ks)))) =
      map_option (\<lambda>rb'. put_rb r (rb'\<lparr>rb_irq := True\<rparr>) (snd s)) (smon_rb_write SAMPLE_TYPE_EOF [] rb1)"
    using w
    by (cases "smon_rb_write SAMPLE_TYPE_EOF [] rb1"; cases "locked_rb_write calm r SAMPLE_TYPE_EOF [] s1")
      (auto simp: plain_def put_rb_def)
  ultimately show ?thesis using assms by (simp add: erase_def s1_def)
next
  case False
  then show ?thesis using assms by (cases p) (auto simp: locked_release_rb_def release_rb_at_def erase_def bind_eq_None_conv)
qed

lemma erase_sample_save [erase_rules]: "smon_sample_save a (snd s) = k \<Longrightarrow> erase (locked_sample_save calm a s) k"
  unfolding locked_sample_save_def smon_sample_save_def Let_def plain_Some bind.bind_lunit
  apply (erule subst)
  apply (rule erase_rules refl)+
  apply (drule sample_write_tasks, erule conjE)
  apply (rule erase_reload, simp)
  apply (simp add: task_envir_def)
  apply (rule erase_rules refl | simp only: snd_conv)+
  done

lemma erase_sched_save [erase_rules]: "smon_sample_sched_save a (snd s) = k \<Longrightarrow> erase (locked_sched_save calm a s) k"
  unfolding locked_sched_save_def smon_sample_sched_save_def by (erule subst) (rule erase_rules refl)+

lemma erase_task_out [erase_rules]: "smon_sched_task_out a rem (snd s) = k \<Longrightarrow> erase (locked_task_out calm a rem s) k"
  unfolding locked_task_out_def smon_sched_task_out_def Let_def plain_Some bind.bind_lunit
  by (erule subst) (rule erase_rules refl | simp only: snd_conv)+

lemma erase_timer_tick: "erase2 (locked_timer_tick calm a s) (smon_sched_timer_tick a (snd s))"
  unfolding locked_timer_tick_def smon_sched_timer_tick_def Let_def
  by (rule erase_rules refl | simp)+

lemma erase_timer_rapl: "erase2 (locked_timer_rapl calm a s) (smon_sched_timer_rapl a (snd s))"
  unfolding locked_timer_rapl_def smon_sched_timer_rapl_def Let_def plain_Some bind.bind_lunit smon_sample_rapl_save_def
  apply (rule erase_rules refl | simp only: snd_conv)+
  apply (drule sample_write_tasks, erule conjE)
  apply (rule erase_reload, simp)
  apply (rule erase_rules refl | simp)+
  done

lemma erase_extra_start [erase_rules]: "smon_task_extra_start a (snd s) = k \<Longrightarrow> erase (locked_extra_start calm a s) k"
  unfolding locked_extra_start_def smon_task_extra_start_def Let_def plain_Some bind.bind_lunit smon_sample_info_save_def
  apply (erule subst)
  apply (rule erase_rules refl | simp only: snd_conv)+
  apply (drule sample_write_tasks, erule conjE)
  apply (rule erase_reload, simp add: put_task_def)
  apply (rule erase_reload, simp add: put_task_def task_envir_def)
  apply (rule erase_rules refl | simp)+
  done

section \<open>Registering and unregistering\<close>

lemma extra_start_process:
  assumes "smon_task_extra_start a ks = Some ks'" and "ks_tasks ks a = Some t"
  obtains t' where "ks_tasks ks' a = Some t'" "t_p t' = t_p t"
proof -
  from assms obtain x y k1 k2 where k: "smon_sample_write x SAMPLE_TYPE_INFO y k1 = Some k2"
    "map_option t_p (ks_tasks k1 a) = Some (t_p t)" "ks_tasks ks' = ks_tasks k2"
    by (auto simp: smon_task_extra_start_def smon_sample_info_save_def put_task_def irq_work_queue_def
        bind_eq_Some_conv Let_def case_prod_unfold split: if_split_asm)
  from sample_write_tasks [OF k(1)] k(2,3) show thesis by (auto intro: that)
qed

lemma erase_register_task:
  "erase2 (locked_register_task calm al ea xa pid e rb s) (smon_sched_register_task al ea xa pid e rb (snd s))"
  unfolding locked_register_task_def smon_sched_register_task_def Let_def
proof ((rule erase_rules refl | simp only: snd_conv)+, goal_cases)
  case (1 x task ks a sa saa xa sb)
  then obtain t' where "ks_tasks (snd sb) a = Some t'" "t_p t' = t_p xa"
    by (cases "t_extra xa = None") (auto elim: extra_start_process)
  then show ?case by simp (rule erase_rules refl | simp)+
qed

lemma erase_register_child [erase_rules]:
  "smon_sched_register_child al parent p (snd s) = k \<Longrightarrow> erase2 (locked_register_child calm al parent p s) k"
  unfolding locked_register_child_def smon_sched_register_child_def Let_def
  by (erule subst) (rule erase_within_seq erase_rules refl | simp only: snd_conv)+

lemma release_rb_tasks:
  "release_rb_at p ks = Some ks' \<Longrightarrow> ks_tasks ks' = ks_tasks ks"
  by (auto simp: release_rb_at_def put_rb_def bind_eq_Some_conv)

lemma erase_destroy_task [erase_rules]: "smon_destroy_task a (snd s) = k \<Longrightarrow> erase (locked_destroy_task calm a s) k"
  unfolding locked_destroy_task_def smon_destroy_task_def Let_def plain_Some bind.bind_lunit
proof (erule subst, (rule erase_rules refl | simp only: snd_conv)+, goal_cases)
  case (1 x sa)
  then have t: "ks_tasks (snd sa) a = Some x" by (auto split: if_split_asm dest: release_rb_tasks)
  show ?case by (rule erase_reload(1) [OF t]) (rule erase_rules refl | simp only: snd_conv)+
qed

text \<open>The loop over the children, in both directions.\<close>

lemma erase_loop_forth:
  "locked_unregister_loop calm head child tmp s = Some s' \<Longrightarrow> unregister_loop head child tmp (snd s) = Some (snd s')"
proof -
  have "env = calm \<longrightarrow> unregister_loop head child tmp (snd s) = Some (snd s')"
    if "locked_unregister_loop env head child tmp s = Some s'" for env
  proof (rule locked_unregister_loop.raw_induct [where P = "\<lambda>env head child tmp s s'. env = calm \<longrightarrow>
      unregister_loop head child tmp (snd s) = Some (snd s')", OF _ that], intro impI)
    fix f env head child tmp s s'
    assume 1: "\<And>env head child tmp s s'. f env head child tmp s = Some s' \<Longrightarrow>
      env = calm \<longrightarrow> unregister_loop head child tmp (snd s) = Some (snd s')"
      "(if child = head then Some s
        else access (ChildrenLock head) (children_del child) s \<bind> (\<lambda>s.
             plain (modify_task child (\<lambda>t. t\<lparr>t_timer := hrtimer_cancel (t_timer t)\<rparr>)) s \<bind> (\<lambda>s.
             locked_destroy_task env child s \<bind> (\<lambda>s.
             ks_tasks (snd s) tmp \<bind> (\<lambda>n. f env head tmp (t_ch_next n) s))))) = Some s'"
      "env = calm"
    show "unregister_loop head child tmp (snd s) = Some (snd s')"
  proof (cases "child = head")
    case True
    then show ?thesis using 1 by (subst unregister_loop.simps) simp
  next
    case False
    with 1(2) obtain s1 s2 s3 n where s:
      "access (ChildrenLock head) (children_del child) s = Some s1"
      "plain (modify_task child (\<lambda>t. t\<lparr>t_timer := hrtimer_cancel (t_timer t)\<rparr>)) s1 = Some s2"
      "locked_destroy_task env child s2 = Some s3" "ks_tasks (snd s3) tmp = Some n"
      "f env head tmp (t_ch_next n) s3 = Some s'" by (auto simp: bind_eq_Some_conv)
    have "children_del child (snd s) = Some (snd s1)"
      using erase_access [OF refl, of "ChildrenLock head" "children_del child" s] s(1) by (simp add: erase_def)
    moreover have "modify_task child (\<lambda>t. t\<lparr>t_timer := hrtimer_cancel (t_timer t)\<rparr>) (snd s1) = Some (snd s2)"
      using erase_plain [OF refl, of "modify_task child (\<lambda>t. t\<lparr>t_timer := hrtimer_cancel (t_timer t)\<rparr>)" s1] s(2)
      by (simp add: erase_def)
    moreover have "smon_destroy_task child (snd s2) = Some (snd s3)"
      using erase_destroy_task [OF refl, of child s2] s(3) 1(3) by (simp add: erase_def)
    moreover have "unregister_loop head tmp (t_ch_next n) (snd s3) = Some (snd s')" using 1(1) [OF s(5)] 1(3) by blast
    ultimately show ?thesis using False s(4) by (subst unregister_loop.simps) simp
  qed
  qed
  then show "locked_unregister_loop calm head child tmp s = Some s' \<Longrightarrow> unregister_loop head child tmp (snd s) = Some (snd s')"
    by blast
qed

lemma erase_loop_back:
  "unregister_loop head child tmp ks = Some ks' \<Longrightarrow>
     \<forall>s. snd s = ks \<longrightarrow> (\<exists>s'. locked_unregister_loop calm head child tmp s = Some s')"
proof (rule unregister_loop.raw_induct [where P = "\<lambda>head child tmp ks ks'. \<forall>s. snd s = ks \<longrightarrow>
    (\<exists>s'. locked_unregister_loop calm head child tmp s = Some s')"], intro allI impI)
  fix f head child tmp ks ks' and s :: lk
  assume 1: "\<And>head child tmp ks ks'. f head child tmp ks = Some ks' \<Longrightarrow>
    \<forall>s. snd s = ks \<longrightarrow> (\<exists>s'. locked_unregister_loop calm head child tmp s = Some s')"
    "(if child = head then Some ks
      else children_del child ks \<bind> (\<lambda>ks.
           modify_task child (\<lambda>t. t\<lparr>t_timer := hrtimer_cancel (t_timer t)\<rparr>) ks \<bind> (\<lambda>ks.
           smon_destroy_task child ks \<bind> (\<lambda>ks.
           ks_tasks ks tmp \<bind> (\<lambda>n. f head tmp (t_ch_next n) ks))))) = Some ks'"
    "snd s = ks"
  show "\<exists>s'. locked_unregister_loop calm head child tmp s = Some s'"
  proof (cases "child = head")
    case True
    then show ?thesis by (subst locked_unregister_loop.simps) simp
  next
    case False
    with 1(2) obtain k1 k2 k3 n where k: "children_del child ks = Some k1"
      "modify_task child (\<lambda>t. t\<lparr>t_timer := hrtimer_cancel (t_timer t)\<rparr>) k1 = Some k2"
      "smon_destroy_task child k2 = Some k3" "ks_tasks k3 tmp = Some n"
      "f head tmp (t_ch_next n) k3 = Some ks'" by (auto simp: bind_eq_Some_conv)
    from erase_access [OF refl, of "ChildrenLock head" "children_del child" s] k(1) 1(3) obtain s1 where
      s1: "access (ChildrenLock head) (children_del child) s = Some s1" "snd s1 = k1" by (auto simp: erase_def)
    from erase_plain [OF refl, of "modify_task child (\<lambda>t. t\<lparr>t_timer := hrtimer_cancel (t_timer t)\<rparr>)" s1] k(2) s1(2)
    obtain s2 where s2: "plain (modify_task child (\<lambda>t. t\<lparr>t_timer := hrtimer_cancel (t_timer t)\<rparr>)) s1 = Some s2"
      "snd s2 = k2" by (auto simp: erase_def)
    from erase_destroy_task [OF refl, of child s2] k(3) s2(2) obtain s3 where
      s3: "locked_destroy_task calm child s2 = Some s3" "snd s3 = k3" by (auto simp: erase_def)
    from 1(1) [OF k(5)] s3(2) obtain s' where "locked_unregister_loop calm head tmp (t_ch_next n) s3 = Some s'" by blast
    then show ?thesis using False s1(1) s2(1) s3 k(4) by (subst locked_unregister_loop.simps) auto
  qed
qed

lemma erase_loop [erase_rules]:
  "unregister_loop head child tmp (snd s) = k \<Longrightarrow> erase (locked_unregister_loop calm head child tmp s) k"
  using erase_loop_forth [of head child tmp s] erase_loop_back [of head child tmp "snd s"]
  by (cases k; cases "locked_unregister_loop calm head child tmp s")
    (auto simp: erase_def simp del: split_paired_All split_paired_Ex)

lemma erase_unregister_at [erase_rules]: "unregister_at a (snd s) = k \<Longrightarrow> erase (locked_unregister_at calm a s) k"
  unfolding locked_unregister_at_def unregister_at_def locked_unregister_children_def smon_sched_unregister_children_def Let_def
  by (erule subst) (rule erase_rules refl | simp only: snd_conv)+

lemma erase_unregister_task: "erase2 (locked_unregister_task calm pid s) (smon_sched_unregister_task pid (snd s))"
  unfolding locked_unregister_task_def smon_sched_unregister_task_def Let_def
  by (rule erase2_find) (rule erase_rules refl | simp)+

section \<open>The hooks\<close>

lemma erase_switch: "erase (locked_switch calm prev next rem s) (smon_sched_switch prev next rem (snd s))"
  unfolding locked_switch_def smon_sched_switch_def Let_def
  apply (rule erase_find)
   apply simp
  apply (rule erase_rules refl | simp)+
  apply (rule erase_find)
   apply simp
  apply (rule erase_rules refl | simp)+
  done

lemma erase_migrate: "erase (locked_migrate_task calm pad p cpu s) (smon_sched_migrate_task pad p cpu (snd s))"
  unfolding locked_migrate_task_def smon_sched_migrate_task_def Let_def plain_Some bind.bind_lunit
proof (rule erase_find, simp, goal_cases)
  case (1 found s1)
  show ?case
  proof (cases found)
    case None
    then show ?thesis using 1 by (simp add: erase_def)
  next
    case (Some a)
    then show ?thesis by (simp add: 1(1)) (rule erase_rules refl | simp add: 1(1))+
  qed
qed

lemma erase_fork: "erase (locked_process_fork calm al parent child s) (smon_sched_process_fork al parent child (snd s))"
  unfolding locked_process_fork_def smon_sched_process_fork_def Let_def plain_Some bind.bind_lunit
proof (rule erase_find, simp, goal_cases)
  case (1 found s1)
  show ?case
  proof (cases found)
    case None
    then show ?thesis using 1 by (simp add: erase_def)
  next
    case (Some a)
    then show ?thesis by (simp add: 1(1)) (rule erase_unlock erase_rules refl | simp add: 1(1))+
  qed
qed

lemma erase_exec: "erase (locked_process_exec calm p s) (smon_sched_process_exec p (snd s))"
  unfolding locked_process_exec_def smon_sched_process_exec_def Let_def
proof (rule erase_find, simp, goal_cases)
  case (1 found s1)
  show ?case
  proof (cases found)
    case None
    then show ?thesis using 1 by (simp add: erase_def)
  next
    case (Some a)
    then show ?thesis by (simp add: 1(1)) (rule erase_unlock erase_rules refl | simp add: 1(1))+
  qed
qed

lemma erase_retire [erase_rules]: "retire_task a (snd s) = k \<Longrightarrow> erase (locked_retire_task calm a s) k"
  unfolding locked_retire_task_def retire_task_def by (erule subst) (rule erase_rules refl)+

lemma erase_exit: "erase (locked_process_exit calm p s) (smon_sched_process_exit p (snd s))"
  unfolding locked_process_exit_def smon_sched_process_exit_def Let_def
proof (rule erase_find, simp, goal_cases)
  case (1 found s1)
  show ?case
  proof (cases found)
    case None
    show ?thesis unfolding None
    proof (simp, rule erase_find, simp add: 1(1), goal_cases)
      case (1 a s2)
      then have "snd s2 = snd s" by (simp add: \<open>snd s1 = snd (spin_lock _ _ s)\<close>)
      then show ?case by (cases a) (rule erase_unlock erase_rules refl | simp)+
    qed
  next
    case (Some a)
    then show ?thesis by (simp add: 1(1)) (rule erase_unlock erase_rules refl | simp add: 1(1))+
  qed
qed

section \<open>All calls\<close>

lemma erase2_snd: "erase2 r k \<Longrightarrow> erase (map_option snd r) (map_option snd k)"
  by (auto simp: erase_def erase2_def option.map_comp comp_def)

lemma erase_read: "erase (locked_rb_read calm r n z s) (do { rb \<leftarrow> ks_rbs (snd s) r; Some (put_rb r (smon_rb_read n z rb) (snd s)) })"
  unfolding locked_rb_read_def smon_rb_lock_def smon_rb_unlock_def Let_def
  by (rule erase_unlock) (rule erase_access, simp)

lemma call_erase: "erase (call_locked calm c s) (call_exec c (snd s))"
proof (cases c)
  case (PollCall p)
  then show ?thesis
    by (cases p) (auto simp: locked_poll_def poll_file_def smon_rb_lock_def smon_rb_unlock_def erase_def Let_def option.map_comp comp_def
        split: bind_splits)
qed (simp_all add: erase_switch erase_migrate erase_fork erase_exec erase_exit erase_read
      erase2_snd erase_timer_tick erase_timer_rapl erase_register_task erase_unregister_task)

end
