(* ===== verification/Lock_Facts.thy ===== *)
theory Lock_Facts
  imports Locked_Sched
begin

text \<open>
  What the calls of the driver do to the locks: every call keeps the order of the locks and touches a
  list, a buffer only under its lock, whatever the other processors do meanwhile. A fork keeps it as
  long as the child is on its parent's processor.
\<close>

fun lock_rank :: "smon_lock \<Rightarrow> nat" where
  "lock_rank (ChildrenLock a) = 1"
| "lock_rank (RbLock r) = 2"
| "lock_rank _ = 0"

section \<open>Rules\<close>

text \<open>The locks that a function of the model holds at its end, and one rule per way of composing them.\<close>

named_theorems lock_rules \<open>rules that follow the locks held through a function\<close>

definition held :: "(smon_lock \<Rightarrow> bool) \<Rightarrow> smon_lock list \<Rightarrow> lk \<Rightarrow> bool" where
  "held g hs s \<longleftrightarrow> lock_run lock_rank g [] (fst s) = Some hs"

definition ends :: "('a \<Rightarrow> bool) \<Rightarrow> 'a option \<Rightarrow> bool" where
  "ends P r \<longleftrightarrow> (\<forall>x. r = Some x \<longrightarrow> P x)"

abbreviation holds :: "(smon_lock \<Rightarrow> bool) \<Rightarrow> smon_lock list \<Rightarrow> lk option \<Rightarrow> bool" where
  "holds g hs r \<equiv> ends (held g hs) r"

abbreviation holds2 :: "(smon_lock \<Rightarrow> bool) \<Rightarrow> smon_lock list \<Rightarrow> ('a \<times> lk) option \<Rightarrow> bool" where
  "holds2 g hs r \<equiv> ends (\<lambda>x. held g hs (snd x)) r"

lemma ends_pure: "(\<And>x. ends P (f x)) \<Longrightarrow> ends P (Option.bind m f)"
  by (auto simp: ends_def bind_eq_Some_conv)

lemmas ends_pures [lock_rules] = ends_pure [where 'a = smon_task] ends_pure [where 'a = smon_task_extra]
  ends_pure [where 'a = smon_envir] ends_pure [where 'a = smon_ring_buffer] ends_pure [where 'a = addr]
  ends_pure [where 'a = i32] ends_pure [where 'a = "addr option \<times> kstate"]

lemma ends_bind [lock_rules]: "holds g hs m \<Longrightarrow> (\<And>s. held g hs s \<Longrightarrow> ends P (f s)) \<Longrightarrow> ends P (Option.bind m f)"
  by (auto simp: ends_def bind_eq_Some_conv)

lemma ends_bind2 [lock_rules]:
  assumes "holds2 g hs m" and "\<And>a s. held g hs s \<Longrightarrow> ends P (f a s)"
  shows "ends P (Option.bind m (\<lambda>(a, s). f a s))"
  using assms by (auto simp: ends_def bind_eq_Some_conv)

lemma ends_if [lock_rules]: "(c \<Longrightarrow> ends P x) \<Longrightarrow> (\<not> c \<Longrightarrow> ends P y) \<Longrightarrow> ends P (if c then x else y)"
  by simp

lemma ends_case_option [lock_rules]:
  "(v = None \<Longrightarrow> ends P x) \<Longrightarrow> (\<And>a. v = Some a \<Longrightarrow> ends P (f a)) \<Longrightarrow> ends P (case v of None \<Rightarrow> x | Some a \<Rightarrow> f a)"
  by (cases v) simp_all

lemma ends_case_prod [lock_rules]: "(\<And>a b. ends P (f a b)) \<Longrightarrow> ends P (case v of (a, b) \<Rightarrow> f a b)"
  by (cases v) simp

lemma ends_Some2 [lock_rules]: "held g hs s \<Longrightarrow> holds2 g hs (Some (a, s))"
  by (simp add: ends_def)

lemma ends_Some [lock_rules]: "held g hs s \<Longrightarrow> holds g hs (Some s)"
  by (simp add: ends_def)

lemma held_lock [lock_rules]:
  "held g hs s \<Longrightarrow> list_all (\<lambda>h. lock_rank h < lock_rank l) hs \<Longrightarrow> held g (l # hs) (spin_lock env l s)"
  by (simp add: held_def spin_lock_def lock_run_append)

lemma held_unlock [lock_rules]: "held g (l # hs) s \<Longrightarrow> held g hs (spin_unlock l s)"
  by (simp add: held_def spin_unlock_def lock_run_append)

lemma held_touching [lock_rules]: "held g hs s \<Longrightarrow> g l \<longrightarrow> l \<in> set hs \<Longrightarrow> held g hs (touching l s)"
  by (simp add: held_def touching_def lock_run_append)

lemma held_pair [lock_rules]: "held g hs s \<Longrightarrow> held g hs (fst s, ks)"
  by (simp add: held_def)

lemma ends_plain [lock_rules]: "held g hs s \<Longrightarrow> holds g hs (plain f s)"
  by (auto simp: held_def ends_def plain_def)

lemma ends_access [lock_rules]: "held g hs s \<Longrightarrow> g l \<longrightarrow> l \<in> set hs \<Longrightarrow> holds g hs (access l f s)"
  unfolding access_def by (intro lock_rules)

lemma ends_search [lock_rules]: "held g hs s \<Longrightarrow> g l \<longrightarrow> l \<in> set hs \<Longrightarrow> holds2 g hs (search l P xs s)"
  using held_touching [of g hs s l] by (auto simp: search_def ends_def simp del: split_paired_All)

lemma ends_within [lock_rules]:
  "held g hs s \<Longrightarrow> list_all (\<lambda>h. lock_rank h < lock_rank l) hs \<Longrightarrow> holds g hs (within env l f s)"
  unfolding within_def Let_def by (rule lock_rules | assumption | simp)+

section \<open>Buffers, samples and tasks\<close>

text \<open>The lock of a buffer is the last one: it is taken under any of the others.\<close>

abbreviation below_rb :: "smon_lock list \<Rightarrow> bool" where
  "below_rb hs \<equiv> list_all (\<lambda>h. lock_rank h < 2) hs"

lemma ends_rb_write [lock_rules]: "held g hs s \<Longrightarrow> below_rb hs \<Longrightarrow> holds g hs (locked_rb_write env r ty sample s)"
  unfolding locked_rb_write_def smon_rb_lock_def smon_rb_unlock_def Let_def by (assumption | rule lock_rules | simp)+

lemma ends_sample_write [lock_rules]: "held g hs s \<Longrightarrow> below_rb hs \<Longrightarrow> holds g hs (locked_sample_write env p ty sample s)"
  unfolding locked_sample_write_def by (assumption | rule lock_rules)+

lemma ends_release_rb [lock_rules]: "held g hs s \<Longrightarrow> below_rb hs \<Longrightarrow> holds g hs (locked_release_rb env p s)"
  unfolding locked_release_rb_def Let_def by (assumption | rule lock_rules)+

lemma ends_sample_save [lock_rules]: "held g hs s \<Longrightarrow> below_rb hs \<Longrightarrow> holds g hs (locked_sample_save env a s)"
  unfolding locked_sample_save_def Let_def by (assumption | rule lock_rules)+

lemma ends_sched_save [lock_rules]: "held g hs s \<Longrightarrow> below_rb hs \<Longrightarrow> holds g hs (locked_sched_save env a s)"
  unfolding locked_sched_save_def by (assumption | rule lock_rules)+

lemma ends_extra_start [lock_rules]: "held g hs s \<Longrightarrow> below_rb hs \<Longrightarrow> holds g hs (locked_extra_start env a s)"
  unfolding locked_extra_start_def Let_def by (assumption | rule lock_rules)+

lemma ends_task_out [lock_rules]: "held g hs s \<Longrightarrow> below_rb hs \<Longrightarrow> holds g hs (locked_task_out env a rem s)"
  unfolding locked_task_out_def by (assumption | rule lock_rules)+

lemma ends_retire_task [lock_rules]: "held g hs s \<Longrightarrow> below_rb hs \<Longrightarrow> holds g hs (locked_retire_task env a s)"
  unfolding locked_retire_task_def by (assumption | rule lock_rules)+

lemma ends_destroy_task [lock_rules]: "held g hs s \<Longrightarrow> below_rb hs \<Longrightarrow> holds g hs (locked_destroy_task env a s)"
  unfolding locked_destroy_task_def by (assumption | rule lock_rules)+

section \<open>The calls\<close>

text \<open>One lock of the lowest rank at a time.\<close>

lemma ends_timer_tick [lock_rules]: "held g [] s \<Longrightarrow> holds2 g [] (locked_timer_tick env a s)"
  unfolding locked_timer_tick_def Let_def by (assumption | rule lock_rules | simp)+

lemma ends_timer_rapl [lock_rules]: "held g [] s \<Longrightarrow> holds2 g [] (locked_timer_rapl env a s)"
  unfolding locked_timer_rapl_def Let_def by (assumption | rule lock_rules | simp)+

lemma ends_register_task: "held g [] s \<Longrightarrow> holds2 g [] (locked_register_task env al ea xa pid e rb s)"
  unfolding locked_register_task_def Let_def by (assumption | rule lock_rules | simp)+

lemma ends_switch: "held g [] s \<Longrightarrow> holds g [] (locked_switch env prev next rem s)"
  unfolding locked_switch_def Let_def by (assumption | rule lock_rules | simp)+

lemma ends_migrate_task: "held g [] s \<Longrightarrow> holds g [] (locked_migrate_task env pad p cpu s)"
  unfolding locked_migrate_task_def Let_def by (assumption | rule lock_rules | simp)+

lemma ends_process_exec: "held g [] s \<Longrightarrow> holds g [] (locked_process_exec env p s)"
  unfolding locked_process_exec_def Let_def by (assumption | rule lock_rules | simp)+

lemma ends_process_exit: "held g [] s \<Longrightarrow> holds g [] (locked_process_exit env p s)"
  unfolding locked_process_exit_def Let_def by (assumption | rule lock_rules | simp)+

lemma ends_rb_read: "held g [] s \<Longrightarrow> holds g [] (locked_rb_read env r items sz s)"
  unfolding locked_rb_read_def smon_rb_lock_def smon_rb_unlock_def Let_def by (assumption | rule lock_rules | simp)+

lemma ends_poll: "held g [] s \<Longrightarrow> holds2 g [] (locked_poll env p s)"
  unfolding locked_poll_def smon_rb_lock_def smon_rb_unlock_def Let_def by (assumption | rule lock_rules | simp)+

text \<open>
  Unregistering takes the children off their ring without their lock, so accesses to the rings are left
  out of what is checked.
\<close>

fun not_children :: "smon_lock \<Rightarrow> bool" where
  "not_children (ChildrenLock a) \<longleftrightarrow> False"
| "not_children _ \<longleftrightarrow> True"

lemma ends_loop [lock_rules]:
  assumes "held not_children [] s"
  shows "holds not_children [] (locked_unregister_loop env head child tmp s)"
proof -
  have "held not_children [] s \<longrightarrow> held not_children [] s'"
    if "locked_unregister_loop env head child tmp s = Some s'" for s'
  proof (rule locked_unregister_loop.raw_induct [where P = "\<lambda>env head child tmp s s'.
      held not_children [] s \<longrightarrow> held not_children [] s'", OF _ that], intro impI)
    fix f env head child tmp s s'
    assume 1: "\<And>env head child tmp s s'. f env head child tmp s = Some s' \<Longrightarrow>
        held not_children [] s \<longrightarrow> held not_children [] s'" and
      2: "(if child = head then Some s
        else access (ChildrenLock head) (children_del child) s \<bind> (\<lambda>s.
             plain (modify_task child (\<lambda>t. t\<lparr>t_timer := hrtimer_cancel (t_timer t)\<rparr>)) s \<bind> (\<lambda>s.
             locked_destroy_task env child s \<bind> (\<lambda>s.
             ks_tasks (snd s) tmp \<bind> (\<lambda>n. f env head tmp (t_ch_next n) s))))) = Some s'" and
      3: "held not_children [] s"
    have f: "holds not_children [] (f env head tmp n s)" if "held not_children [] s" for n s
      using 1 that by (auto simp: ends_def)
    have "holds not_children [] (if child = head then Some s
        else access (ChildrenLock head) (children_del child) s \<bind> (\<lambda>s.
             plain (modify_task child (\<lambda>t. t\<lparr>t_timer := hrtimer_cancel (t_timer t)\<rparr>)) s \<bind> (\<lambda>s.
             locked_destroy_task env child s \<bind> (\<lambda>s.
             ks_tasks (snd s) tmp \<bind> (\<lambda>n. f env head tmp (t_ch_next n) s)))))"
      using 3 by - (assumption | rule lock_rules f | simp)+
    then show "held not_children [] s'" unfolding ends_def using 2 by blast
  qed
  then show ?thesis using assms by (simp add: ends_def)
qed

lemma ends_unregister_at [lock_rules]:
  "held not_children [] s \<Longrightarrow> holds not_children [] (locked_unregister_at env a s)"
  unfolding locked_unregister_at_def locked_unregister_children_def by (assumption | rule lock_rules | simp)+

lemma ends_unregister_task: "held not_children [] s \<Longrightarrow> holds2 not_children [] (locked_unregister_task env pid s)"
  unfolding locked_unregister_task_def Let_def by (assumption | rule lock_rules | simp)+

section \<open>A fork\<close>

text \<open>
  What a fork can rely on: the parent is the process that runs it and the child does not run yet, so
  neither moves to another processor nor exits meanwhile, and nobody else uses the new structure.
\<close>

definition steady :: "addr option \<Rightarrow> addr \<Rightarrow> addr \<Rightarrow> interference \<Rightarrow> bool" where
  "steady alloc parent child env \<longleftrightarrow> (\<forall>n ks.
     ks_task_cpu (env n ks) parent = ks_task_cpu ks parent \<and> ks_task_cpu (env n ks) child = ks_task_cpu ks child \<and>
     (\<forall>a t. ks_tasks ks a = Some t \<longrightarrow> t_p t = Some parent \<longrightarrow>
        (\<exists>t'. ks_tasks (env n ks) a = Some t' \<and> t_p t' = Some parent)) \<and>
     (\<forall>b. alloc = Some b \<longrightarrow> ks_tasks ks b = None \<longrightarrow> ks_tasks (env n ks) b = None))"

definition at_home :: "addr \<Rightarrow> addr \<Rightarrow> addr \<Rightarrow> nat \<Rightarrow> nat \<Rightarrow> kstate \<Rightarrow> bool" where
  "at_home a parent child cpu ccpu ks \<longleftrightarrow> ks_task_cpu ks parent = cpu \<and> ks_task_cpu ks child = ccpu \<and>
     (\<exists>t. ks_tasks ks a = Some t \<and> t_p t = Some parent)"

lemma at_home_env: "steady alloc parent child env \<Longrightarrow> at_home a parent child cpu ccpu ks \<Longrightarrow> at_home a parent child cpu ccpu (env n ks)"
  unfolding steady_def at_home_def by metis

lemma at_home_modify:
  "modify_task b f ks = Some ks' \<Longrightarrow> (\<And>t. t_p (f t) = t_p t) \<Longrightarrow> at_home a parent child cpu ccpu ks \<Longrightarrow> at_home a parent child cpu ccpu ks'"
  by (auto simp: modify_task_def at_home_def put_task_def bind_eq_Some_conv)

lemma at_home_add: "children_add c h ks = Some ks' \<Longrightarrow> at_home a parent child cpu ccpu ks \<Longrightarrow> at_home a parent child cpu ccpu ks'"
  unfolding children_add_def Let_def bind_eq_Some_conv by (elim exE conjE) (drule at_home_modify, simp, assumption)+

lemma at_home_create:
  assumes "smon_create_child alloc h p ks = Some (r, ks')" and "\<And>b. alloc = Some b \<Longrightarrow> ks_tasks ks b = None"
    and "at_home a parent child cpu ccpu ks"
  shows "at_home a parent child cpu ccpu ks'"
  using assms
  by (auto simp: smon_create_child_def at_home_def put_task_def put_rb_def put_envir_def bind_eq_Some_conv Let_def
      split: option.split_asm)

lemma within_state: "within env l f s = Some s' \<Longrightarrow> f (env (length (fst s)) (snd s)) = Some (snd s')"
  by (auto simp: within_def access_def plain_def spin_lock_def spin_unlock_def touching_def bind_eq_Some_conv)

lemma within_trace: "within env l f s = Some s' \<Longrightarrow> fst s' = fst s @ [Acquire l, Touch l, Release l]"
  by (auto simp: within_def access_def plain_def spin_lock_def spin_unlock_def touching_def bind_eq_Some_conv)

lemma ends_seq: "ends P m \<Longrightarrow> (\<And>s. P s \<Longrightarrow> ends Q (f s)) \<Longrightarrow> ends Q (Option.bind m f)"
  by (auto simp: ends_def bind_eq_Some_conv)

lemma ends_register_child:
  assumes h: "held g [CpuLock cpu] s" and env: "steady alloc parent child env"
    and home: "at_home a parent child cpu cpu (snd s)" and al: "\<And>b. alloc = Some b \<Longrightarrow> ks_tasks (snd s) b = None"
  shows "holds2 g [CpuLock cpu] (locked_register_child env alloc a child s)"
proof (cases "smon_create_child alloc a child (snd s)")
  case (Some rk)
  obtain c k1 where rk: "rk = (c, k1)" by (cases rk)
  have 1: "at_home a parent child cpu cpu k1" using at_home_create [OF Some [unfolded rk] al home] by blast
  have cpu: "ks_task_cpu (snd s) child = cpu" using home by (simp add: at_home_def)
  show ?thesis
  proof (cases c)
    case None
    then show ?thesis using h Some rk
      by (simp add: locked_register_child_def Let_def ends_def held_pair)
  next
    case (Some b)
    define add where "add = (\<lambda>ks. children_add b a ks \<bind> modify_task a (\<lambda>t. t\<lparr>t_n_children := t_n_children t + 1\<rparr>))"
    have add: "at_home a parent child cpu cpu k'" if "add k = Some k'" "at_home a parent child cpu cpu k" for k k'
      using that at_home_add at_home_modify by (auto simp: add_def bind_eq_Some_conv)
    have "ends (\<lambda>x. held g [CpuLock cpu] (snd x)) (plain (modify_task b (\<lambda>t. t\<lparr>t_timer := hrtimer_init, t_kt_remain := 0\<rparr>)) (fst s, k1) \<bind>
        (\<lambda>s. within env (ChildrenLock a) add s \<bind> (\<lambda>s. ks_tasks (snd s) a \<bind> (\<lambda>pt. t_p pt \<bind> (\<lambda>pp.
        (if cpu = ks_task_cpu (snd s) pp then access (CpuLock cpu) (add_to_cpu cpu b) s
         else within env (CpuLock cpu) (add_to_cpu cpu b) s) \<bind> (\<lambda>s. Some (0 :: i32, s)))))))"
    proof -
      define P where "P s \<longleftrightarrow> held g [CpuLock cpu] s \<and> at_home a parent child cpu cpu (snd s)" for s :: lk
      have p: "ends P (plain (modify_task b (\<lambda>t. t\<lparr>t_timer := hrtimer_init, t_kt_remain := 0\<rparr>)) (fst s, k1))"
        using h 1 by (auto simp: ends_def P_def plain_def held_def intro: at_home_modify)
      have w: "ends P (within env (ChildrenLock a) add s)" if s: "P s" for s
      proof -
        have "holds g [CpuLock cpu] (within env (ChildrenLock a) add s)"
          by (rule ends_within) (use s in \<open>simp_all add: P_def\<close>)
        moreover have "at_home a parent child cpu cpu (env (length (fst s)) (snd s))"
          using at_home_env [OF env] s by (simp add: P_def)
        ultimately show ?thesis using add within_state [of env "ChildrenLock a" add s]
          unfolding ends_def P_def by blast
      qed
      show ?thesis
      proof (rule ends_seq [OF p], rule ends_seq [OF w], assumption)
        fix s assume s: "P s"
        then obtain t where t: "ks_tasks (snd s) a = Some t" "t_p t = Some parent" "ks_task_cpu (snd s) parent = cpu"
          by (auto simp: P_def at_home_def)
        have "held g [CpuLock cpu] s" using s by (simp add: P_def)
        then show "holds2 g [CpuLock cpu] (ks_tasks (snd s) a \<bind> (\<lambda>pt. t_p pt \<bind> (\<lambda>pp.
            (if cpu = ks_task_cpu (snd s) pp then access (CpuLock cpu) (add_to_cpu cpu b) s
             else within env (CpuLock cpu) (add_to_cpu cpu b) s) \<bind> (\<lambda>s. Some (0 :: i32, s)))))"
          unfolding t(1) bind.bind_lunit t(2,3) if_True by - (assumption | rule lock_rules | simp)+
      qed
    qed
    then show ?thesis using Some \<open>smon_create_child alloc a child (snd s) = Some rk\<close> rk cpu
      by (simp add: locked_register_child_def Let_def add_def)
  qed
qed (simp add: locked_register_child_def Let_def ends_def)

lemma ends_process_fork:
  assumes h: "held g [] s" and env: "steady alloc parent child env"
    and near: "ks_task_cpu (snd s) child = ks_task_cpu (snd s) parent"
    and al: "\<And>b. alloc = Some b \<Longrightarrow> ks_tasks (snd s) b = None"
  shows "holds g [] (locked_process_fork env alloc parent child s)"
proof -
  define cpu where "cpu = ks_task_cpu (snd s) parent"
  define s1 where "s1 = spin_lock env (CpuLock cpu) s"
  have s1: "held g [CpuLock cpu] s1" unfolding s1_def by (rule held_lock [OF h]) simp
  have st: "snd s1 = env (length (fst s)) (snd s)" by (simp add: s1_def spin_lock_def)
  have al1: "\<And>b. alloc = Some b \<Longrightarrow> ks_tasks (snd s1) b = None" using al env unfolding st steady_def by blast
  have cpus: "ks_task_cpu (snd s1) parent = cpu" "ks_task_cpu (snd s1) child = cpu"
    using env near unfolding st steady_def cpu_def by simp_all
  define rest where "rest = (\<lambda>found s. (case found of
      None \<Rightarrow> Some s
    | Some a \<Rightarrow> do {
        t \<leftarrow> ks_tasks (snd s) a;
        e \<leftarrow> task_envir t (snd s);
        s \<leftarrow> (if envir_option_inherit e
             then do { (r, s) \<leftarrow> locked_register_child env alloc a child s; Some s }
             else Some s);
        if envir_option_fork e
        then do {
          let (tsc, m) = msr_rdtsc (ks_mach (snd s));
          let sample = \<lparr>sf_timestamp = tsc, sf_parent = t_pid t, sf_child = ks_pid (snd s) child\<rparr>;
          s \<leftarrow> plain (\<lambda>ks. Some (ks\<lparr>ks_mach := m\<rparr>)) s;
          locked_sample_write env (t_rb t) SAMPLE_TYPE_FORK (fork_image sample) s
        }
        else Some s
      }))"
  have "ends (\<lambda>s. held g [CpuLock cpu] s) (rest found s2)"
    if f: "search (CpuLock cpu) (\<lambda>t. t_p t = Some parent) (\<lambda>ks. ks_cpu_list ks cpu) s1 = Some (found, s2)" for found s2
  proof (cases found)
    case None
    then show ?thesis using f s1 by (auto simp: rest_def search_def ends_def intro: held_touching)
  next
    case (Some a)
    have s2: "held g [CpuLock cpu] s2" "snd s2 = snd s1" "find_entry (\<lambda>t. t_p t = Some parent) (snd s1) (ks_cpu_list (snd s1) cpu) = Some (Some a)"
      using f s1 Some by (auto simp: search_def touching_def intro: held_touching [unfolded touching_def])
    from find_entry_Some [OF s2(3)] have "at_home a parent child cpu cpu (snd s2)" using cpus by (auto simp: at_home_def s2(2))
    from ends_register_child [OF s2(1) env this] al1 have r: "holds2 g [CpuLock cpu] (locked_register_child env alloc a child s2)"
      by (simp add: s2(2))
    show ?thesis unfolding rest_def Some option.case Let_def using s2(1) r by - (assumption | rule lock_rules | simp)+
  qed
  note rest = this
  have run: "locked_process_fork env alloc parent child s =
      search (CpuLock cpu) (\<lambda>t. t_p t = Some parent) (\<lambda>ks. ks_cpu_list ks cpu) s1 \<bind> (\<lambda>(found, s).
      rest found s \<bind> (\<lambda>s. Some (spin_unlock (CpuLock cpu) s)))"
    unfolding locked_process_fork_def Let_def cpu_def [symmetric] s1_def [symmetric] rest_def by simp
  show ?thesis unfolding run ends_def
  proof (intro allI impI)
    fix s' assume "search (CpuLock cpu) (\<lambda>t. t_p t = Some parent) (\<lambda>ks. ks_cpu_list ks cpu) s1 \<bind> (\<lambda>(found, s).
      rest found s \<bind> (\<lambda>s. Some (spin_unlock (CpuLock cpu) s))) = Some s'"
    then obtain found s2 s3 where "search (CpuLock cpu) (\<lambda>t. t_p t = Some parent) (\<lambda>ks. ks_cpu_list ks cpu) s1 = Some (found, s2)"
      "rest found s2 = Some s3" and s': "s' = spin_unlock (CpuLock cpu) s3"
      by (auto simp: bind_eq_Some_conv simp del: split_paired_Ex)
    with rest have "held g [CpuLock cpu] s3" unfolding ends_def by blast
    then show "held g [] s'" unfolding s' by (rule held_unlock)
  qed
qed

section \<open>All calls\<close>

fun checked :: "smon_call \<Rightarrow> smon_lock \<Rightarrow> bool" where
  "checked (UnregisterCall pid) = not_children"
| "checked _ = (\<lambda>l. True)"

fun local_fork :: "interference \<Rightarrow> smon_call \<Rightarrow> kstate \<Rightarrow> bool" where
  "local_fork env (ForkCall alloc parent child) ks \<longleftrightarrow> steady alloc parent child env \<and>
     ks_task_cpu ks child = ks_task_cpu ks parent \<and> (\<forall>b. alloc = Some b \<longrightarrow> ks_tasks ks b = None)"
| "local_fork env _ ks \<longleftrightarrow> True"

lemma ends_snd: "ends (\<lambda>x. P (snd x)) r \<Longrightarrow> ends P (map_option snd r)"
  by (auto simp: ends_def)

lemma ends_call:
  assumes "local_fork env c (snd s)" and "held (checked c) [] s"
  shows "holds (checked c) [] (call_locked env c s)"
  using assms
  by (cases c) (auto intro!: ends_snd ends_switch ends_migrate_task ends_process_fork ends_process_exec ends_process_exit
      ends_timer_tick ends_timer_rapl ends_register_task ends_unregister_task ends_rb_read ends_poll)

lemma call_disciplined:
  assumes "call_locked env c ([], ks) = Some (tr, ks')" and "local_fork env c ks"
  shows "disciplined lock_rank (checked c) tr"
proof -
  have "held (checked c) [] ([], ks)" by (simp add: held_def)
  with ends_call [of env c "([], ks)"] assms show ?thesis by (auto simp: ends_def held_def disciplined_def)
qed

text \<open>Every way a call can go, whatever state it starts from and whatever others do meanwhile.\<close>

definition call_traces :: "smon_lock lock_op list set" where
  "call_traces = {tr. \<exists>env c ks ks'. call_locked env c ([], ks) = Some (tr, ks') \<and> local_fork env c ks}"

interpretation smon_locks: lock_order lock_rank not_children call_traces
proof
  fix tr assume "tr \<in> call_traces"
  then obtain env c ks ks' where "call_locked env c ([], ks) = Some (tr, ks')" "local_fork env c ks"
    by (auto simp: call_traces_def)
  from call_disciplined [OF this] have "lock_run lock_rank (checked c) [] tr = Some []" by (simp add: disciplined_def)
  then have "lock_run lock_rank not_children [] tr = Some []" by (rule lock_run_weaken) (cases c; simp)
  then show "disciplined lock_rank not_children tr" by (simp add: disciplined_def)
qed

section \<open>A fork across processors\<close>

definition grown :: "smon_lock lock_op list \<Rightarrow> lk \<Rightarrow> bool" where
  "grown pre s \<longleftrightarrow> (\<exists>rest. fst s = pre @ rest)"

lemma grown_plain: "plain f s = Some s' \<Longrightarrow> grown pre s' = grown pre s"
  by (auto simp: plain_def grown_def)

lemma grown_ops: "grown pre s \<Longrightarrow> grown pre (spin_lock env l s)" "grown pre s \<Longrightarrow> grown pre (spin_unlock l s)"
  "grown pre s \<Longrightarrow> grown pre (touching l s)"
  by (auto simp: grown_def spin_lock_def spin_unlock_def touching_def)

lemma grown_sample_write: "locked_sample_write env p ty im s = Some s' \<Longrightarrow> grown pre s \<Longrightarrow> grown pre s'"
  by (auto simp: locked_sample_write_def locked_rb_write_def smon_rb_lock_def smon_rb_unlock_def access_def Let_def
      bind_eq_Some_conv grown_plain grown_ops split: option.split_asm if_split_asm)

lemma fork_across:
  assumes run: "locked_process_fork calm alloc parent child ([], ks) = Some s'"
    and f: "find_entry (\<lambda>t. t_p t = Some parent) ks (ks_cpu_list ks (ks_task_cpu ks parent)) = Some (Some h)"
    and t: "ks_tasks ks h = Some t" "task_envir t ks = Some e" "envir_option_inherit e"
    and al: "alloc = Some b" "ks_tasks ks b = None" and far: "ks_task_cpu ks child \<noteq> ks_task_cpu ks parent"
  shows "grown [Acquire (CpuLock (ks_task_cpu ks parent)), Touch (CpuLock (ks_task_cpu ks parent)),
      Acquire (ChildrenLock h), Touch (ChildrenLock h), Release (ChildrenLock h),
      Acquire (CpuLock (ks_task_cpu ks child))] s'"
proof -
  define c d where "c = ks_task_cpu ks parent" and "d = ks_task_cpu ks child"
  define pre where "pre = [Acquire (CpuLock c), Touch (CpuLock c), Acquire (ChildrenLock h), Touch (ChildrenLock h),
      Release (ChildrenLock h), Acquire (CpuLock d)]"
  define s1 where "s1 = ([Acquire (CpuLock c), Touch (CpuLock c)], ks)"
  define add where "add = (\<lambda>ks. children_add b h ks \<bind> modify_task h (\<lambda>t. t\<lparr>t_n_children := t_n_children t + 1\<rparr>))"
  have p: "t_p t = Some parent" using find_entry_Some [OF f] t(1) by auto
  then have home: "at_home h parent child c d ks" using t(1) by (simp add: at_home_def c_def d_def)
  have s: "search (CpuLock c) (\<lambda>t. t_p t = Some parent) (\<lambda>ks. ks_cpu_list ks c) (spin_lock calm (CpuLock c) ([], ks)) =
      Some (Some h, s1)"
    using f by (simp add: search_def spin_lock_def touching_def calm_def c_def s1_def)
  define tail where "tail = (\<lambda>s. if envir_option_fork e
      then do {
        let (tsc, m) = msr_rdtsc (ks_mach (snd s));
        let sample = \<lparr>sf_timestamp = tsc, sf_parent = t_pid t, sf_child = ks_pid (snd s) child\<rparr>;
        s \<leftarrow> plain (\<lambda>ks. Some (ks\<lparr>ks_mach := m\<rparr>)) s;
        locked_sample_write calm (t_rb t) SAMPLE_TYPE_FORK (fork_image sample) s
      }
      else Some s)"
  have "locked_process_fork calm alloc parent child ([], ks) =
      locked_register_child calm alloc h child s1 \<bind> (\<lambda>(r, s). tail s \<bind> (\<lambda>s. Some (spin_unlock (CpuLock c) s)))"
    unfolding locked_process_fork_def Let_def c_def [symmetric] snd_conv s tail_def
    using t by (simp add: s1_def split_def)
  with run obtain r s2 s3 where reg: "locked_register_child calm alloc h child s1 = Some (r, s2)"
    and tail: "tail s2 = Some s3" and s': "s' = spin_unlock (CpuLock c) s3"
    by (auto simp: bind_eq_Some_conv simp del: split_paired_Ex)
  have grown_tail: "grown pre s3" if "grown pre s2"
    using tail that by (auto simp: tail_def Let_def case_prod_unfold bind_eq_Some_conv grown_plain
        dest: grown_sample_write split: if_split_asm)
  from reg obtain c1 k1 where "smon_create_child alloc h child ks = Some (c1, k1)"
    unfolding locked_register_child_def Let_def by (auto simp: s1_def bind_eq_Some_conv)
  moreover from this al(1) have "c1 = Some b"
    by (auto simp: smon_create_child_def bind_eq_Some_conv Let_def)
  ultimately have create: "smon_create_child alloc h child ks = Some (Some b, k1)" by simp
  have s1: "snd s1 = ks" by (simp add: s1_def)
  from reg obtain s4 s5 where
    4: "plain (modify_task b (\<lambda>t. t\<lparr>t_timer := hrtimer_init, t_kt_remain := 0\<rparr>)) (fst s1, k1) = Some s4" and
    5: "within calm (ChildrenLock h) add s4 = Some s5" and
    6: "ks_tasks (snd s5) h \<bind> (\<lambda>pt. t_p pt \<bind> (\<lambda>pp.
        if d = ks_task_cpu (snd s5) pp then access (CpuLock d) (add_to_cpu d b) s5
        else within calm (CpuLock d) (add_to_cpu d b) s5)) = Some s2"
    unfolding locked_register_child_def add_def Let_def s1 create d_def [symmetric]
    by (simp add: bind_eq_Some_conv del: split_paired_Ex) blast
  note k1 = at_home_create [OF create _ home]
  have "at_home h parent child c d (snd s4)" using 4 k1 al
    by (auto simp: plain_def intro: at_home_modify)
  then have "at_home h parent child c d (snd s5)" using within_state [OF 5]
    by (auto simp: calm_def add_def bind_eq_Some_conv intro: at_home_modify at_home_add)
  then obtain pt where "ks_tasks (snd s5) h = Some pt" "t_p pt = Some parent" "ks_task_cpu (snd s5) parent = c"
    by (auto simp: at_home_def)
  with 6 far have w: "within calm (CpuLock d) (add_to_cpu d b) s5 = Some s2" by (simp add: c_def d_def)
  have "fst s4 = fst s1" using 4 by (auto simp: plain_def)
  with within_trace [OF 5] within_trace [OF w] have "grown pre s2" by (simp add: s1_def pre_def grown_def)
  from grown_tail [OF this] show ?thesis unfolding s' pre_def c_def d_def by (rule grown_ops)
qed

text \<open>Two forks on two processors, each with its child on the processor of the other, wait for each other.\<close>

lemma crossing_forks:
  assumes x: "xs = [Acquire (CpuLock c), Touch (CpuLock c), Acquire (ChildrenLock h), Touch (ChildrenLock h),
      Release (ChildrenLock h), Acquire (CpuLock d)] @ xs'"
    and y: "ys = [Acquire (CpuLock d), Touch (CpuLock d), Acquire (ChildrenLock k), Touch (ChildrenLock k),
      Release (ChildrenLock k), Acquire (CpuLock c)] @ ys'" and "c \<noteq> d"
  shows "\<exists>m. lock_reach (\<lambda>i. if i = 0 then xs else if i = 1 then ys else []) m \<and> (\<forall>i. lock_step i m = None) \<and> \<not> finished m"
proof -
  define m where "m = \<lparr>lk_owner = [CpuLock c \<mapsto> 0, CpuLock d \<mapsto> (1 :: nat)],
      lk_todo = (\<lambda>i. if i = 0 then Acquire (CpuLock d) # xs' else if i = 1 then Acquire (CpuLock c) # ys' else [])\<rparr>"
  have "fold_opt lock_step [0, 0, 0, 0, 0, 1, 1, 1, 1, 1]
      \<lparr>lk_owner = Map.empty, lk_todo = (\<lambda>i. if i = 0 then xs else if i = 1 then ys else [])\<rparr> = Some m"
    using \<open>c \<noteq> d\<close> by (auto simp: lock_step_def x y m_def fun_eq_iff)
  then have "lock_reach (\<lambda>i. if i = 0 then xs else if i = 1 then ys else []) m" by (rule lock_reach_schedule)
  moreover have "lock_step i m = None" for i using \<open>c \<noteq> d\<close> by (simp add: lock_step_def m_def)
  moreover have "\<not> finished m" by (auto simp: finished_def m_def)
  ultimately show ?thesis by blast
qed

end
