(* ===== verification/Prop_Locks.thy ===== *)
theory Prop_Locks
  imports Lock_Erase Lock_Facts Example_States
begin

text \<open>The properties of the spinlocks.\<close>

section \<open>The functions with locks are the functions without\<close>

text \<open>
  Taking the locks changes nothing but the order of things: run while no other processor interferes, a
  call with its spinlocks does to the state exactly what the version without locks does.
\<close>

lemma locks_only_order: "map_option snd (call_locked calm c (tr, ks)) = call_exec c ks"
  using call_erase [of c "(tr, ks)"] by (simp add: erase_def)

section \<open>The order of the locks\<close>

text \<open>
  C10: Whatever state a call starts from and whatever the other processors change while it waits for its
  locks, it takes a lock only while all locks it holds come earlier in the order, releases only what it
  holds, touches a list or a buffer only under its lock, and ends with no lock held. A fork needs the
  child to be on its parent's processor; unregistering is checked for all but the rings of children.
\<close>

theorem calls_keep_order:
  assumes "call_locked env c ([], ks) = Some (tr, ks')" and "local_fork env c ks"
  shows "disciplined lock_rank (checked c) tr"
  using assms by (rule call_disciplined)

lemma calm_steady: "steady alloc parent child calm"
  by (simp add: steady_def calm_def)

lemma calm_runs: "call_exec c ks \<noteq> None \<Longrightarrow> \<exists>tr ks'. call_locked calm c ([], ks) = Some (tr, ks')"
  using call_erase [of c "([], ks)"] by (auto simp: erase_def)

theorem calls_keep_order_witness:
  "\<exists>tr ks'. call_locked calm (ForkCall (Some 40) 5 6) ([], ex_kernel True) = Some (tr, ks') \<and>
     disciplined lock_rank (checked (ForkCall (Some 40) 5 6)) tr"
proof -
  have fresh: "fresh_task (ex_kernel True) 40"
    by (auto simp: fresh_task_def ex_kernel_fields ex_task_fields)
  have "call_exec (ForkCall (Some 40) 5 6) (ex_kernel True) \<noteq> None"
    using fork_safe [OF ex_kernel_inv, of "Some 40" True 5 6] fresh by (auto simp: safe_def)
  from calm_runs [OF this] obtain tr ks' where
    run: "call_locked calm (ForkCall (Some 40) 5 6) ([], ex_kernel True) = Some (tr, ks')" by blast
  have "local_fork calm (ForkCall (Some 40) 5 6) (ex_kernel True)"
    by (simp add: calm_steady ex_kernel_fields)
  from calls_keep_order [OF run this] run show ?thesis by blast
qed

section \<open>No deadlock\<close>

text \<open>
  C9: Any number of processors, each running calls one after the other and interrupted by further calls
  wherever it holds no lock, never block each other for good: in every state they reach they are all done
  and all locks are free, or one of them can go on and the number of operations left falls; and a
  processor about to touch a list of tasks or a buffer owns its lock. The calls are the hooks, the timers,
  registering, unregistering, the reader's report and poll, as far as they return, from any state and with
  any interference of the other processors; of the forks only those with the child on its parent's
  processor, and an interference that keeps both processes there, keeps the parent's tasks its own and
  leaves the new task's address unused (\<open>local_fork\<close>). Forks across processors are left out because they do
  deadlock (C38).
\<close>

theorem processors_never_deadlock:
  assumes "\<And>i. progs i \<in> programs call_traces" and "\<And>i. n \<le> i \<Longrightarrow> progs i = []" and "lock_reach progs m"
  shows "(finished m \<or> (\<exists>i m'. lock_step i m = Some m' \<and> todo_left n m' < todo_left n m)) \<and>
    (\<forall>i l xs. lk_todo m i = Touch l # xs \<longrightarrow> not_children l \<longrightarrow> lk_owner m l = Some i)"
proof (intro conjI allI impI)
  show "finished m \<or> (\<exists>i m'. lock_step i m = Some m' \<and> todo_left n m' < todo_left n m)"
  proof (cases "\<exists>i. lock_step i m \<noteq> None")
    case True
    then obtain i m' where s: "lock_step i m = Some m'" by blast
    have "i < n"
    proof (rule ccontr)
      assume "\<not> i < n"
      then have "lk_todo m i = []" using smon_locks.reach_idle [OF assms(3)] assms(2) by simp
      with s show False by (simp add: lock_step_def)
    qed
    from lock_step_less [OF s this] s show ?thesis by blast
  next
    case False
    then show ?thesis using smon_locks.no_deadlock [OF assms(3,1,2)] by blast
  qed
qed (rule smon_locks.no_race [OF assms(3,1)])

definition ex_poll :: "nat \<Rightarrow> smon_lock lock_op list" where
  "ex_poll i = (if i < 2 then [Acquire (RbLock 10), Touch (RbLock 10), Release (RbLock 10)] else [])"

theorem processors_never_deadlock_witness:
  "\<exists>m. lock_reach ex_poll m \<and> \<not> finished m \<and> lock_step 1 m = None \<and>
     (\<exists>i m'. lock_step i m = Some m' \<and> todo_left 2 m' < todo_left 2 m)"
proof -
  define m where "m = \<lparr>lk_owner = [RbLock 10 \<mapsto> 0 :: nat],
      lk_todo = ex_poll(0 := [Touch (RbLock 10), Release (RbLock 10)])\<rparr>"
  have "call_locked calm (PollCall (Some 10)) ([], ex_kernel True) =
      Some ([Acquire (RbLock 10), Touch (RbLock 10), Release (RbLock 10)], ex_kernel True)"
    by (simp add: locked_poll_def smon_rb_lock_def smon_rb_unlock_def spin_lock_def spin_unlock_def touching_def
        calm_def ex_kernel_fields)
  then have "[Acquire (RbLock 10), Touch (RbLock 10), Release (RbLock 10)] \<in> call_traces"
    unfolding call_traces_def by (intro CollectI exI [of _ calm] exI [of _ "PollCall (Some 10)"]) auto
  from programs.call [OF this programs.idle] have p: "ex_poll i \<in> programs call_traces" for i
    by (simp add: ex_poll_def programs.idle)
  have "fold_opt lock_step [0] \<lparr>lk_owner = Map.empty, lk_todo = ex_poll\<rparr> = Some m"
    by (simp add: lock_step_def ex_poll_def m_def)
  then have r: "lock_reach ex_poll m" by (rule lock_reach_schedule)
  moreover have "\<not> finished m" by (auto simp: finished_def m_def)
  moreover have "lock_step 1 m = None" by (simp add: lock_step_def m_def ex_poll_def)
  moreover have "ex_poll i = []" if "2 \<le> i" for i using that by (simp add: ex_poll_def)
  ultimately show ?thesis using processors_never_deadlock [of ex_poll 2 m, OF p] by blast
qed

section \<open>Forks across processors\<close>

text \<open>
  C38: Two forks of monitored tasks, each with its child on the other one's processor, can block each
  other for good: both hold the lock of their own processor's list while they wait for the other's.
\<close>

theorem crossing_forks_deadlock:
  assumes p: "find_entry (\<lambda>t. t_p t = Some p) ks (ks_cpu_list ks (ks_task_cpu ks p)) = Some (Some h)"
    "ks_tasks ks h = Some t" "task_envir t ks = Some e" "envir_option_inherit e" "ks_tasks ks a = None"
    and q: "find_entry (\<lambda>t. t_p t = Some q) ks (ks_cpu_list ks (ks_task_cpu ks q)) = Some (Some k)"
    "ks_tasks ks k = Some u" "task_envir u ks = Some f" "envir_option_inherit f" "ks_tasks ks b = None"
    and cpus: "ks_task_cpu ks p \<noteq> ks_task_cpu ks q" "ks_task_cpu ks c = ks_task_cpu ks q" "ks_task_cpu ks d = ks_task_cpu ks p"
    and run: "call_locked calm (ForkCall (Some a) p c) ([], ks) = Some (xs, k1)"
    "call_locked calm (ForkCall (Some b) q d) ([], ks) = Some (ys, k2)"
  shows "\<exists>m. lock_reach (\<lambda>i. if i = 0 then xs else if i = 1 then ys else []) m \<and>
    (\<forall>i. lock_step i m = None) \<and> \<not> finished m"
proof -
  have "ks_task_cpu ks c \<noteq> ks_task_cpu ks p" "ks_task_cpu ks d \<noteq> ks_task_cpu ks q" using cpus by simp_all
  from fork_across [OF run(1) [unfolded call_locked.simps] p(1-4) refl p(5) this(1)]
    fork_across [OF run(2) [unfolded call_locked.simps] q(1-4) refl q(5) this(2)]
  obtain xs' ys' where
    "xs = [Acquire (CpuLock (ks_task_cpu ks p)), Touch (CpuLock (ks_task_cpu ks p)), Acquire (ChildrenLock h),
      Touch (ChildrenLock h), Release (ChildrenLock h), Acquire (CpuLock (ks_task_cpu ks q))] @ xs'"
    "ys = [Acquire (CpuLock (ks_task_cpu ks q)), Touch (CpuLock (ks_task_cpu ks q)), Acquire (ChildrenLock k),
      Touch (ChildrenLock k), Release (ChildrenLock k), Acquire (CpuLock (ks_task_cpu ks p))] @ ys'"
    by (auto simp: grown_def cpus(2,3))
  from crossing_forks [OF this cpus(1)] show ?thesis .
qed

text \<open>Two tasks on two processors; the processes 7 and 8 are the children that each of them forks on the other.\<close>

definition ex_two :: kstate where
  "ex_two = ex_idle\<lparr>
     ks_tasks := [20 \<mapsto> ex_task True, 21 \<mapsto> (ex_task True)\<lparr>t_p := Some 6, t_ch_next := 21, t_ch_prev := 21\<rparr>],
     ks_envirs := [30 \<mapsto> ex_envir\<lparr>options := ENVOP_INH\<rparr>], ks_rbs := [10 \<mapsto> ex_rb 2], ks_task_list := [20, 21],
     ks_cpu_list := (\<lambda>c. if c = 0 then [20] else if c = 1 then [21] else []),
     ks_task_cpu := (\<lambda>p. if p = 6 \<or> p = 7 then 1 else 0)\<rparr>"

theorem crossing_forks_deadlock_witness:
  "\<exists>xs ys k1 k2 m. call_locked calm (ForkCall (Some 40) 5 7) ([], ex_two) = Some (xs, k1) \<and>
     call_locked calm (ForkCall (Some 41) 6 8) ([], ex_two) = Some (ys, k2) \<and>
     lock_reach (\<lambda>i. if i = 0 then xs else if i = 1 then ys else []) m \<and> (\<forall>i. lock_step i m = None) \<and> \<not> finished m"
proof -
  define u where "u = (ex_task True)\<lparr>t_p := Some 6, t_ch_next := 21, t_ch_prev := 21\<rparr>"
  define e where "e = ex_envir\<lparr>options := ENVOP_INH\<rparr>"
  have e: "envir_option_inherit e" "\<not> envir_option_fork e"
    by (simp_all add: e_def envir_option_defs envop_defs)
  have f: "ks_tasks ex_two = [20 \<mapsto> ex_task True, 21 \<mapsto> u]" "ks_envirs ex_two = [30 \<mapsto> e]"
    "ks_cpu_list ex_two = (\<lambda>c. if c = 0 then [20] else if c = 1 then [21] else [])"
    "ks_task_cpu ex_two = (\<lambda>p. if p = 6 \<or> p = 7 then 1 else 0)" "ks_rbs ex_two = [10 \<mapsto> ex_rb 2]"
    by (simp_all add: ex_two_def u_def e_def)
  have u: "t_p u = Some 6" "t_envir u = Some 30" "t_rb u = Some 10" "t_ch_next u = 21"
    by (simp_all add: u_def ex_task_fields)
  note defs = smon_sched_process_fork_def smon_sched_register_child_def smon_create_child_def modify_task_def
    children_add_def add_to_cpu_def put_task_def put_rb_def put_envir_def task_envir_def list_add_def task_live_def
  have "call_exec (ForkCall (Some 40) 5 7) ex_two \<noteq> None" "call_exec (ForkCall (Some 41) 6 8) ex_two \<noteq> None"
    by (simp_all add: defs f u e ex_task_fields Let_def)
  from calm_runs [OF this(1)] calm_runs [OF this(2)] obtain xs ys k1 k2 where
    run: "call_locked calm (ForkCall (Some 40) 5 7) ([], ex_two) = Some (xs, k1)"
    "call_locked calm (ForkCall (Some 41) 6 8) ([], ex_two) = Some (ys, k2)" by blast
  have "\<exists>m. lock_reach (\<lambda>i. if i = 0 then xs else if i = 1 then ys else []) m \<and> (\<forall>i. lock_step i m = None) \<and> \<not> finished m"
    by (rule crossing_forks_deadlock [OF _ _ _ e(1) _ _ _ _ e(1) _ _ _ _ run, of 20 "ex_task True" 21 u])
      (simp_all add: f u ex_task_fields task_envir_def)
  with run show ?thesis by blast
qed

section \<open>The same task unregistered twice\<close>

text \<open>
  C37: Unregistering looks the task up under the lock of the list, releases the lock and takes it again to
  unlink the task. When a second call unregisters the same task in between, the first one goes on with a
  structure that has been freed.
\<close>

theorem unregister_twice_faults:
  assumes f: "find_entry (\<lambda>t. t_pid t = pid) ks (ks_task_list ks) = Some (Some a)"
    and t: "ks_tasks ks a = Some t" "t_ch_next t = a" and other: "smon_sched_unregister_task pid ks = Some (r, ks')"
  shows "call_locked (\<lambda>n k. if n = 3 then ks' else k) (UnregisterCall pid) ([], ks) = None"
proof -
  define env :: interference where "env = (\<lambda>n k. if n = 3 then ks' else k)"
  have env: "env 0 k = k" "env (Suc (Suc (Suc 0))) k = ks'" for k by (simp_all add: env_def)
  define s1 where "s1 = ([Acquire TaskLock, Touch TaskLock, Release TaskLock], ks)"
  define k1 where "k1 = put_task a (t\<lparr>t_timer := hrtimer_cancel (t_timer t)\<rparr>) ks"
  from other f have "unregister_at a ks = Some ks'" by (auto simp: smon_sched_unregister_task_def bind_eq_Some_conv)
  then obtain k where "smon_destroy_task a k = Some ks'" by (auto simp: unregister_at_def bind_eq_Some_conv)
  then have gone: "ks_tasks ks' a = None" by (auto simp: smon_destroy_task_def bind_eq_Some_conv)
  have dl: "ks_tasks y a = None" if "del_from_tasks a ks' = Some y" for y
    using that gone by (auto simp: del_from_tasks_def bind_eq_Some_conv)
  have k1: "ks_tasks k1 a = Some (t\<lparr>t_timer := hrtimer_cancel (t_timer t)\<rparr>)" by (simp add: k1_def put_task_def)
  have loop: "locked_unregister_loop env a a n s = Some s" for n s by (subst locked_unregister_loop.simps) simp
  have "locked_unregister_task env pid ([], ks) = map_option (Pair 0) (locked_unregister_at env a s1)"
    using f by (cases "locked_unregister_at env a s1")
      (simp_all add: locked_unregister_task_def search_def spin_lock_def spin_unlock_def touching_def env s1_def)
  moreover have "locked_unregister_at env a s1 = None"
    using t k1 gone
    by (cases "del_from_tasks a ks'")
      (simp_all add: locked_unregister_at_def locked_unregister_children_def plain_def modify_task_def s1_def k1_def [symmetric]
        loop within_def access_def spin_lock_def spin_unlock_def touching_def env dl)
  ultimately show ?thesis by (simp add: env_def)
qed

theorem unregister_twice_faults_witness:
  "\<exists>ks'. smon_sched_unregister_task 7 (ex_kernel False) = Some (0, ks') \<and>
     call_locked (\<lambda>n k. if n = 3 then ks' else k) (UnregisterCall 7) ([], ex_kernel False) = None"
proof -
  have f: "find_entry (\<lambda>t. t_pid t = 7) (ex_kernel False) (ks_task_list (ex_kernel False)) = Some (Some 20)"
    by (simp add: ex_kernel_fields ex_task_fields)
  have l: "20 \<in> set (ks_task_list (ex_kernel False))" by (simp add: ex_kernel_fields)
  have "\<forall>c \<in> family (ex_kernel False) 20. retired (ex_kernel False) c"
    by (simp add: ex_family retired_def ex_kernel_fields ex_task_fields)
  then obtain ks' where "unregister_at 20 (ex_kernel False) = Some ks'"
    by (rule unregister_at_spec [OF ex_kernel_inv l]) (rule that)
  then have u: "smon_sched_unregister_task 7 (ex_kernel False) = Some (0, ks')"
    using f by (simp add: smon_sched_unregister_task_def)
  have "call_locked (\<lambda>n k. if n = 3 then ks' else k) (UnregisterCall 7) ([], ex_kernel False) = None"
    by (rule unregister_twice_faults [where t = "ex_task False", OF f _ _ u]) (simp_all add: ex_kernel_fields ex_task_fields)
  with u show ?thesis by blast
qed

end
