(* ===== verification/Profile.thy ===== *)
theory Profile
  imports C_Text Pipeline Cmd
begin

text \<open>
  \<^verbatim>\<open>tool/src/profile.c\<close> apart from \<^verbatim>\<open>read_samples\<close>: the text of the output file, the
  totals of the count mode, the sampling loop and the processor mask.
\<close>

section \<open>Output\<close>

definition TAB :: char where "TAB = char_of (9 :: nat)"
definition NEWLINE :: char where "NEWLINE = char_of (10 :: nat)"

definition line :: "string \<Rightarrow> string list \<Rightarrow> string" where
  "line name fs = (name @ concat (map (\<lambda>f. TAB # f) fs)) @ [NEWLINE]"

text \<open>The frequency is scaled in \<^verbatim>\<open>unsigned long\<close>.\<close>

definition fprint_sample_info :: "smon_sample_info \<Rightarrow> string" where
  "fprint_sample_info s = line ''[INFO]''
     [fmt_signed (si_timestamp s), fmt_unsigned ((ucast (si_tsc_frequency s) :: u64) * 100000000),
      fmt_unsigned (si_n_cpus s), fmt_unsigned (si_pmc_sample_time s), fmt_unsigned (si_rapl_sample_time s),
      fmt_unsigned (si_evsets s), fmt_signed (energy_units (si_units s)), fmt_signed (power_units (si_units s)),
      fmt_signed (time_units (si_units s))]"

definition fprint_sample_pmc :: "smon_sample_pmc \<Rightarrow> string" where
  "fprint_sample_pmc s = line ''[PMC]''
     ([fmt_signed (sp_start s), fmt_signed (sp_stop s), fmt_signed (sp_duration s), fmt_signed (sp_pid s),
       fmt_signed (sp_evset s)] @
      map (\<lambda>i. fmt_signed (fx (sp_pmc s) ! i)) [0..<3] @ map (\<lambda>i. fmt_signed (gp (sp_pmc s) ! i)) [0..<4])"

definition fprint_sample_rapl :: "smon_sample_rapl \<Rightarrow> string" where
  "fprint_sample_rapl s = line ''[RAPL]''
     [fmt_signed (sr_timestamp s), fmt_signed (sr_duration s), fmt_signed (pkg (sr_rapl s)),
      fmt_signed (pp0 (sr_rapl s)), fmt_signed (pp1 (sr_rapl s))]"

definition fprint_sample_cpu :: "smon_sample_cpu \<Rightarrow> string" where
  "fprint_sample_cpu s = line ''[MIGRATION]''
     [fmt_signed (sc_timestamp s), fmt_signed (sc_pid s), fmt_signed (sc_old_cpu s), fmt_signed (sc_new_cpu s)]"

definition fprint_sample_sched :: "smon_sample_sched \<Rightarrow> string" where
  "fprint_sample_sched s = line ''[SCHED]''
     [fmt_signed (ss_timestamp_in s), fmt_signed (ss_timestamp_out s), fmt_signed (ss_pid s), fmt_signed (ss_cpu s)]"

definition fprint_sample_fork :: "smon_sample_fork \<Rightarrow> string" where
  "fprint_sample_fork s = line ''[FORK]''
     [fmt_signed (sf_timestamp s), fmt_signed (sf_parent s), fmt_signed (sf_child s)]"

fun fprint_sample :: "smon_sample \<Rightarrow> string" where
  "fprint_sample (PmcSample s) = fprint_sample_pmc s"
| "fprint_sample (RaplSample s) = fprint_sample_rapl s"
| "fprint_sample (CpuSample s) = fprint_sample_cpu s"
| "fprint_sample (SchedSample s) = fprint_sample_sched s"
| "fprint_sample (ForkSample s) = fprint_sample_fork s"
| "fprint_sample (InfoSample s) = fprint_sample_info s"

definition output_text :: "smon_sample list \<Rightarrow> string" where
  "output_text ss = concat (map fprint_sample ss)"

section \<open>Count mode\<close>

text \<open>The totals per event-set; an index outside the array is a fault.\<close>

definition add_fields :: "i64 list \<Rightarrow> i64 list \<Rightarrow> i64 list" where
  "add_fields = map2 (+)"

definition add_counts_pmc :: "smon_sample_pmc \<Rightarrow> smon_sample_pmc list \<Rightarrow> smon_sample_pmc list option" where
  "add_counts_pmc s counts =
     (let e = unat (sp_evset s)
      in if e < length counts
         then let c = counts ! e;
                  c = c\<lparr>sp_duration := sp_duration c + sp_duration s\<rparr>;
                  c = c\<lparr>sp_pmc := \<lparr>fx = add_fields (fx (sp_pmc c)) (fx (sp_pmc s)),
                                   gp = add_fields (gp (sp_pmc c)) (gp (sp_pmc s))\<rparr>\<rparr>
              in Some (counts[e := c])
         else None)"

definition add_counts_rapl :: "smon_sample_rapl \<Rightarrow> smon_sample_rapl \<Rightarrow> smon_sample_rapl" where
  "add_counts_rapl s c =
     c\<lparr>sr_duration := sr_duration c + sr_duration s,
       sr_rapl := \<lparr>pkg = pkg (sr_rapl c) + pkg (sr_rapl s), pp0 = pp0 (sr_rapl c) + pp0 (sr_rapl s),
                   pp1 = pp1 (sr_rapl c) + pp1 (sr_rapl s)\<rparr>\<rparr>"

section \<open>The sampling loop\<close>

text \<open>
  \<open>activity n\<close> is what happens to the buffer while the tool sleeps in its \<open>n\<close>-th
  \<^verbatim>\<open>poll\<close>, \<open>polled n\<close> what that call returns. \<open>None\<close> is a fault or a loop that does not end.
\<close>

partial_function (option) start_sampling ::
  "i32 \<Rightarrow> (nat \<Rightarrow> i32) \<Rightarrow> (nat \<Rightarrow> session \<Rightarrow> session option) \<Rightarrow> nat \<Rightarrow> session \<Rightarrow> session option" where
  "start_sampling batch polled activity n st =
     Option.bind (activity n st) (\<lambda>st.
       if polled n = 1
       then Option.bind (sampling_round batch st) (\<lambda>(err, d, st).
              if d \<or> err \<noteq> 0 then Some st else start_sampling batch polled activity (Suc n) st)
       else if polled n = 0 \<or> polled n = - 1 then Some st
       else start_sampling batch polled activity (Suc n) st)"

section \<open>Processor mask\<close>

text \<open>The value returned, and the set that \<^verbatim>\<open>sched_setaffinity\<close> is called with, if it is.\<close>

definition smon_set_affinity :: "bool \<Rightarrow> u32 \<Rightarrow> i32 \<times> nat set option" where
  "smon_set_affinity granted cpumask =
     (if cpumask = 0 then (0, None)
      else let mask = fold (\<lambda>i s. if cpumask AND push_bit i 1 \<noteq> 0 then insert i s else s) [0..<32] {}
           in (if granted then 0 else 1, Some mask))"

section \<open>The output determines the samples\<close>

lemma digit_not_layout:
  assumes "is_digit b c"
  shows "c \<noteq> TAB" "c \<noteq> NEWLINE" "c \<noteq> CHR ''-''"
  using assms by (auto simp: is_digit_def digit_value_def TAB_def NEWLINE_def Let_def split: if_splits)

lemma show_int_chars: "TAB \<notin> set (show_int i)" "NEWLINE \<notin> set (show_int i)"
proof -
  have d: "is_digit 10 c" if "c \<in> set (show_nat n)" for c n
    using show_base_digits [of 10 n] that by (simp add: show_nat_def)
  have "TAB \<noteq> CHR ''-''" "NEWLINE \<noteq> CHR ''-''" by (simp_all add: TAB_def NEWLINE_def char_of_eq_iff)
  moreover have "TAB \<notin> set (show_nat n)" "NEWLINE \<notin> set (show_nat n)" for n
    using d [of TAB n] d [of NEWLINE n] digit_not_layout(1) [of 10 TAB] digit_not_layout(2) [of 10 NEWLINE] by auto
  ultimately show "TAB \<notin> set (show_int i)" "NEWLINE \<notin> set (show_int i)"
    by (simp_all add: show_int_def)
qed

lemma show_nat_inj: "show_nat m = show_nat n \<longleftrightarrow> m = n"
proof
  assume "show_nat m = show_nat n"
  then have "read_digits 10 0 (show_base 10 m) = read_digits 10 0 (show_base 10 n)" by (simp only: show_nat_def)
  then show "m = n" by (simp add: read_show_base)
qed simp

lemma show_int_inj: "show_int i = show_int j \<longleftrightarrow> i = j"
proof -
  have "hd (show_nat n) \<noteq> CHR ''-''" for n
    using show_base_digits [of 10 n] show_base_not_Nil [of 10 n] digit_not_layout(3) [of 10 "hd (show_nat n)"]
    by (simp add: show_nat_def)
  then have "show_nat n \<noteq> CHR ''-'' # xs" for n xs by (metis list.sel(1))
  moreover from this have "CHR ''-'' # xs \<noteq> show_nat n" for n xs by metis
  ultimately show ?thesis by (auto simp: show_int_def show_nat_inj)
qed

lemma fmt_inj [simp]:
  "fmt_signed v = fmt_signed w \<longleftrightarrow> v = w" "fmt_unsigned v = fmt_unsigned w \<longleftrightarrow> v = w"
  by (auto simp: fmt_signed_def fmt_unsigned_def show_int_inj show_nat_inj dest: signed_word_eqI unsigned_word_eqI)

definition plain :: "string \<Rightarrow> bool" where "plain f \<longleftrightarrow> TAB \<notin> set f \<and> NEWLINE \<notin> set f"

lemma plain_fmt [simp]: "plain (fmt_signed w)" "plain (fmt_unsigned w)"
proof -
  show "plain (fmt_signed w)" by (simp add: plain_def fmt_signed_def show_int_chars)
  have "fmt_unsigned w = show_int (int (unat w))" by (simp add: fmt_unsigned_def show_int_def)
  then show "plain (fmt_unsigned w)" by (simp add: plain_def show_int_chars)
qed

lemma split_at_piece: "d \<notin> set x \<Longrightarrow> split_at d x = [x]"
  by (induction x) auto

lemma split_at_sep: "d \<notin> set x \<Longrightarrow> split_at d (x @ d # ys) = x # split_at d ys"
  by (induction x) auto

lemma split_at_join:
  assumes "d \<notin> set x" and "\<forall>f \<in> set fs. d \<notin> set f"
  shows "split_at d (x @ concat (map (\<lambda>f. d # f) fs)) = x # fs"
  using assms
proof (induction fs arbitrary: x)
  case (Cons f fs)
  then show ?case using split_at_sep [of d x "f @ concat (map (\<lambda>f. d # f) fs)"] by simp
qed (simp add: split_at_piece)

lemma split_at_lines:
  assumes "\<forall>l \<in> set ls. d \<notin> set l"
  shows "split_at d (concat (map (\<lambda>l. l @ [d]) ls)) = ls @ [[]]"
  using assms by (induction ls) (simp_all add: split_at_sep)

text \<open>The fields of a line.\<close>

fun sample_fields :: "smon_sample \<Rightarrow> string list" where
  "sample_fields (PmcSample s) =
     [''[PMC]'', fmt_signed (sp_start s), fmt_signed (sp_stop s), fmt_signed (sp_duration s), fmt_signed (sp_pid s),
      fmt_signed (sp_evset s)] @
     map (\<lambda>i. fmt_signed (fx (sp_pmc s) ! i)) [0..<3] @ map (\<lambda>i. fmt_signed (gp (sp_pmc s) ! i)) [0..<4]"
| "sample_fields (RaplSample s) =
     [''[RAPL]'', fmt_signed (sr_timestamp s), fmt_signed (sr_duration s), fmt_signed (pkg (sr_rapl s)),
      fmt_signed (pp0 (sr_rapl s)), fmt_signed (pp1 (sr_rapl s))]"
| "sample_fields (CpuSample s) =
     [''[MIGRATION]'', fmt_signed (sc_timestamp s), fmt_signed (sc_pid s), fmt_signed (sc_old_cpu s), fmt_signed (sc_new_cpu s)]"
| "sample_fields (SchedSample s) =
     [''[SCHED]'', fmt_signed (ss_timestamp_in s), fmt_signed (ss_timestamp_out s), fmt_signed (ss_pid s), fmt_signed (ss_cpu s)]"
| "sample_fields (ForkSample s) =
     [''[FORK]'', fmt_signed (sf_timestamp s), fmt_signed (sf_parent s), fmt_signed (sf_child s)]"
| "sample_fields (InfoSample s) =
     [''[INFO]'', fmt_signed (si_timestamp s), fmt_unsigned ((ucast (si_tsc_frequency s) :: u64) * 100000000),
      fmt_unsigned (si_n_cpus s), fmt_unsigned (si_pmc_sample_time s), fmt_unsigned (si_rapl_sample_time s),
      fmt_unsigned (si_evsets s), fmt_signed (energy_units (si_units s)), fmt_signed (power_units (si_units s)),
      fmt_signed (time_units (si_units s))]"

lemma fprint_sample_fields: "fprint_sample s = line (hd (sample_fields s)) (tl (sample_fields s))"
  by (cases s) (simp_all add: fprint_sample_pmc_def fprint_sample_rapl_def fprint_sample_cpu_def
      fprint_sample_sched_def fprint_sample_fork_def fprint_sample_info_def)

lemma sample_fields_plain: "\<forall>f \<in> set (sample_fields s). plain f" "sample_fields s \<noteq> []"
proof -
  have "plain ''[PMC]''" "plain ''[RAPL]''" "plain ''[MIGRATION]''" "plain ''[SCHED]''" "plain ''[FORK]''"
    "plain ''[INFO]''" by (simp_all add: plain_def TAB_def NEWLINE_def char_of_eq_iff)
  then show "\<forall>f \<in> set (sample_fields s). plain f" by (cases s) auto
  show "sample_fields s \<noteq> []" by (cases s) simp_all
qed

definition line_body :: "smon_sample \<Rightarrow> string" where
  "line_body s = hd (sample_fields s) @ concat (map (\<lambda>f. TAB # f) (tl (sample_fields s)))"

lemma line_body_fields: "split_at TAB (line_body s) = sample_fields s"
proof -
  from sample_fields_plain [of s] obtain f fs where f: "sample_fields s = f # fs" "plain f" "\<forall>g \<in> set fs. plain g"
    by (cases "sample_fields s") auto
  then show ?thesis using split_at_join [of TAB f fs] by (simp add: line_body_def plain_def)
qed

lemma line_body_newline: "NEWLINE \<notin> set (line_body s)"
proof -
  from sample_fields_plain [of s] obtain f fs where f: "sample_fields s = f # fs" "plain f" "\<forall>g \<in> set fs. plain g"
    by (cases "sample_fields s") auto
  moreover have "NEWLINE \<noteq> TAB" by (simp add: TAB_def NEWLINE_def char_of_eq_iff)
  ultimately show ?thesis by (auto simp: line_body_def plain_def)
qed

lemma output_lines: "split_at NEWLINE (output_text ss) = map line_body ss @ [[]]"
proof -
  have "fprint_sample = (\<lambda>s. line_body s @ [NEWLINE])"
    by (simp add: fun_eq_iff fprint_sample_fields line_def line_body_def)
  then have "output_text ss = concat (map (\<lambda>l. l @ [NEWLINE]) (map line_body ss))"
    by (simp add: output_text_def comp_def)
  then show ?thesis using split_at_lines [of "map line_body ss" NEWLINE] line_body_newline by auto
qed

lemma frequency_inj:
  "(ucast (v :: u32) :: u64) * 100000000 = ucast (w :: u32) * 100000000 \<longleftrightarrow> v = w"
proof
  assume "(ucast v :: u64) * 100000000 = ucast w * 100000000"
  then have "unat ((ucast v :: u64) * 100000000) = unat ((ucast w :: u64) * 100000000)" by simp
  moreover have "unat ((ucast x :: u64) * 100000000) = unat x * 100000000" for x :: u32
    using unsigned_less [of x, where 'a = nat] by (simp add: unat_word_ariths unat_ucast)
  ultimately show "v = w" by (simp add: word_unat_eqI)
qed simp

lemma list_3_4:
  "length xs = 3 \<Longrightarrow> length ys = 3 \<Longrightarrow> xs ! 0 = ys ! 0 \<Longrightarrow> xs ! Suc 0 = ys ! Suc 0 \<Longrightarrow> xs ! 2 = ys ! 2 \<Longrightarrow> xs = ys"
  "length vs = 4 \<Longrightarrow> length ws = 4 \<Longrightarrow> vs ! 0 = ws ! 0 \<Longrightarrow> vs ! Suc 0 = ws ! Suc 0 \<Longrightarrow> vs ! 2 = ws ! 2 \<Longrightarrow>
     vs ! 3 = ws ! 3 \<Longrightarrow> vs = ws"
  by (rule nth_equalityI, simp, simp add: numeral_3_eq_3 numeral_2_eq_2 less_Suc_eq, elim disjE, simp_all)
    (rule nth_equalityI, simp, simp add: eval_nat_numeral less_Suc_eq, elim disjE, simp_all)

lemma sample_fields_inj:
  assumes "sample_wf s" and "sample_wf s'" and "sample_fields s = sample_fields s'"
  shows "s = s'"
proof (cases s)
  case (PmcSample p)
  then obtain q where q: "s' = PmcSample q" using assms(3) by (cases s') auto
  have w: "length (fx (sp_pmc p)) = 3" "length (fx (sp_pmc q)) = 3" "length (gp (sp_pmc p)) = 4" "length (gp (sp_pmc q)) = 4"
    using assms(1,2) PmcSample q by (simp_all add: pmc_wf_def MAX_FX_CTRS_def MAX_GP_CTRS_def)
  have "fx (sp_pmc p) = fx (sp_pmc q)"
    by (rule list_3_4(1) [OF w(1,2)]) (use assms(3) PmcSample q in \<open>simp_all add: upt_rec numeral_2_eq_2 numeral_3_eq_3\<close>)
  moreover have "gp (sp_pmc p) = gp (sp_pmc q)"
    by (rule list_3_4(2) [OF w(3,4)]) (use assms(3) PmcSample q in \<open>simp_all add: upt_rec numeral_2_eq_2 numeral_3_eq_3\<close>)
  ultimately show ?thesis using assms(3) PmcSample q by simp
next
  case (InfoSample p)
  then obtain q where q: "s' = InfoSample q" using assms(3) by (cases s') auto
  have "si_units p = si_units q" using assms(3) InfoSample q by simp
  with q InfoSample assms(3) frequency_inj show ?thesis by simp
qed (use assms(3) in \<open>cases s'; simp\<close>)+

lemma output_text_inj:
  assumes "list_all sample_wf ss" and "list_all sample_wf ss'" and "output_text ss = output_text ss'"
  shows "ss = ss'"
proof -
  have "map line_body ss = map line_body ss'" using output_lines [of ss] output_lines [of ss'] assms(3) by simp
  then have "map (split_at TAB) (map line_body ss) = map (split_at TAB) (map line_body ss')" by simp
  then have f: "map sample_fields ss = map sample_fields ss'" by (simp add: comp_def line_body_fields)
  show ?thesis
  proof (rule nth_equalityI)
    show l: "length ss = length ss'" using arg_cong [OF f, of length] by simp
    show "ss ! i = ss' ! i" if i: "i < length ss" for i
      using assms(1,2) i l arg_cong [OF f, of "\<lambda>xs. xs ! i"]
      by (intro sample_fields_inj) (auto simp: list_all_length)
  qed
qed

section \<open>The loop ends and has printed everything\<close>

text \<open>The tool sleeps, the driver does \<open>xs\<close>, the tool wakes up and reads.\<close>

definition sleep_rounds :: "pipe_op list list \<Rightarrow> pipe_op list" where
  "sleep_rounds xss = concat (map (\<lambda>xs. xs @ [Round]) xss)"

lemma fold_opt_append: "fold_opt f (xs @ ys) s = fold_opt f xs s \<bind> fold_opt f ys"
  by (induction xs arbitrary: s) (auto split: option.splits bind_splits)

lemma loop_round:
  assumes s: "synced b False st ss" and a: "smon_rb_is_active (se_rb st)" and w: "list_all pipe_op_wf xs"
  obtains st1 ss1 where "fold_opt (pipe_exec b) (xs @ [Round]) st = Some st1" "synced b False st1 ss1"
    "rb_active (se_rb st1) = rb_active (se_rb st)"
    "\<forall>polled act n. polled n = 1 \<longrightarrow> act n = fold_opt (pipe_exec b) xs \<longrightarrow>
       start_sampling b polled act n st = start_sampling b polled act (Suc n) st1"
proof -
  from pipe_run [OF s a w] obtain st0 ss0 where 0: "fold_opt (pipe_exec b) xs st = Some st0" "synced b False st0 ss0"
    "rb_active (se_rb st0) = rb_active (se_rb st)" by blast
  have "smon_rb_is_active (se_rb st0)" using a 0(3) by (simp add: smon_rb_is_active_def)
  from round_in [OF 0(2) this] obtain st1 where 1: "sampling_round b st0 = Some (0, False, st1)"
    "synced b False st1 (if unat b \<le> length ss0 then drop (unat b) ss0 else ss0)"
    "rb_active (se_rb st1) = rb_active (se_rb st0)" by metis
  show thesis
  proof (rule that [OF _ 1(2)])
    show "fold_opt (pipe_exec b) (xs @ [Round]) st = Some st1" using 0(1) 1(1) by (simp add: fold_opt_append)
    show "rb_active (se_rb st1) = rb_active (se_rb st)" using 0(3) 1(3) by simp
    show "\<forall>polled act n. polled n = 1 \<longrightarrow> act n = fold_opt (pipe_exec b) xs \<longrightarrow>
       start_sampling b polled act n st = start_sampling b polled act (Suc n) st1"
      using 0(1) 1(1) by (subst start_sampling.simps) simp
  qed
qed

lemma loop_rounds:
  assumes "synced b False st ss" and "smon_rb_is_active (se_rb st)" and "\<forall>xs \<in> set xss. list_all pipe_op_wf xs"
  shows "\<exists>st1. fold_opt (pipe_exec b) (sleep_rounds xss) st = Some st1 \<and>
    (\<forall>polled act n. (\<forall>k < length xss. polled (n + k) = 1 \<and> act (n + k) = fold_opt (pipe_exec b) (xss ! k)) \<longrightarrow>
       start_sampling b polled act n st = start_sampling b polled act (n + length xss) st1)"
  using assms
proof (induction xss arbitrary: st ss)
  case Nil
  then show ?case by (simp add: sleep_rounds_def)
next
  case (Cons xs xss)
  have w: "list_all pipe_op_wf xs" using Cons.prems(3) by simp
  from loop_round [OF Cons.prems(1,2) w] obtain st1 ss1 where 1: "fold_opt (pipe_exec b) (xs @ [Round]) st = Some st1"
    "synced b False st1 ss1" "rb_active (se_rb st1) = rb_active (se_rb st)"
    "\<forall>polled act n. polled n = 1 \<longrightarrow> act n = fold_opt (pipe_exec b) xs \<longrightarrow>
       start_sampling b polled act n st = start_sampling b polled act (Suc n) st1" .
  have "smon_rb_is_active (se_rb st1)" using Cons.prems(2) 1(3) by (simp add: smon_rb_is_active_def)
  from Cons.IH [OF 1(2) this] Cons.prems(3) obtain st2 where 2: "fold_opt (pipe_exec b) (sleep_rounds xss) st1 = Some st2"
    "\<And>polled act n. \<forall>k < length xss. polled (n + k) = 1 \<and> act (n + k) = fold_opt (pipe_exec b) (xss ! k) \<Longrightarrow>
       start_sampling b polled act n st1 = start_sampling b polled act (n + length xss) st2" by auto
  have "fold_opt (pipe_exec b) (sleep_rounds (xs # xss)) st = Some st2"
  proof -
    have "sleep_rounds (xs # xss) = (xs @ [Round]) @ sleep_rounds xss" by (simp add: sleep_rounds_def)
    then show ?thesis using 1(1) 2(1) by (simp only: fold_opt_append bind.simps)
  qed
  moreover have "start_sampling b polled act n st = start_sampling b polled act (n + length (xs # xss)) st2"
    if h: "\<forall>k < length (xs # xss). polled (n + k) = 1 \<and> act (n + k) = fold_opt (pipe_exec b) ((xs # xss) ! k)"
    for polled act n
  proof -
    have z: "polled n = 1" "act n = fold_opt (pipe_exec b) xs" using h by force+
    have r: "\<forall>k < length xss. polled (Suc n + k) = 1 \<and> act (Suc n + k) = fold_opt (pipe_exec b) (xss ! k)"
    proof (intro allI impI)
      fix k assume "k < length xss"
      then show "polled (Suc n + k) = 1 \<and> act (Suc n + k) = fold_opt (pipe_exec b) (xss ! k)"
        using spec [OF h, of "Suc k"] by simp
    qed
    show ?thesis using 1(4) z 2(2) [OF r] by simp
  qed
  ultimately show ?case by blast
qed

text \<open>What the driver does at last: the only writer releases the buffer.\<close>

definition release_session :: "session \<Rightarrow> session option" where
  "release_session st = map_option (\<lambda>rb. st\<lparr>se_rb := rb\<rparr>) (smon_release_rb (se_rb st))"

lemma start_sampling_ends:
  assumes s: "synced b False st ss" and a: "rb_active (se_rb st) = 1" and w: "\<forall>xs \<in> set xss. list_all pipe_op_wf xs"
    and p: "\<forall>k \<le> length xss. polled k = 1" and k: "\<forall>k < length xss. act k = fold_opt (pipe_exec b) (xss ! k)"
    and l: "act (length xss) = release_session"
  shows "\<exists>st1. fold_opt (pipe_exec b) (sleep_rounds xss) st = Some st1 \<and>
    (rb_fits (se_rb st1) 0 \<longrightarrow> (\<exists>st2. start_sampling b polled act 0 st = Some st2 \<and>
       se_out st2 = se_out st @ ss @ accepted b (sleep_rounds xss) st))"
proof -
  have ac: "smon_rb_is_active (se_rb st)" using a by (simp add: smon_rb_is_active_def)
  have "list_all pipe_op_wf (sleep_rounds xss)" using w by (induction xss) (simp_all add: sleep_rounds_def)
  from pipe_run [OF s ac this] obtain st1 ss1 where 1: "fold_opt (pipe_exec b) (sleep_rounds xss) st = Some st1"
    "synced b False st1 ss1" "rb_active (se_rb st1) = 1" "se_out st1 @ ss1 = se_out st @ ss @ accepted b (sleep_rounds xss) st"
    using a by auto
  from loop_rounds [OF s ac w] 1(1) p k have "start_sampling b polled act 0 st = start_sampling b polled act (0 + length xss) st1"
    by (metis add_0 less_imp_le option.inject)
  moreover have "\<exists>st2. start_sampling b polled act (length xss) st1 = Some st2 \<and> se_out st2 = se_out st1 @ ss1"
    if "rb_fits (se_rb st1) 0"
  proof -
    from release_last [OF 1(2,3) that] obtain rb where r: "smon_release_rb (se_rb st1) = Some rb" "rb_active rb = 0"
      "synced b True (st1\<lparr>se_rb := rb\<rparr>) ss1" .
    from round_hup [OF r(3)] r(2) obtain st2 where "sampling_round b (st1\<lparr>se_rb := rb\<rparr>) = Some (0, True, st2)"
      "se_out st2 = se_out st1 @ ss1" by auto
    then show ?thesis using p l r(1) by (subst start_sampling.simps) (simp add: release_session_def)
  qed
  ultimately show ?thesis using 1(1,4) by auto
qed

section \<open>Totals\<close>

lemma add_counts_pmc_total:
  assumes "\<forall>s \<in> set ss. unat (sp_evset s) < length counts"
  shows "\<exists>counts'. fold_opt add_counts_pmc ss counts = Some counts' \<and> length counts' = length counts \<and>
    (\<forall>e < length counts. sp_duration (counts' ! e) =
       sp_duration (counts ! e) + sum_list (map sp_duration (filter (\<lambda>s. unat (sp_evset s) = e) ss)))"
  using assms
proof (induction ss arbitrary: counts)
  case (Cons s ss)
  obtain c1 where c1: "add_counts_pmc s counts = Some c1" "length c1 = length counts"
    "\<And>e. e < length counts \<Longrightarrow> sp_duration (c1 ! e) = sp_duration (counts ! e) + (if unat (sp_evset s) = e then sp_duration s else 0)"
    using Cons.prems by (auto simp: add_counts_pmc_def Let_def nth_list_update)
  from Cons.IH [of c1] Cons.prems c1(2) obtain c2 where c2: "fold_opt add_counts_pmc ss c1 = Some c2" "length c2 = length counts"
    "\<forall>e < length counts. sp_duration (c2 ! e) = sp_duration (c1 ! e) + sum_list (map sp_duration (filter (\<lambda>s. unat (sp_evset s) = e) ss))"
    by auto
  with c1 show ?case by auto
qed simp

end
