(* ===== verification/Tool_Main.thy ===== *)
theory Tool_Main
  imports Tool_Facts Profile
begin

text \<open>
  \<^verbatim>\<open>start_profile\<close> of \<^verbatim>\<open>tool/src/profile.c\<close> and \<^verbatim>\<open>tool/src/main.c\<close>: what the
  tool does with a command. The system calls that do not reach the driver are recorded as a list
  of actions; what they return is an argument.
\<close>

section \<open>Profiling\<close>

datatype action =
    OpenOutput string | OpenSem | ForkChild | SetHandler | MapRing u32 | RegisterTask i32
  | PostSem | CloseSem | Sampling "smon_sample list" | WaitChild | KillChild i32 | UnregisterTask i32 | UnmapRing u32
  | CloseOutput | RunScript string
  | Chdir string | SetAffinity "nat set" | WaitSem | Execv string

text \<open>
  The answers of the operating system: \<^verbatim>\<open>fopen\<close>, \<^verbatim>\<open>fork\<close>, what
  \<^verbatim>\<open>mmap\<close> needs (the start of the area, the address of the driver's buffer, and the
  allocations of the buffer, of its page array and of its pages, with what the pages hold), what the
  rest of the system does to the driver while the tool sleeps in its \<open>n\<close>-th \<^verbatim>\<open>poll\<close> and what that
  call returns, and the content of a variable that is not initialised.
\<close>

record os =
  os_fopen :: bool
  os_fork :: i32
  os_vm_start :: u64
  os_rb :: addr
  os_rb_ok :: bool
  os_data_ok :: bool
  os_page_ok :: "nat \<Rightarrow> bool"
  os_page_junk :: "nat \<Rightarrow> nat \<Rightarrow> u8"
  os_asleep :: "nat \<Rightarrow> tool \<Rightarrow> tool option"
  os_polled :: "nat \<Rightarrow> i32"
  os_junk :: ioc_ptr

text \<open>
  The tool's \<^verbatim>\<open>smon_mmap\<close> with the driver's own: whether the result is different from
  \<^verbatim>\<open>MAP_FAILED\<close>. Without a device it is NULL, which the caller does not test; the system call
  refuses a length of 0 itself. The length is the product of two 32-bit numbers.
\<close>

definition tool_mmap :: "os \<Rightarrow> u32 \<Rightarrow> tool \<Rightarrow> (bool \<times> tool) option" where
  "tool_mmap os pages u =
     (if tl_dev u = 0 then Some (True, u)
      else if pages * PAGE_SIZE = 0 then Some (False, u)
      else do {
        (res, rb, _) \<leftarrow> smon_mmap (os_rb_ok os) (os_data_ok os) (os_page_ok os) (os_page_junk os)
          (os_vm_start os) (os_vm_start os + ucast (pages * PAGE_SIZE)) None;
        Some (case rb of
                None \<Rightarrow> (False, u)
              | Some b \<Rightarrow> (True, u\<lparr>tl_k := put_rb (os_rb os) b (tl_k u), tl_pd := Some (os_rb os)\<rparr>))
      })"

text \<open>
  \<^verbatim>\<open>munmap\<close> of the area: the driver's \<^verbatim>\<open>smon_vma_close\<close> destroys the buffer. The
  file's \<^verbatim>\<open>private_data\<close> keeps the pointer. An area that was not mapped is left alone.
\<close>

definition tool_munmap :: "tool \<Rightarrow> tool option" where
  "tool_munmap u =
     (case tl_pd u of
        None \<Rightarrow> Some u
      | Some r \<Rightarrow> do {
          b \<leftarrow> ks_rbs (tl_k u) r;
          Some (u\<lparr>tl_k := (tl_k u)\<lparr>ks_rbs := (ks_rbs (tl_k u))(r := snd (smon_vma_close (Some b)))\<rparr>\<rparr>)
        })"

section \<open>Sampling from the driver\<close>

text \<open>
  \<^verbatim>\<open>read_samples\<close> on the buffer that the driver has mapped: what was read is reported with the
  ioctl of the driver, whose result the tool ignores.
\<close>

definition tool_read :: "kernel_answers \<Rightarrow> i32 \<Rightarrow> smon_rb \<Rightarrow> tool \<Rightarrow> (i32 \<times> smon_rb \<times> smon_sample list \<times> tool) option" where
  "tool_read ka nr ur u = do {
     r \<leftarrow> tl_pd u;
     rb \<leftarrow> ks_rbs (tl_k u) r;
     (err, report, ur, ss) \<leftarrow> read_samples (mapped (ur_addr ur) rb) nr ur;
     u \<leftarrow> (case report of None \<Rightarrow> Some u
           | Some (items, bytes) \<Rightarrow> map_option snd (smon_read_samples ka items bytes u));
     Some (err, ur, ss, u)
   }"

text \<open>What the loop does when \<^verbatim>\<open>poll\<close> has returned 1: the error, \<^verbatim>\<open>done\<close> and what was read.\<close>

definition tool_round ::
  "kernel_answers \<Rightarrow> i32 \<Rightarrow> smon_rb \<Rightarrow> tool \<Rightarrow> (i32 \<times> bool \<times> smon_rb \<times> smon_sample list \<times> tool) option" where
  "tool_round ka batch ur u = do {
     rb \<leftarrow> (case tl_pd u of None \<Rightarrow> Some None | Some r \<Rightarrow> map_option Some (ks_rbs (tl_k u) r));
     let revents = smon_poll rb;
     if revents AND POLLIN \<noteq> 0
     then do { (err, ur, ss, u) \<leftarrow> tool_read ka batch ur u; Some (err, False, ur, ss, u) }
     else if revents AND POLLHUP \<noteq> 0
     then do { (err, ur, ss, u) \<leftarrow> tool_read ka (ur_size ur) ur u; Some (err, True, ur, ss, u) }
     else Some (0, False, ur, [], u)
   }"

text \<open>
  \<^verbatim>\<open>start_sampling\<close> on the driver: \<open>start_sampling\<close> of \<open>Profile\<close> works on a buffer of its own, here the
  buffer is the one of the file. \<open>None\<close> is a fault or a loop that does not end.
\<close>

partial_function (option) sampling_loop ::
  "os \<Rightarrow> kernel_answers \<Rightarrow> i32 \<Rightarrow> nat \<Rightarrow> smon_rb \<Rightarrow> smon_sample list \<Rightarrow> tool \<Rightarrow> (smon_sample list \<times> tool) option" where
  "sampling_loop os ka batch n ur out u =
     Option.bind (os_asleep os n u) (\<lambda>u.
       if os_polled os n = 1
       then Option.bind (tool_round ka batch ur u) (\<lambda>(err, d, ur, ss, u).
              if d \<or> err \<noteq> 0 then Some (out @ ss, u) else sampling_loop os ka batch (Suc n) ur (out @ ss) u)
       else if os_polled os n = 0 \<or> os_polled os n = - 1 then Some (out, u)
       else sampling_loop os ka batch (Suc n) ur out u)"

definition tool_sampling ::
  "os \<Rightarrow> kernel_answers \<Rightarrow> u64 \<Rightarrow> smon_envir \<Rightarrow> smon_cmd \<Rightarrow> tool \<Rightarrow> (smon_sample list \<times> tool) option" where
  "tool_sampling os ka addr envir cmd u =
     sampling_loop os ka (batch_size envir) 0 (smon_rb_init addr (c_mmap_pages cmd)) [] u"

section \<open>The profiling command\<close>

text \<open>The command for the script, in an array of 512 characters: one that is longer is a fault.\<close>

definition script_of :: "smon_cmd \<Rightarrow> string option" where
  "script_of cmd =
     (let s = (if c_type cmd = CMD_ROOF
               then ''/home/matallui/schedmon/scripts/parse_roof.sh '' @ c_out_file cmd @ '' '' @ c_out_file cmd @ ''.roof''
               else ''/home/matallui/schedmon/scripts/parse_prof.sh '' @ c_out_file cmd @ '' '' @ c_out_file cmd @ ''.prof'')
      in if length s < 512 then Some s else None)"

text \<open>
  The branch of the child up to \<^verbatim>\<open>execv\<close>; the directory and the file name of the program
  are arguments, as \<^verbatim>\<open>dirname\<close> and \<^verbatim>\<open>basename\<close> are the library's.
\<close>

definition profile_child :: "bool \<Rightarrow> string \<Rightarrow> string \<Rightarrow> smon_cmd \<Rightarrow> action list" where
  "profile_child granted dir base cmd =
     Chdir dir #
     (if c_cpumask cmd > 0
      then case snd (smon_set_affinity granted (c_cpumask cmd)) of None \<Rightarrow> [] | Some m \<Rightarrow> [SetAffinity m]
      else []) @
     [WaitSem, CloseSem, Execv base]"

definition profile_parent ::
  "os \<Rightarrow> kernel_answers \<Rightarrow> smon_envir \<Rightarrow> smon_cmd \<Rightarrow> i32 \<Rightarrow> tool \<Rightarrow> (int \<times> bool \<times> action list \<times> tool) option" where
  "profile_parent os ka envir cmd pid u =
     (do {
        (mapped, u) \<leftarrow> tool_mmap os (c_mmap_pages cmd) u;
        if \<not> mapped
        then Some (1, True, [SetHandler, MapRing (c_mmap_pages cmd), KillChild pid, WaitChild], u)
        else do {
          (err, u) \<leftarrow> smon_set_task ka pid envir u;
          if err \<noteq> 0
          then do {
            u \<leftarrow> tool_munmap u;
            Some (err, True, [SetHandler, MapRing (c_mmap_pages cmd), RegisterTask pid, KillChild pid,
                      UnmapRing (c_mmap_pages cmd)], u)
          }
          else do {
            (ss, u) \<leftarrow> tool_sampling os ka (os_vm_start os) envir cmd u;
            (_, u) \<leftarrow> smon_unset_task ka (os_junk os) pid u;
            u \<leftarrow> tool_munmap u;
            Some (0, False, [SetHandler, MapRing (c_mmap_pages cmd), RegisterTask pid, PostSem, CloseSem, Sampling ss,
                      WaitChild, UnregisterTask pid, UnmapRing (c_mmap_pages cmd)], u)
          }
        }
      })"

definition start_profile :: "os \<Rightarrow> kernel_answers \<Rightarrow> smon_cmd \<Rightarrow> tool \<Rightarrow> (int \<times> action list \<times> tool) option" where
  "start_profile os ka cmd u =
     (case c_ptr cmd of
        PtrEnvir envir \<Rightarrow>
          if \<not> os_fopen os then Some (- 1, [OpenOutput (c_out_file cmd)], u)
          else do {
            let start = [OpenOutput (c_out_file cmd), OpenSem, ForkChild];
            if 0 < sint (os_fork os)
            then do {
              (err, early, acts, u) \<leftarrow> profile_parent os ka envir cmd (os_fork os) u;
              if early then Some (err, start @ acts, u)
              else do { s \<leftarrow> script_of cmd; Some (err, start @ acts @ [CloseOutput, RunScript s], u) }
            }
            else do { s \<leftarrow> script_of cmd; Some (1, start @ [CloseOutput, RunScript s], u) }
          }
      | _ \<Rightarrow> None)"

section \<open>The commands\<close>

definition run_event :: "kernel_answers \<Rightarrow> smon_cmd \<Rightarrow> tool \<Rightarrow> (int \<times> tool) option" where
  "run_event ka cmd u =
     (case (c_arg cmd, c_ptr cmd) of
        (Subcmd c, PtrEvent event) \<Rightarrow>
          if c = CHR ''a'' then user_set_event ka event u
          else if c = CHR ''l'' then map_option (\<lambda>(n, u). (0, u)) (smon_list_events ka u)
          else Some (0, u)
      | _ \<Rightarrow> None)"

definition run_evset :: "kernel_answers \<Rightarrow> smon_cmd \<Rightarrow> tool \<Rightarrow> (int \<times> tool) option" where
  "run_evset ka cmd u =
     (case (c_arg cmd, c_ptr cmd) of
        (Subcmd c, PtrEvset evset) \<Rightarrow>
          if c = CHR ''a''
          then do {
            (ret, u) \<leftarrow> smon_check_events ka evset u;
            if ret \<noteq> 0 then Some (ret, u) else user_set_evset ka evset u
          }
          else if c = CHR ''l'' then map_option (\<lambda>(n, u). (0, u)) (smon_list_evsets ka u)
          else Some (0, u)
      | _ \<Rightarrow> None)"

definition run_profile :: "os \<Rightarrow> kernel_answers \<Rightarrow> smon_cmd \<Rightarrow> tool \<Rightarrow> (int \<times> action list \<times> tool) option" where
  "run_profile os ka cmd u =
     (case c_ptr cmd of
        PtrEnvir envir \<Rightarrow> do {
          (ret, u) \<leftarrow> smon_check_evsets ka envir u;
          if ret \<noteq> 0 then Some (ret, [], u) else start_profile os ka cmd u
        }
      | _ \<Rightarrow> None)"

text \<open>
  \<^verbatim>\<open>main\<close>: the value returned, the actions and the state. A command line that is refused leaves
  \<^verbatim>\<open>ret\<close> at 0. \<open>cmd0\<close> is the variable \<^verbatim>\<open>cmd\<close>, which is not initialised.
\<close>

definition no_actions :: "(int \<times> tool) option \<Rightarrow> (int \<times> action list \<times> tool) option" where
  "no_actions = map_option (\<lambda>(r, u). (r, [], u))"

definition smon_main ::
  "os \<Rightarrow> kernel_answers \<Rightarrow> i32 \<Rightarrow> string list \<Rightarrow> smon_cmd \<Rightarrow> tool \<Rightarrow> (int \<times> action list \<times> tool) option" where
  "smon_main os ka fd argv cmd0 u =
     (let (r, u) = smon_load_driver fd u
      in if r \<noteq> 0 then Some (- 1, [], u)
         else do {
           parsed \<leftarrow> smon_parse_input argv cmd0;
           (ret, acts, u) \<leftarrow>
             (case parsed of
                Inl err \<Rightarrow> Some (0, [], u)
              | Inr (cmd, prog) \<Rightarrow>
                  if c_type cmd = CMD_EVENT then no_actions (run_event ka cmd u)
                  else if c_type cmd = CMD_EVSET then no_actions (run_evset ka cmd u)
                  else if c_type cmd = CMD_PROFILE \<or> c_type cmd = CMD_STAT then run_profile os ka cmd u
                  else if c_type cmd = CMD_ROOF then start_profile os ka cmd u
                  else Some (0, [], u));
           Some (ret, acts, snd (smon_unload_driver u))
         })"

section \<open>A round with the driver\<close>

text \<open>
  One round of the tool on its mapped buffer is the round of \<open>Reader\<close> on that buffer: the report through the
  ioctl does to it what \<^verbatim>\<open>smon_rb_read\<close> does.
\<close>

lemma tool_read_session:
  assumes "ka_good ka" and "tl_dev u \<noteq> 0" and "tl_pd u = Some r" and "ks_rbs (tl_k u) r = Some rb"
  shows "tool_read ka nr ur u = map_option (\<lambda>(err, st). (err, se_ur st, se_out st, u\<lparr>tl_k := put_rb r (se_rb st) (tl_k u)\<rparr>))
    (session_read nr \<lparr>se_rb = rb, se_ur = ur, se_out = []\<rparr>)"
proof -
  have "(ks_rbs (tl_k u))(r \<mapsto> rb) = ks_rbs (tl_k u)" using assms(4) by auto
  then have same: "u\<lparr>tl_k := put_rb r rb (tl_k u)\<rparr> = u" by (simp add: put_rb_def)
  have "smon_read_samples ka items bytes u = Some (- 1, u\<lparr>tl_k := put_rb r (smon_rb_read items bytes rb) (tl_k u)\<rparr>)"
    for items bytes
    using assms by (simp add: smon_read_samples_def user_ioctl_def smon_ioctl_def ioctl_access ka_good_def ioctl_read_def
        SMON_IOC_MAXNR_def ENOTTY_def)
  then show ?thesis using assms(3,4) same
    by (cases "read_samples (mapped (ur_addr ur) rb) nr ur")
      (auto simp: tool_read_def session_read_def split: option.splits prod.splits)
qed

lemma tool_round_session:
  assumes "ka_good ka" and "tl_dev u \<noteq> 0" and "tl_pd u = Some r" and "ks_rbs (tl_k u) r = Some rb"
  shows "tool_round ka batch ur u =
    map_option (\<lambda>(err, d, st). (err, d, se_ur st, se_out st, u\<lparr>tl_k := put_rb r (se_rb st) (tl_k u)\<rparr>))
      (sampling_round batch \<lparr>se_rb = rb, se_ur = ur, se_out = []\<rparr>)"
proof -
  have "(ks_rbs (tl_k u))(r \<mapsto> rb) = ks_rbs (tl_k u)" using assms(4) by auto
  then have same: "u\<lparr>tl_k := put_rb r rb (tl_k u)\<rparr> = u" by (simp add: put_rb_def)
  show ?thesis using assms(3,4) same
    by (auto simp: tool_round_def sampling_round_def Let_def tool_read_session [OF assms] option.map_comp comp_def map_option_case
        split: option.splits)
qed

text \<open>
  The loop on the driver follows the loop of \<open>Profile\<close> on a session of its own: when what happens while the
  tool sleeps does to the mapped buffer what \<open>activity\<close> does to the session's, it ends when that one ends
  and has read the same samples.
\<close>

definition follows :: "addr \<Rightarrow> tool \<Rightarrow> session \<Rightarrow> bool" where
  "follows r u st \<longleftrightarrow> tl_dev u \<noteq> 0 \<and> tl_pd u = Some r \<and> ks_rbs (tl_k u) r = Some (se_rb st)"

definition asleep_as :: "addr \<Rightarrow> os \<Rightarrow> (nat \<Rightarrow> session \<Rightarrow> session option) \<Rightarrow> bool" where
  "asleep_as r os activity \<longleftrightarrow> (\<forall>n u st st'. follows r u st \<longrightarrow> activity n st = Some st' \<longrightarrow>
     se_ur st' = se_ur st \<and> se_out st' = se_out st \<and> (\<exists>u'. os_asleep os n u = Some u' \<and> follows r u' st'))"

lemma session_read_out:
  fixes st :: session
  shows "session_read nr st = map_option (\<lambda>(e, s). (e, s\<lparr>se_out := se_out st @ se_out s\<rparr>)) (session_read nr (st\<lparr>se_out := []\<rparr>))"
  by (cases "read_samples (mapped (ur_addr (se_ur st)) (se_rb st)) nr (se_ur st)") (auto simp: session_read_def split: option.splits)

lemma round_out:
  fixes st :: session
  shows "sampling_round b st = map_option (\<lambda>(e, d, s). (e, d, s\<lparr>se_out := se_out st @ se_out s\<rparr>)) (sampling_round b (st\<lparr>se_out := []\<rparr>))"
  by (auto simp: sampling_round_def Let_def session_read_out [of _ st] option.map_comp comp_def map_option_case split: option.splits)

lemma tool_round_follows:
  assumes "ka_good ka" and "follows r u st" and "sampling_round b st = Some (e, d, st')"
  obtains ss u' where "tool_round ka b (se_ur st) u = Some (e, d, se_ur st', ss, u')" "follows r u' st'"
    "se_out st' = se_out st @ ss"
proof -
  have st: "st\<lparr>se_out := []\<rparr> = \<lparr>se_rb = se_rb st, se_ur = se_ur st, se_out = []\<rparr>" by simp
  from assms(3) obtain s where s: "sampling_round b \<lparr>se_rb = se_rb st, se_ur = se_ur st, se_out = []\<rparr> = Some (e, d, s)"
    "st' = s\<lparr>se_out := se_out st @ se_out s\<rparr>"
    unfolding round_out [of b st] st by auto
  from assms(2) tool_round_session [OF assms(1), of u r "se_rb st" b "se_ur st"] s
  have "tool_round ka b (se_ur st) u = Some (e, d, se_ur s, se_out s, u\<lparr>tl_k := put_rb r (se_rb s) (tl_k u)\<rparr>)"
    by (simp add: follows_def)
  with assms(2) s(2) show thesis by (intro that) (auto simp: follows_def put_rb_def)
qed

lemma sampling_loop_follows:
  assumes "start_sampling b (os_polled os) activity n st = Some st'" and "follows r u st" and "asleep_as r os activity" and "ka_good ka"
  shows "\<exists>u'. sampling_loop os ka b n (se_ur st) (se_out st) u = Some (se_out st', u')"
proof -
  define P where "P = (\<lambda>batch polled act m (s :: session) (res :: session). batch = b \<longrightarrow> polled = os_polled os \<longrightarrow> act = activity \<longrightarrow>
    (\<forall>u. follows r u s \<longrightarrow> (\<exists>u'. sampling_loop os ka b m (se_ur s) (se_out s) u = Some (se_out res, u'))))"
  have "P b (os_polled os) activity n st st'"
  proof (rule start_sampling.raw_induct [where P = P, OF _ assms(1)])
    fix rec batch polled act m s res
    assume ih: "\<And>batch polled act m s res. rec batch polled act m s = Some res \<Longrightarrow> P batch polled act m s res"
    assume body: "act m s \<bind> (\<lambda>st. if polled m = 1 then sampling_round batch st \<bind>
        (\<lambda>(err, d, st). if d \<or> err \<noteq> 0 then Some st else rec batch polled act (Suc m) st)
      else if polled m = 0 \<or> polled m = - 1 then Some st else rec batch polled act (Suc m) st) = Some res"
    show "P batch polled act m s res"
      unfolding P_def
    proof (intro impI allI)
      fix u assume eq: "batch = b" "polled = os_polled os" "act = activity" and u: "follows r u s"
      note body = body [unfolded eq]
      from body obtain s1 where s1: "activity m s = Some s1" by (auto simp: bind_eq_Some_conv eq)
      from assms(3) u s1 obtain u1 where u1: "os_asleep os m u = Some u1" "follows r u1 s1"
        "se_ur s1 = se_ur s" "se_out s1 = se_out s" unfolding asleep_as_def by blast
      have onward: "\<exists>u'. sampling_loop os ka b (Suc m) (se_ur t) (se_out t) v = Some (se_out res, u')"
        if "rec b (os_polled os) activity (Suc m) t = Some res" "follows r v t" for t v
        using ih [OF that(1)] that(2) by (simp add: P_def)
      show "\<exists>u'. sampling_loop os ka b m (se_ur s) (se_out s) u = Some (se_out res, u')"
      proof (cases "os_polled os m = 1")
        case False
        then show ?thesis
          using body s1 u1 onward [OF _ u1(2)] by (subst sampling_loop.simps) (auto simp: eq split: if_splits)
      next
        case True
        from body s1 True obtain e d t where t: "sampling_round b s1 = Some (e, d, t)"
          "(if d \<or> e \<noteq> 0 then Some t else rec b (os_polled os) activity (Suc m) t) = Some res"
          by (auto simp: bind_eq_Some_conv eq)
        from tool_round_follows [OF assms(4) u1(2) t(1)] obtain ss u2 where
          "tool_round ka b (se_ur s1) u1 = Some (e, d, se_ur t, ss, u2)" "follows r u2 t" "se_out t = se_out s1 @ ss" .
        then show ?thesis
          using True t(2) u1 onward [of t u2] by (subst sampling_loop.simps) (auto split: if_splits)
      qed
    qed
  qed
  then show ?thesis using assms(2) by (simp add: P_def)
qed

section \<open>Adding an event\<close>

text \<open>What the command does with any argument: its parse decides between a fault, a refusal and a registration.\<close>

lemma event_command:
  assumes "fd \<noteq> - 1"
  shows "smon_main os ka fd [''smon'', ''event'', ''-a'', arg] cmd0 u = do {
    parsed \<leftarrow> parse_event_add arg;
    (r, u') \<leftarrow> (case parsed of Inl err \<Rightarrow> Some (0, u\<lparr>tl_dev := fd, tl_pd := None\<rparr>)
                | Inr ev \<Rightarrow> user_set_event ka ev (u\<lparr>tl_dev := fd, tl_pd := None\<rparr>));
    Some (r, [], snd (smon_unload_driver u'))
  }"
proof -
  have args: "getopt_all ''a:l'' [''event'', ''-a'', arg] = ([(CHR ''a'', arg)], [''event''])"
    by simp
  have p: "smon_parse_input [''smon'', ''event'', ''-a'', arg] cmd0 = map_option (map_sum id
      (\<lambda>e. (cmd0\<lparr>c_type := CMD_EVENT, c_arg := Subcmd CHR ''a'', c_ptr := PtrEvent e\<rparr>, []))) (parse_event_add arg)"
    by (cases "parse_event_add arg") (auto simp: smon_parse_input_def parse_event_def args simp del: getopt_all.simps split: sum.split)
  show ?thesis
    using assms by (cases "parse_event_add arg")
      (auto simp: smon_main_def smon_load_driver_def p no_actions_def run_event_def Let_def split_def split: sum.split bind_splits)
qed

lemma main_event_add:
  assumes i: "kinv (tl_k u)" and g: "ka_good ka" and fd: "fd \<noteq> - 1" "fd \<noteq> 0" and p: "parse_event_add arg = Some (Inr ev)"
  obtains r u' where
    "smon_main os ka fd [''smon'', ''event'', ''-a'', arg] cmd0 u = Some (r, [], u')"
    "kinv (tl_k u')" "r = 0 \<longleftrightarrow> ka_alloc ka \<and> length (event_entries (ks_events (tl_k u))) < 64"
    "event_entries (ks_events (tl_k u')) = event_entries (ks_events (tl_k u)) @ (if r = 0 then [ev] else [])"
proof -
  define u0 where "u0 = u\<lparr>tl_dev := fd, tl_pd := None\<rparr>"
  have "kinv (tl_k u0)" "tl_dev u0 \<noteq> 0" using i fd(2) by (simp_all add: u0_def)
  from user_set_event_spec [OF this(1) g this(2), of ev] obtain r u1 where u1: "user_set_event ka ev u0 = Some (r, u1)"
    "r = 0 \<longleftrightarrow> ka_alloc ka \<and> length (event_entries (ks_events (tl_k u0))) < 64"
    "event_entries (ks_events (tl_k u1)) = (if r = 0 then event_entries (ks_events (tl_k u0)) @ [ev] else event_entries (ks_events (tl_k u0)))"
    "kinv (tl_k u1)" by metis
  have k: "tl_k u0 = tl_k u" "tl_k (snd (smon_unload_driver u1)) = tl_k u1"
    by (simp_all add: u0_def smon_unload_driver_def)
  have "smon_main os ka fd [''smon'', ''event'', ''-a'', arg] cmd0 u = Some (r, [], snd (smon_unload_driver u1))"
    using u1(1) by (simp add: event_command [OF fd(1)] p u0_def)
  from that [OF this] u1(2-4) k show thesis by simp
qed

section \<open>Mapping and registering\<close>

text \<open>The answers under which a mapping has memory: for the buffer, the page array and each page.\<close>

definition os_memory :: "os \<Rightarrow> kstate \<Rightarrow> bool" where
  "os_memory os ks \<longleftrightarrow> os_rb_ok os \<and> os_data_ok os \<and> os_page_ok os = (\<lambda>_. True) \<and> ks_rbs ks (os_rb os) = None"

lemma choices_power:
  assumes "pages \<in> set mmap_choices" and "pages \<le> 1024"
  shows "is_power_of_2 (ucast pages)" "drop_bit PAGE_SHIFT (ucast (pages * PAGE_SIZE) :: u64) = ucast pages"
    "pages * PAGE_SIZE \<noteq> 0" "\<not> (ucast pages :: u64) < 2" "(ucast pages :: u64) < 2 ^ 32"
    "(ucast (ucast pages :: u64) :: u32) = pages"
  using assms by (auto simp: mmap_choices_def is_power_of_2_def PAGE_SHIFT_def PAGE_SIZE_def)

lemma tool_mmap_maps:
  assumes i: "kinv (tl_k u)" "tl_dev u \<noteq> 0" and p: "pages \<in> set mmap_choices" "pages \<le> 1024"
    and o: "os_memory os (tl_k u)"
  obtains b where
    "tool_mmap os pages u = Some (True, u\<lparr>tl_k := put_rb (os_rb os) b (tl_k u), tl_pd := Some (os_rb os)\<rparr>)"
    "kinv (put_rb (os_rb os) b (tl_k u))" "rb_inv b []" "rb_n_pages b = pages"
proof -
  define ve where "ve = os_vm_start os + ucast (pages * PAGE_SIZE)"
  note c = choices_power [OF p]
  have n: "drop_bit PAGE_SHIFT (ve - os_vm_start os) = ucast pages" using c(2) by (simp add: ve_def)
  have b: "\<not> SMON_MAX_PAGES < pages" using p(2) by (simp add: SMON_MAX_PAGES_def)
  have o': "os_rb_ok os" "os_data_ok os" "os_page_ok os = (\<lambda>_. True)" "ks_rbs (tl_k u) (os_rb os) = None"
    using o by (simp_all add: os_memory_def)
  have "\<exists>rb ps. smon_mmap (os_rb_ok os) (os_data_ok os) (os_page_ok os) (os_page_junk os) (os_vm_start os) ve None
      = Some (0, Some rb, ps) \<and> rb_n_pages rb = pages"
    using b c(1,4,6) by (simp add: smon_mmap_def n Let_def smon_create_rb_def o' first_failure_None [THEN iffD2])
  then obtain rb ps where m: "smon_mmap (os_rb_ok os) (os_data_ok os) (os_page_ok os) (os_page_junk os) (os_vm_start os) ve None
      = Some (0, Some rb, ps)" and np: "rb_n_pages rb = pages" by blast
  have s: "drop_bit PAGE_SHIFT (ve - os_vm_start os) < 2 ^ 32"
    using c(5) by (simp add: n)
  have "tool_mmap os pages u = Some (True, u\<lparr>tl_k := put_rb (os_rb os) rb (tl_k u), tl_pd := Some (os_rb os)\<rparr>)"
    using i(2) c(3) m by (simp add: tool_mmap_def flip: ve_def)
  from that [OF this mmap_safe [OF i(1) o'(4) m s] mmap_holds(1) [OF m s] np] show thesis .
qed

text \<open>The registration that the tool asks for is the driver's, with the mapped buffer.\<close>

lemma set_task_registers:
  assumes "ka_good ka" "tl_dev u \<noteq> 0" "tl_pd u = Some r"
  shows "smon_set_task ka pid e u = do {
    (res, k) \<leftarrow> smon_sched_register_task (ka_task ka) (ka_envir ka) (ka_extra ka) pid e r (tl_k u);
    Some (if sint res < 0 then - 1 else sint res, u\<lparr>tl_k := k\<rparr>)
  }"
  using assms by (cases "smon_sched_register_task (ka_task ka) (ka_envir ka) (ka_extra ka) pid e r (tl_k u)")
    (auto simp: smon_set_task_def user_ioctl_def smon_ioctl_def ka_good_def ioctl_access SMON_IOC_MAXNR_def)

section \<open>The order of a profiling run\<close>

lemma parent_orders:
  assumes "profile_parent os ka envir cmd pid u = Some (err, early, acts, u')"
  shows "early \<longleftrightarrow> err \<noteq> 0" "(\<exists>ss. Sampling ss \<in> set acts) \<longleftrightarrow> err = 0"
    "err = 0 \<Longrightarrow> \<exists>xs ss ys zs. acts = xs @ Sampling ss # ys @ UnregisterTask pid # zs \<and> RegisterTask pid \<in> set xs \<and>
       WaitChild \<in> set ys \<and> UnmapRing (c_mmap_pages cmd) \<in> set zs"
    "err \<noteq> 0 \<Longrightarrow> KillChild pid \<in> set acts \<and> UnregisterTask pid \<notin> set acts"
proof -
  have "early \<longleftrightarrow> err \<noteq> 0" "(\<exists>ss. Sampling ss \<in> set acts) \<longleftrightarrow> err = 0"
    and a: "err = 0 \<longrightarrow> (\<exists>ss. acts = [SetHandler, MapRing (c_mmap_pages cmd), RegisterTask pid, PostSem, CloseSem, Sampling ss,
                      WaitChild, UnregisterTask pid, UnmapRing (c_mmap_pages cmd)])"
    and "err \<noteq> 0 \<longrightarrow> KillChild pid \<in> set acts \<and> UnregisterTask pid \<notin> set acts"
    using assms by (auto simp: profile_parent_def bind_eq_Some_conv split: option.splits if_splits)
  then show "early \<longleftrightarrow> err \<noteq> 0" "(\<exists>ss. Sampling ss \<in> set acts) \<longleftrightarrow> err = 0"
    "err \<noteq> 0 \<Longrightarrow> KillChild pid \<in> set acts \<and> UnregisterTask pid \<notin> set acts" by simp_all
  assume "err = 0"
  with a obtain ss where "acts = [SetHandler, MapRing (c_mmap_pages cmd), RegisterTask pid, PostSem, CloseSem] @
      Sampling ss # [WaitChild] @ UnregisterTask pid # [UnmapRing (c_mmap_pages cmd)]" by auto
  then show "\<exists>xs ss ys zs. acts = xs @ Sampling ss # ys @ UnregisterTask pid # zs \<and> RegisterTask pid \<in> set xs \<and>
       WaitChild \<in> set ys \<and> UnmapRing (c_mmap_pages cmd) \<in> set zs"
    by (intro exI conjI) (assumption | simp)+
qed

end
