(* ===== verification/Prop_Tool.thy ===== *)
theory Prop_Tool
  imports Prop_Buffer Tool_Main Profile
begin

text \<open>
  The properties of the tool: of what it asks the driver for, of what it lists and checks, of the
  profiling run and of its output file.
\<close>

definition ex_cmd :: smon_cmd where
  "ex_cmd = \<lparr>c_type = CMD_INVAL, c_ptr = PtrNone, c_arg = Argindex 0, c_count_mode = 0, c_cpumask = 7,
     c_mmap_pages = 0, c_out_file = []\<rparr>"

definition ex_tool :: tool where
  "ex_tool = \<lparr>tl_dev = 3, tl_pd = Some 10, tl_k = ex_idle, tl_out = []\<rparr>"

definition ex_ka :: kernel_answers where
  "ex_ka = \<lparr>ka_access = True, ka_alloc = True, ka_task = Some 20, ka_envir = Some 30, ka_extra = True, ka_uncopied = 0\<rparr>"

definition ex_os :: os where
  "ex_os = \<lparr>os_fopen = True, os_fork = 7, os_vm_start = 0, os_rb = 50, os_rb_ok = True, os_data_ok = True,
     os_page_ok = (\<lambda>_. True), os_page_junk = (\<lambda>_ _. 0), os_asleep = (\<lambda>_. Some), os_polled = (\<lambda>_. 0),
     os_junk = IocItems 0\<rparr>"

lemma ex_tool_ok: "kinv (tl_k ex_tool)" "tl_dev ex_tool \<noteq> 0" "ka_good ex_ka"
  "event_entries (ks_events (tl_k ex_tool)) = [ex_event]" "evset_entries (ks_evsets (tl_k ex_tool)) = [ex_evset]"
proof -
  have k: "ks_events (tl_k ex_tool) = ev_tab ex_config" "ks_evsets (tl_k ex_tool) = es_tab ex_config"
    by (simp_all add: ex_tool_def ex_idle_def)
  show "event_entries (ks_events (tl_k ex_tool)) = [ex_event]" "evset_entries (ks_evsets (tl_k ex_tool)) = [ex_evset]"
    unfolding k by (rule ex_entries)+
qed (simp_all add: ex_tool_def ex_idle_inv ex_ka_def ka_good_def)

lemma ex_numbers:
  "strtoul ''0x333'' = 0x333" "strtoul ''0'' = 0" "strtoul ''-1'' = - 1" "strtoul ''1'' = 1" "strtoul ''2'' = 2"
  "strtoul ''8192'' = 8192" "ucast (- 1 :: u64) = (- 1 :: i32)"
  by (simp_all add: strtoul_def is_space_def digit_value_def Let_def is_digit_def) (rule bit_word_eqI, simp add: bit_simps)

text \<open>The parameter of \<^verbatim>\<open>evset --add\<close> that gives the event-set of the examples.\<close>

lemma ex_parse_evset: "parse_evset_add ''tag=set,events=0,fixed=0x333'' = Some (Inr ex_evset)"
proof -
  have r: "replicate 3 (- 1 :: i32) = [- 1, - 1, - 1]" by (simp add: numeral_eq_Suc)
  show ?thesis
    by (simp add: parse_evset_add_def evset_subopts.simps getsubopt_def evset_add_opts_def evset_subopt_def Let_def
        zero_evset_def evset_fixed_def evset_events_def strtok_tokens_def ex_numbers MAX_GP_CTRS_def TOOL_MAX_EVENTS_def r
        upt_conv_Cons ex_evset_def)
qed

lemmas parse_profile_simps = parse_profile_def set_out_file_def DEFAULT_OFILE_def Let_def profile_opt_def
  strtok_tokens_def ex_numbers set_esids_def MAX_EVSETS_def MUX_EVSETS_def set_argindex_def zero_envir_def
  add_option_def opt_pages_def mmap_choices_def

section \<open>Configuring\<close>

text \<open>
  C29: the command \<^verbatim>\<open>event -a\<close> with any argument, on an open device that the kernel gives access to. The
  argument is a list of parameters between commas, in any order and any number. The first one that has an unknown
  name makes the command be refused, which leaves the driver alone and still returns 0; the first one that has
  a known name but no value makes it follow a NULL pointer. Otherwise tag, evsel and umask are counted, and the
  command is refused in the same way when the bitwise conjunction of the three counts is 0: when one of them
  is missing, but also when one is given once and another one twice. If it is not refused, it fails exactly when the table
  is full or the driver has no memory, leaving the table, and else stores as the last event one with the last tag,
  cut to 63 characters, with the disjunction of the low eight bits of all evsels and of all umasks, with the
  two mode bits of all modes, or both if they are 0, and enabled only if a mode was given.
\<close>

theorem event_add_end_to_end:
  assumes "kinv (tl_k u)" and "ka_good ka" and "fd \<noteq> - 1" and "fd \<noteq> 0"
  shows "let ps = split_opts arg; es = event_entries (ks_events (tl_k u));
      run = smon_main os ka fd [''smon'', ''event'', ''-a'', arg] cmd0 u;
      refused = (\<exists>u'. run = Some (0, [], u') \<and> tl_k u' = tl_k u)
    in case dropWhile opt_valid ps of
      p # _ \<Rightarrow> if fst p \<in> {''tag'', ''mode'', ''evsel'', ''umask''} then run = None else refused
    | [] \<Rightarrow> if given ''tag'' ps AND given ''evsel'' ps AND given ''umask'' ps = 0 then refused
      else \<exists>r u' x. run = Some (r, [], u') \<and> kinv (tl_k u') \<and> (r = 0 \<longleftrightarrow> ka_alloc ka \<and> length es < 64) \<and>
        event_entries (ks_events (tl_k u')) = es @ (if r = 0 then [x] else []) \<and>
        ev_tag x = take 63 (the (snd (last (filter (\<lambda>p. fst p = ''tag'') ps)))) \<and>
        ev_evsel x = given_bits ''evsel'' ps AND 0xff \<and> ev_umask x = given_bits ''umask'' ps AND 0xff \<and>
        ev_usr x = of_bool (bit (given_bits ''mode'' ps) 0 \<or> \<not> bit (given_bits ''mode'' ps) 1) \<and>
        ev_os x = of_bool (bit (given_bits ''mode'' ps) 1 \<or> \<not> bit (given_bits ''mode'' ps) 0) \<and>
        ev_en x = of_bool (0 < given ''mode'' ps)"
proof -
  define ps where "ps = split_opts arg"
  define run where "run = smon_main os ka fd [''smon'', ''event'', ''-a'', arg] cmd0 u"
  have opts: "set event_add_opts = {''tag'', ''mode'', ''evsel'', ''umask''}" by (simp add: event_add_opts_def)
  have parse: "parse_event_add arg = (case dropWhile opt_valid ps of
     [] \<Rightarrow> if given ''tag'' ps AND given ''evsel'' ps AND given ''umask'' ps = 0 then Some (Inl 1) else Some (Inr (given_event ps))
   | p # _ \<Rightarrow> if fst p \<in> {''tag'', ''mode'', ''evsel'', ''umask''} then None else Some (Inl 1))"
    unfolding ps_def opts [symmetric] by (simp only: parse_event_add_given Let_def)
  have refused: "\<exists>u'. run = Some (0, [], u') \<and> tl_k u' = tl_k u" if "parse_event_add arg = Some (Inl 1)"
    by (simp add: run_def event_command [OF assms(3)] that smon_unload_driver_def)
  have fault: "run = None" if "parse_event_add arg = None"
    by (simp add: run_def event_command [OF assms(3)] that)
  show ?thesis
  proof (cases "dropWhile opt_valid ps")
    case (Cons p qs)
    then show ?thesis
      unfolding Let_def ps_def [symmetric] run_def [symmetric] using parse refused fault by (simp split: if_splits)
  next
    case Nil
    show ?thesis
    proof (cases "given ''tag'' ps AND given ''evsel'' ps AND given ''umask'' ps = 0")
      case True
      with parse Nil have "parse_event_add arg = Some (Inl 1)" by (simp only: list.case if_True refl)
      then show ?thesis
        unfolding Let_def ps_def [symmetric] run_def [symmetric] Nil list.case if_P [OF True] by (rule refused)
    next
      case False
      then have t: "0 < given ''tag'' ps" by (intro gr_zeroI) simp
      from False parse Nil have "parse_event_add arg = Some (Inr (given_event ps))" by (simp only: list.case if_False)
      from main_event_add [OF assms(1-4) this, of os cmd0] obtain r u' where "run = Some (r, [], u')" "kinv (tl_k u')"
        "r = 0 \<longleftrightarrow> ka_alloc ka \<and> length (event_entries (ks_events (tl_k u))) < 64"
        "event_entries (ks_events (tl_k u')) = event_entries (ks_events (tl_k u)) @ (if r = 0 then [given_event ps] else [])"
        unfolding run_def by blast
      then show ?thesis
        unfolding Let_def ps_def [symmetric] run_def [symmetric] Nil list.case if_not_P [OF False]
        by (intro exI [of _ r] exI [of _ u'] exI [of _ "given_event ps"] conjI)
          (simp_all only: given_event_fields given_tag_last [OF t])
    qed
  qed
qed

theorem event_add_end_to_end_witness:
  "(\<exists>r u' x. smon_main ex_os ex_ka 4 [''smon'', ''event'', ''-a'', ''umask=129,tag=ld,evsel=208''] ex_cmd ex_tool = Some (r, [], u') \<and>
     event_entries (ks_events (tl_k u')) = [ex_event, x] \<and> ev_evsel x = 208 \<and> ev_tag x = ''ld'' \<and> ev_en x = 0) \<and>
   smon_main ex_os ex_ka 4 [''smon'', ''event'', ''-a'', ''tag''] ex_cmd ex_tool = None"
proof -
  have s: "split_opts ''umask=129,tag=ld,evsel=208'' = [(''umask'', Some ''129''), (''tag'', Some ''ld''), (''evsel'', Some ''208'')]"
    "split_opts ''tag'' = [(''tag'', None)]"
    by (simp_all add: split_opts.simps Let_def)
  have n: "strtoul ''129'' = 129" "strtoul ''208'' = 208"
    by (simp_all add: strtoul_def is_space_def digit_value_def Let_def is_digit_def)
  have v: "opt_valid (''umask'', Some x)" "opt_valid (''tag'', Some x)" "opt_valid (''evsel'', Some x)" "\<not> opt_valid (''tag'', None)" for x
    by (simp_all add: opt_valid_def event_add_opts_def)
  have fd: "(4 :: i32) \<noteq> - 1" "(4 :: i32) \<noteq> 0" by simp_all
  show ?thesis
    using event_add_end_to_end [OF ex_tool_ok(1,3) fd, of "''umask=129,tag=ld,evsel=208''" ex_os ex_cmd]
      event_add_end_to_end [OF ex_tool_ok(1,3) fd, of "''tag''" ex_os ex_cmd]
    by (auto simp: Let_def s n v ex_tool_ok ex_ka_def)
qed

text \<open>
  C32: an event-set that the command line accepts has four slots with event ids below 64, and its global control
  word enables every configured counter: each slot with an event, and exactly those fixed counters
  whose control bits are set.
\<close>

theorem evset_option_consistent:
  assumes "parse_evset_add str = Some (Inr s)"
  shows "length (evids s) = MAX_GP_CTRS \<and> (\<forall>e \<in> set (evids s). sint e < 64) \<and>
    (\<forall>i < MAX_GP_CTRS. 0 \<le> sint (evids s ! i) \<longrightarrow> bit (global_ctrl s) i) \<and>
    (\<forall>i < MAX_FX_CTRS. bit (global_ctrl s) (32 + i) \<longleftrightarrow> fx_enabled s i)"
proof -
  have g: "i < 3 \<Longrightarrow> i = 0 \<or> i = 1 \<or> i = 2" for i :: nat by auto
  have "bit (global_ctrl s) (32 + i) \<longleftrightarrow> fx_enabled s i" if "i < MAX_FX_CTRS" for i
    using parse_evset_ok(1) [OF assms] g [of i] that
    by (auto simp: cmd_evset_ok_def fx_enabled_def MAX_FX_CTRS_def)
  then show ?thesis
    using parse_evset_ok [OF assms] by (simp add: cmd_evset_ok_def evset_enabled_def)
qed

theorem evset_option_consistent_witness:
  "bit (global_ctrl ex_evset) (32 + 1) \<longleftrightarrow> fx_enabled ex_evset 1"
proof -
  have "1 < MAX_FX_CTRS" by (simp add: MAX_FX_CTRS_def)
  with evset_option_consistent [OF ex_parse_evset] show ?thesis by blast
qed

text \<open>
  Listing the events prints one line for every entry of the driver's table, in the order of the ids, and
  nothing else, returns their number and ends.
\<close>

lemma list_events_complete:
  assumes "kinv (tl_k u)" and "ka_good ka" and "tl_dev u \<noteq> 0"
  shows "smon_list_events ka u = Some (int (length (event_entries (ks_events (tl_k u)))),
    u\<lparr>tl_out := tl_out u @ map (\<lambda>i. local_print_event (event_entries (ks_events (tl_k u)) ! i) i)
      [0..<length (event_entries (ks_events (tl_k u)))]\<rparr>)"
  using smon_list_events_spec [OF assms] by (simp add: lines_from_def)

text \<open>
  C30: the check of the events that the tool makes before it registers an event-set agrees with the driver's own
  test: while there is room and memory, the registration succeeds exactly when the check did.
\<close>

theorem evset_check_agrees:
  assumes "kinv (tl_k u)" and "ka_good ka" and "tl_dev u \<noteq> 0" and "parse_evset_add str = Some (Inr s)"
    and "ka_alloc ka" and "length (evset_entries (ks_evsets (tl_k u))) < 64"
  shows "\<exists>r u'. user_set_evset ka s u = Some (r, u') \<and> (r = 0 \<longleftrightarrow> smon_check_events ka s u = Some (0, u))"
proof -
  have s: "cmd_evset_ok s" by (rule parse_evset_ok(1) [OF assms(4)])
  obtain r u' where r: "user_set_evset ka s u = Some (r, u')"
    "r = 0 \<longleftrightarrow> ka_alloc ka \<and> evset_refs_ok (ks_events (tl_k u)) s \<and> length (evset_entries (ks_evsets (tl_k u))) < 64"
    by (rule user_set_evset_spec [OF assms(1-3) s])
  have "r = 0 \<longleftrightarrow> smon_check_events ka s u = Some (0, u)"
    using r(2) assms(5,6) check_events_agree [OF assms(1,2) s] by (simp add: SMENOEVT_def)
  then show ?thesis using r(1) by blast
qed

theorem evset_check_agrees_witness:
  "\<exists>r u'. user_set_evset ex_ka ex_evset ex_tool = Some (r, u') \<and>
     (r = 0 \<longleftrightarrow> smon_check_events ex_ka ex_evset ex_tool = Some (0, ex_tool))"
  by (rule evset_check_agrees [OF ex_tool_ok(1,3,2) ex_parse_evset]) (simp_all add: ex_tool_ok(5) ex_ka_def)

section \<open>Profiling\<close>

text \<open>
  C28: what the tool accepts as a profiling command and finds registered, the driver can monitor: unless the
  list of event-sets is empty, and when the size asked for is one the driver allows and there is memory, mapping
  the device gives the file an empty buffer of that size, the environment passes every condition
  that the driver relies on without testing it, and the registration that follows succeeds: the task waits for
  its exec, writes into the mapped buffer, and the driver's state stays consistent.
\<close>

theorem profile_accepted_by_driver:
  assumes "parse_profile args cmd = Some (Inr (cmd', prog))" and "c_ptr cmd' = PtrEnvir e" and "n_esids e \<noteq> 0"
    and "kinv (tl_k u)" and "ka_good ka" and "tl_dev u \<noteq> 0" and "smon_check_evsets ka e u = Some (0, u')"
    and "c_mmap_pages cmd' \<le> 1024" and "os_memory os (tl_k u)"
    and "ka_task ka = Some a" and "ka_envir ka = Some ea" and "ka_extra ka"
    and "fresh_task (tl_k u) a" and "ks_envirs (tl_k u) ea = None"
  shows "\<exists>b u1 u2. tool_mmap os (c_mmap_pages cmd') u = Some (True, u1) \<and> tl_pd u1 = Some (os_rb os) \<and>
    ks_rbs (tl_k u1) (os_rb os) = Some b \<and> rb_inv b [] \<and> rb_n_pages b = c_mmap_pages cmd' \<and>
    smon_set_task ka pid e u1 = Some (0, u2) \<and> kinv (tl_k u2) \<and> a \<in> set (ks_wait_list (tl_k u2)) \<and>
    map_option t_rb (ks_tasks (tl_k u2) a) = Some (Some (os_rb os))"
proof -
  obtain e' where "c_ptr cmd' = PtrEnvir e'" "cmd_envir_ok e'" and pages: "pages_ok cmd'"
    by (rule parse_profile_ok [OF assms(1)])
  then have e: "cmd_envir_ok e" using assms(2) by simp
  obtain b where m: "tool_mmap os (c_mmap_pages cmd') u =
      Some (True, u\<lparr>tl_k := put_rb (os_rb os) b (tl_k u), tl_pd := Some (os_rb os)\<rparr>)"
    "kinv (put_rb (os_rb os) b (tl_k u))" "rb_inv b []" "rb_n_pages b = c_mmap_pages cmd'"
    by (rule tool_mmap_maps [OF assms(4,6) pages [unfolded pages_ok_def] assms(8,9)])
  define u1 where "u1 = u\<lparr>tl_k := put_rb (os_rb os) b (tl_k u), tl_pd := Some (os_rb os)\<rparr>"
  have "envir_refs_ok (ks_evsets (tl_k u)) e"
    using check_evsets_agree [OF assms(4,5) e assms(6)] assms(7) by (auto simp: SMENOEVS_def split: if_splits)
  moreover have "envir_wf e" using e assms(3) by (auto simp: cmd_envir_ok_def envir_wf_def unat_gt_0)
  ultimately have ok: "register_ok (Some a) (Some ea) True e (os_rb os) (put_rb (os_rb os) b (tl_k u))"
    using assms(13,14) by (simp add: register_ok_def fresh_task_def put_rb_def)
  obtain k where k: "smon_sched_register_task (Some a) (Some ea) True pid e (os_rb os) (put_rb (os_rb os) b (tl_k u)) =
      Some (0, k)" "kinv k" "task_added a e (put_rb (os_rb os) b (tl_k u)) k"
      "map_option t_rb (ks_tasks k a) = Some (Some (os_rb os))"
    by (rule register_task_spec [OF m(2) ok])
  have "smon_set_task ka pid e u1 = Some (0, u1\<lparr>tl_k := k\<rparr>)"
    using set_task_registers [OF assms(5), of u1 "os_rb os" pid e] assms(6,10-12) k(1) by (simp add: u1_def)
  moreover have "a \<in> set (ks_wait_list k)" using cmd_envir_exec [OF e] k(3) by (auto simp: task_added_def)
  ultimately show ?thesis using m k(2,4)
    by (intro exI [of _ b] exI [of _ u1] exI [of _ "u1\<lparr>tl_k := k\<rparr>"]) (simp add: u1_def put_rb_def)
qed

lemma ex_parse_profile:
  "\<exists>cmd e. parse_profile [''-e'', ''0'', ''ls''] ex_cmd = Some (Inr (cmd, [''ls''])) \<and> c_ptr cmd = PtrEnvir e \<and>
     n_esids e = 1 \<and> esids e ! 0 = 0 \<and> c_mmap_pages cmd = 1024"
  by (simp add: parse_profile_simps DEFAULT_MMAP_PAGES_def)

theorem profile_accepted_by_driver_witness:
  "\<exists>cmd e u1 u2. parse_profile [''-e'', ''0'', ''ls''] ex_cmd = Some (Inr (cmd, [''ls''])) \<and> c_ptr cmd = PtrEnvir e \<and>
     tool_mmap ex_os 1024 ex_tool = Some (True, u1) \<and> smon_set_task ex_ka 7 e u1 = Some (0, u2) \<and>
     20 \<in> set (ks_wait_list (tl_k u2))"
proof -
  obtain cmd e where p: "parse_profile [''-e'', ''0'', ''ls''] ex_cmd = Some (Inr (cmd, [''ls'']))" "c_ptr cmd = PtrEnvir e"
    and e: "n_esids e = 1" "esids e ! 0 = 0" "c_mmap_pages cmd = 1024" using ex_parse_profile by blast
  obtain e' where "c_ptr cmd = PtrEnvir e'" "cmd_envir_ok e'" by (rule parse_profile_ok [OF p(1)])
  then have ok: "cmd_envir_ok e" using p(2) by simp
  have "envir_refs_ok (ks_evsets (tl_k ex_tool)) e" using e by (simp add: envir_refs_ok_def ex_tool_ok(5))
  then have c: "smon_check_evsets ex_ka e ex_tool = Some (0, ex_tool)"
    using check_evsets_agree [OF ex_tool_ok(1,3) ok ex_tool_ok(2)] by simp
  have f: "n_esids e \<noteq> 0" "fresh_task (tl_k ex_tool) 20" "ks_envirs (tl_k ex_tool) 30 = None" "os_memory ex_os (tl_k ex_tool)"
    using e by (simp_all add: ex_tool_def ex_idle_def fresh_task_def os_memory_def ex_os_def)
  have k: "ka_task ex_ka = Some 20" "ka_envir ex_ka = Some 30" "ka_extra ex_ka" "c_mmap_pages cmd \<le> 1024"
    using e(3) by (simp_all add: ex_ka_def)
  from profile_accepted_by_driver [OF p f(1) ex_tool_ok(1,3,2) c k(4) f(4) k(1-3) f(2,3), of 7] p e(3) show ?thesis
    by fastforce
qed

text \<open>Registering does not look at the number of event-sets.\<close>

lemma register_empty:
  assumes i: "kinv ks" and rb: "ks_rbs ks r = Some rb" and a: "fresh_task ks a"
    and e: "envir_option_exec e" "\<not> envir_option_stat e"
  obtains k e' where "smon_sched_register_task (Some a) (Some ea) True pid e r ks = Some (0, k)"
    "a \<in> set (ks_wait_list k)" "ks_envirs k ea = Some e'" "n_esids e' = n_esids e"
proof -
  obtain e' where e': "smon_create_envir True e = Some e'" "n_esids e' = n_esids e"
    using e(2) by (simp add: smon_create_envir_def Let_def envir_option_stat_def)
  have n: "ks_tasks ks a = None" using a by (simp add: fresh_task_def)
  have live: "task_live k x" if "\<forall>x. x \<noteq> a \<longrightarrow> ks_tasks k x = ks_tasks ks x" "task_live ks x" for k x
    using that n by (cases "x = a") (auto simp: task_live_def)
  have l: "list_add (task_live k) a (ks_task_list ks) = Some (a # ks_task_list ks)"
    "list_add (task_live k) a (ks_wait_list ks) = Some (a # ks_wait_list ks)"
    if "\<forall>x. x \<noteq> a \<longrightarrow> ks_tasks k x = ks_tasks ks x" for k
    using live [OF that] task_list_live [OF i] wait_list_live [OF i] by (auto intro!: list_add_live)
  obtain k where "smon_sched_register_task (Some a) (Some ea) True pid e r ks = Some (0, k)"
    "ks_wait_list k = a # ks_wait_list ks" "ks_envirs k ea = Some e'"
    using rb e' e(1) n l
    by (simp add: smon_sched_register_task_def smon_create_task_def smon_task_extra_create_def Let_def put_envir_def
        put_rb_def put_task_def modify_task_def add_to_tasks_def add_to_wait_def)
  with e' that show thesis by simp
qed

text \<open>
  C39: a profiling command that the parser accepts may have a list of event-sets that names none, as with \<open>-e -1\<close>. On an
  open device with a mapped buffer and with memory for the task, the check of the event-sets has then nothing to
  object and the driver registers the task. From then on, as long as
  the task keeps this environment, stopping its counters follows the NULL pointer of an event-set that does
  not exist: the switch away from its process and the expiry of its timer both fault.
\<close>

theorem empty_evset_list_accepted:
  assumes "parse_profile args cmd = Some (Inr (cmd', prog))" and "c_ptr cmd' = PtrEnvir e" and "n_esids e = 0"
    and "kinv (tl_k u)" and "ka_good ka" and "tl_dev u \<noteq> 0" and "tl_pd u = Some r" and "ks_rbs (tl_k u) r = Some rb"
    and "ka_task ka = Some a" and "ka_envir ka = Some ea" and "ka_extra ka" and "fresh_task (tl_k u) a"
  shows "smon_check_evsets ka e u = Some (0, u) \<and>
    (\<exists>k. smon_set_task ka pid e u = Some (0, u\<lparr>tl_k := k\<rparr>) \<and> a \<in> set (ks_wait_list k) \<and>
      (\<forall>k' t. ks_tasks k' a = Some t \<and> t_envir t = Some ea \<and> ks_envirs k' ea = ks_envirs k ea \<longrightarrow>
        smon_sched_task_out a rem k' = None \<and>
        (t_timer_flags t AND SMON_TIMER_ON \<noteq> 0 \<longrightarrow> smon_sched_timer_tick a k' = None)))"
proof -
  obtain e1 where "c_ptr cmd' = PtrEnvir e1" "cmd_envir_ok e1" "\<not> envir_option_stat e1"
    by (rule parse_profile_ok [OF assms(1)])
  then have e: "envir_option_exec e" "\<not> envir_option_stat e" using assms(2) cmd_envir_exec by simp_all
  obtain k e' where k: "smon_sched_register_task (Some a) (Some ea) True pid e r (tl_k u) = Some (0, k)"
    "a \<in> set (ks_wait_list k)" "ks_envirs k ea = Some e'" "n_esids e' = n_esids e"
    by (rule register_empty [OF assms(4,8,12) e])
  have stop: "smon_sample_stop a k' = None"
    if "ks_tasks k' a = Some t" "t_envir t = Some ea" "ks_envirs k' ea = ks_envirs k ea" for k' t
    using that k(3,4) assms(3)
    by (simp add: smon_sample_stop_def task_envir_def smon_envir_get_evset_def smon_pmc_read_def Let_def split_def)
  have "smon_check_evsets ka e u = Some (0, u)" using assms(3,6) by (simp add: smon_check_evsets_def)
  moreover have "smon_set_task ka pid e u = Some (0, u\<lparr>tl_k := k\<rparr>)"
    using set_task_registers [OF assms(5-7)] assms(9-11) k(1) by simp
  moreover have "smon_sched_task_out a rem k' = None \<and>
      (t_timer_flags t AND SMON_TIMER_ON \<noteq> 0 \<longrightarrow> smon_sched_timer_tick a k' = None)"
    if "ks_tasks k' a = Some t \<and> t_envir t = Some ea \<and> ks_envirs k' ea = ks_envirs k ea" for k' t
    using that stop [of k' t] by (simp add: smon_sched_task_out_def smon_sched_timer_tick_def)
  ultimately show ?thesis using k(2) by blast
qed

theorem empty_evset_list_accepted_witness:
  "\<exists>cmd e k. parse_profile [''-e'', ''-1'', ''ls''] ex_cmd = Some (Inr (cmd, [''ls''])) \<and> c_ptr cmd = PtrEnvir e \<and>
     smon_check_evsets ex_ka e ex_tool = Some (0, ex_tool) \<and>
     smon_set_task ex_ka 7 e ex_tool = Some (0, ex_tool\<lparr>tl_k := k\<rparr>) \<and> 20 \<in> set (ks_wait_list k)"
proof -
  obtain cmd e where p: "parse_profile [''-e'', ''-1'', ''ls''] ex_cmd = Some (Inr (cmd, [''ls'']))" "c_ptr cmd = PtrEnvir e"
    "n_esids e = 0"
    by (simp add: parse_profile_simps)
  have u: "tl_pd ex_tool = Some 10" "ks_rbs (tl_k ex_tool) 10 = Some (ex_rb 0)" "ka_task ex_ka = Some 20"
    "ka_envir ex_ka = Some 30" "ka_extra ex_ka" "fresh_task (tl_k ex_tool) 20"
    by (simp_all add: ex_tool_def ex_idle_def ex_ka_def fresh_task_def)
  from empty_evset_list_accepted [OF p ex_tool_ok(1,3,2) u, of 7 0] p(1,2) show ?thesis by blast
qed

text \<open>
  The order of a profiling run: if every step succeeds, the task is registered before the sampling starts,
  and it is unregistered only after the sampling has ended and the child has been waited for, before
  the buffer is unmapped; if the mapping or the registration fails, the child is killed and nothing is
  sampled or unregistered.
\<close>

lemma profiling_order:
  assumes "profile_parent os ka envir cmd pid u = Some (err, early, acts, u')"
  shows "if err = 0
    then \<exists>xs ss ys zs. acts = xs @ Sampling ss # ys @ UnregisterTask pid # zs \<and> RegisterTask pid \<in> set xs \<and>
      WaitChild \<in> set ys \<and> UnmapRing (c_mmap_pages cmd) \<in> set zs
    else early \<and> (\<forall>ss. Sampling ss \<notin> set acts) \<and> KillChild pid \<in> set acts \<and> UnregisterTask pid \<notin> set acts"
  using parent_orders [OF assms] by (cases "err = 0") auto

text \<open>
  C20: the sampling loop of the tool ends: when the tool is woken up finitely often while the driver writes
  samples, and then the last writer leaves, the loop stops after that round, without a fault, with
  every accepted sample printed, if the end-of-file record found room.
\<close>

theorem sampling_terminates:
  assumes "smon_mmap p q ok junk vs ve d = Some (0, Some rb, ps)" and "drop_bit PAGE_SHIFT (ve - vs) < 2 ^ 32"
    and "\<forall>xs \<in> set xss. list_all pipe_op_wf xs" and "\<forall>k \<le> length xss. polled k = 1"
    and "\<forall>k < length xss. act k = fold_opt (pipe_exec b) (xss ! k)" and "act (length xss) = release_session"
  shows "\<exists>st. fold_opt (pipe_exec b) (sleep_rounds xss) (new_session b addr rb) = Some st \<and>
    (rb_fits (se_rb st) 0 \<longrightarrow> (\<exists>st'. start_sampling b polled act 0 (new_session b addr rb) = Some st' \<and>
      se_out st' = accepted b (sleep_rounds xss) (new_session b addr rb)))"
  using start_sampling_ends [OF new_session_synced(1,2) [OF assms(1,2)] assms(3-6)]
  by (simp add: new_session_synced(3) [OF assms(1,2)])

theorem sampling_terminates_witness:
  "\<exists>st'. start_sampling 1 (\<lambda>_. 1) (\<lambda>_. release_session) 0 (new_session 1 65536 (ex_rb 0)) = Some st' \<and> se_out st' = []"
proof -
  obtain rb ps where m: "smon_mmap True True (\<lambda>_. True) (\<lambda>_ _. 0) 0 8192 None = Some (0, Some rb, ps)" "rb = ex_rb 0"
    by (rule mmap_ex)
  have s: "drop_bit PAGE_SHIFT ((8192 :: u64) - 0) < 2 ^ 32" by (simp add: PAGE_SHIFT_def)
  have n: "se_rb (new_session 1 65536 (ex_rb 0)) = ex_rb 1" by (simp add: new_session_def smon_get_rb_def ex_rb_def)
  from sampling_terminates [OF m(1) s, of "[]" "\<lambda>_. 1" "\<lambda>_. release_session" 1 65536] show ?thesis
    by (simp add: m(2) n sleep_rounds_def ex_rb_fits)
qed

text \<open>
  C31: the output file determines the samples: two sequences of samples that are printed as the same text are
  the same, so that nothing of a sample is lost or merged with another on the way to the file.
\<close>

theorem output_determines_samples:
  assumes "list_all sample_wf ss" and "list_all sample_wf ss'" and "output_text ss = output_text ss'"
  shows "ss = ss'"
  by (rule output_text_inj [OF assms])

theorem output_determines_samples_witness:
  "output_text [ex_fork] \<noteq> output_text [ForkSample \<lparr>sf_timestamp = 7, sf_parent = 3, sf_child = 5\<rparr>]"
  using output_determines_samples [of "[ex_fork]" "[ForkSample \<lparr>sf_timestamp = 7, sf_parent = 3, sf_child = 5\<rparr>]"] by auto

end
