(* ===== verification/Interleaving.thy ===== *)
theory Interleaving
  imports Pipeline
begin

text \<open>
  The reader at the grain of one iteration of the loop of \<^verbatim>\<open>read_samples\<close>: the driver's writers run
  in between, on other processors or because the reader is preempted, and the mapping shows what they
  write at once. \<open>sampling_round\<close> of \<open>Pipeline\<close> is the run of these steps without a write in between;
  here any interleaving is shown to print what was accepted, and to end.
\<close>

section \<open>The steps\<close>

text \<open>
  Where the reader is: before the call of \<^verbatim>\<open>poll\<close>; in the loop of \<^verbatim>\<open>read_samples\<close> with its bound
  \<^verbatim>\<open>nr_samples\<close>, the counter \<^verbatim>\<open>n_samples\<close>, the flag \<^verbatim>\<open>eof\<close> and whether \<^verbatim>\<open>poll\<close>
  reported the end; after the loop of \<^verbatim>\<open>start_sampling\<close>, with the value of \<^verbatim>\<open>err\<close>.
\<close>

datatype phase = Polling | Reading i32 nat bool bool | Ended i32

record sampler = session +
  sa_phase :: phase

definition reader_step :: "i32 \<Rightarrow> sampler \<Rightarrow> sampler option" where
  "reader_step batch_size st = (case sa_phase st of
     Polling \<Rightarrow>
       (let revents = smon_poll (Some (se_rb st))
        in if revents AND POLLIN \<noteq> 0 then Some (st\<lparr>sa_phase := Reading batch_size 0 False False\<rparr>)
           else if revents AND POLLHUP \<noteq> 0
           then Some (st\<lparr>sa_phase := Reading (ur_size (se_ur st)) 0 False True\<rparr>)
           else Some st)
   | Reading nr n eof hup \<Rightarrow>
       if int n < sint nr \<and> \<not> eof
       then do {
         (r, u) \<leftarrow> read_one (mapped (ur_addr (se_ur st)) (se_rb st)) (se_ur st);
         let st = st\<lparr>se_ur := u\<rparr>;
         Some (case r of
             Printed s \<Rightarrow> st\<lparr>se_out := se_out st @ [s], sa_phase := Reading nr (n + 1) eof hup\<rparr>
           | Next_page \<Rightarrow> st
           | End_of_file \<Rightarrow> st\<lparr>sa_phase := Reading nr (n + 1) True hup\<rparr>
           | Unknown \<Rightarrow> st\<lparr>sa_phase := Ended (- 1)\<rparr>)
       }
       else let (bytes, u) = smon_rb_flush (se_ur st)
            in Some (st\<lparr>se_ur := u, se_rb := smon_rb_read (of_nat n) bytes (se_rb st),
                        sa_phase := (if hup then Ended 0 else Polling)\<rparr>)
   | Ended err \<Rightarrow> Some st)"

text \<open>
  \<open>reader_step\<close> is the loop while \<^verbatim>\<open>poll\<close> returns 1, or does not return since there is nothing to
  report. When \<^verbatim>\<open>poll\<close> returns 0 or \<open>-1\<close>, as on a signal, the loop ends at once.
\<close>

definition poll_fails :: "phase \<Rightarrow> phase" where
  "poll_fails ph = (case ph of Polling \<Rightarrow> Ended 0 | _ \<Rightarrow> ph)"

datatype sampler_op = Write u32 smon_sample | Advance | PollFails

fun sampler_exec :: "i32 \<Rightarrow> sampler_op \<Rightarrow> sampler \<Rightarrow> sampler option" where
  "sampler_exec batch (Write pad s) st = do {
     rb \<leftarrow> smon_rb_write (sample_type s) (sample_image pad s) (se_rb st);
     Some (st\<lparr>se_rb := rb\<rparr>)
   }"
| "sampler_exec batch Advance st = reader_step batch st"
| "sampler_exec batch PollFails st = Some (st\<lparr>sa_phase := poll_fails (sa_phase st)\<rparr>)"

fun sampler_op_wf :: "sampler_op \<Rightarrow> bool" where
  "sampler_op_wf (Write pad s) \<longleftrightarrow> sample_wf s"
| "sampler_op_wf Advance \<longleftrightarrow> True"
| "sampler_op_wf PollFails \<longleftrightarrow> False"

text \<open>What a step adds to the samples that found room.\<close>

fun taken :: "sampler_op \<Rightarrow> sampler \<Rightarrow> smon_sample list" where
  "taken (Write pad s) st = (if rb_fits (se_rb st) (length (sample_image pad s)) then [s] else [])"
| "taken Advance st = []"
| "taken PollFails st = []"

fun taken_all :: "i32 \<Rightarrow> sampler_op list \<Rightarrow> sampler \<Rightarrow> smon_sample list" where
  "taken_all batch [] st = []"
| "taken_all batch (x # xs) st =
     taken x st @ (case sampler_exec batch x st of None \<Rightarrow> [] | Some st' \<Rightarrow> taken_all batch xs st')"

abbreviation advances :: "i32 \<Rightarrow> nat \<Rightarrow> sampler \<Rightarrow> sampler option" where
  "advances batch k \<equiv> fold_opt (sampler_exec batch) (replicate k Advance)"

lemma advances_trans:
  "advances b k st = Some st1 \<Longrightarrow> advances b l st1 = r \<Longrightarrow> advances b (k + l) st = r"
  by (induction k arbitrary: st) (auto split: bind_splits)

lemma advances_one: "reader_step b st = Some st1 \<Longrightarrow> advances b l st1 = r \<Longrightarrow> advances b (Suc l) st = r"
  by simp

section \<open>A round without a write in between\<close>

lemma read_one_addr: "read_one mem u = Some (r, u') \<Longrightarrow> ur_addr u' = ur_addr u"
  by (auto simp: read_one_def take_sample_def take_info_def smon_rb_consume_def smon_rb_page_next_def
      Let_def split: if_splits bind_splits)

text \<open>
  The loop of \<^verbatim>\<open>read_samples\<close> is a run of steps, up to the report or to the unknown header.
\<close>

fun loop_end :: "i32 \<Rightarrow> bool \<Rightarrow> smon_sample list \<Rightarrow> bool \<times> nat \<times> smon_rb \<times> smon_sample list \<Rightarrow> sampler \<Rightarrow> sampler \<Rightarrow> bool" where
  "loop_end nr hup pre (ok, n, u, out) st st' \<longleftrightarrow>
     (\<exists>eof. st' = st\<lparr>se_ur := u, se_out := pre @ out,
         sa_phase := (if ok then Reading nr n eof hup else Ended (- 1))\<rparr> \<and>
       (ok \<longrightarrow> \<not> (int n < sint nr \<and> \<not> eof)))"

lemma loop_end_skip:
  "loop_end nr hup pre y (st\<lparr>se_ur := u, se_out := out, sa_phase := ph\<rparr>) st' \<longleftrightarrow> loop_end nr hup pre y st st'"
  by (cases y) simp

definition loop_runs ::
  "i32 \<Rightarrow> bool \<Rightarrow> smon_sample list \<Rightarrow> (u64 \<Rightarrow> u8 option) \<Rightarrow> i32 \<Rightarrow> nat \<Rightarrow> bool \<Rightarrow> smon_rb \<Rightarrow> smon_sample list \<Rightarrow>
     bool \<times> nat \<times> smon_rb \<times> smon_sample list \<Rightarrow> bool" where
  "loop_runs b hup pre mem nr n eof u out y \<longleftrightarrow>
     (\<forall>st. mem = mapped (ur_addr u) (se_rb st) \<longrightarrow> se_ur st = u \<longrightarrow> se_out st = pre @ out \<longrightarrow>
       sa_phase st = Reading nr n eof hup \<longrightarrow>
       (\<exists>k st'. advances b k st = Some st' \<and> loop_end nr hup pre y st st'))"

lemma loop_runsD:
  "loop_runs b hup pre mem nr n eof u out y \<Longrightarrow> mem = mapped (ur_addr u) (se_rb st) \<Longrightarrow> se_ur st = u \<Longrightarrow>
     se_out st = pre @ out \<Longrightarrow> sa_phase st = Reading nr n eof hup \<Longrightarrow>
     \<exists>k st'. advances b k st = Some st' \<and> loop_end nr hup pre y st st'"
  by (simp add: loop_runs_def)

lemma read_loop_advances:
  assumes "read_loop mem nr n eof u out = Some y"
  shows "loop_runs b hup pre mem nr n eof u out y"
proof (rule read_loop.raw_induct [where P = "loop_runs b hup pre", OF _ assms], subst loop_runs_def, intro allI impI)
  fix read_loop mem nr n eof u out y and st :: sampler
  assume 1: "\<And>mem nr n eof u out y. read_loop mem nr n eof u out = Some y \<Longrightarrow> loop_runs b hup pre mem nr n eof u out y"
    "(if int n < sint nr \<and> \<not> eof
      then Option.bind (read_one mem u) (\<lambda>r. case r of
          (Printed s, rb') \<Rightarrow> read_loop mem nr (n + 1) eof rb' (out @ [s])
        | (Next_page, rb') \<Rightarrow> read_loop mem nr n eof rb' out
        | (End_of_file, rb') \<Rightarrow> read_loop mem nr (n + 1) True rb' out
        | (Unknown, rb') \<Rightarrow> Some (False, n, rb', out))
      else Some (True, n, u, out)) = Some y"
    "mem = mapped (ur_addr u) (se_rb st)" "se_ur st = u" "se_out st = pre @ out" "sa_phase st = Reading nr n eof hup"
  show "\<exists>k st'. advances b k st = Some st' \<and> loop_end nr hup pre y st st'"
  proof (cases "int n < sint nr \<and> \<not> eof")
    case False
    then have "y = (True, n, u, out)" using 1(2) by auto
    then have "loop_end nr hup pre y st st" using False 1(3-6) by (auto intro!: exI [of _ eof])
    then show ?thesis by (intro exI [of _ 0]) simp
  next
    case True
    then obtain r u' where r: "read_one mem u = Some (r, u')" and
      c: "(case r of Printed s \<Rightarrow> read_loop mem nr (n + 1) eof u' (out @ [s])
        | Next_page \<Rightarrow> read_loop mem nr n eof u' out
        | End_of_file \<Rightarrow> read_loop mem nr (n + 1) True u' out
        | Unknown \<Rightarrow> Some (False, n, u', out)) = Some y"
      using 1(2) by (auto split: bind_splits)
    have a: "mem = mapped (ur_addr u') (se_rb st)" using 1(3) read_one_addr [OF r] by simp
    define st1 where "st1 = (case r of
         Printed s \<Rightarrow> st\<lparr>se_ur := u', se_out := se_out st @ [s], sa_phase := Reading nr (n + 1) eof hup\<rparr>
       | Next_page \<Rightarrow> st\<lparr>se_ur := u', se_out := se_out st, sa_phase := sa_phase st\<rparr>
       | End_of_file \<Rightarrow> st\<lparr>se_ur := u', se_out := se_out st, sa_phase := Reading nr (n + 1) True hup\<rparr>
       | Unknown \<Rightarrow> st\<lparr>se_ur := u', se_out := se_out st, sa_phase := Ended (- 1)\<rparr>)"
    have s: "reader_step b st = Some st1"
      using True r 1(3-6) by (simp add: reader_step_def st1_def split: read_result.split)
    have "\<exists>k st'. advances b k st1 = Some st' \<and> loop_end nr hup pre y st1 st'"
    proof (cases r)
      case (Printed smp)
      show ?thesis
        by (rule loop_runsD [OF 1(1) [of mem nr "n + 1" eof u' "out @ [smp]"]])
          (use c a 1(5) Printed in \<open>simp_all add: st1_def\<close>)
    next
      case Next_page
      show ?thesis
        by (rule loop_runsD [OF 1(1) [of mem nr n eof u' out]]) (use c a 1(5,6) Next_page in \<open>simp_all add: st1_def\<close>)
    next
      case End_of_file
      show ?thesis
        by (rule loop_runsD [OF 1(1) [of mem nr "n + 1" True u' out]]) (use c a 1(5) End_of_file in \<open>simp_all add: st1_def\<close>)
    next
      case Unknown
      then have "y = (False, n, u', out)" using c by simp
      then have "loop_end nr hup pre y st1 st1" using 1(5) Unknown by (simp add: st1_def)
      then show ?thesis by (intro exI [of _ 0]) simp
    qed
    then obtain k st' where k: "advances b k st1 = Some st'" "loop_end nr hup pre y st1 st'" by blast
    have "loop_end nr hup pre y st1 st' = loop_end nr hup pre y st st'"
      unfolding st1_def by (cases r) (simp_all only: read_result.case loop_end_skip)
    then show ?thesis using advances_one [OF s k(1)] k(2) by blast
  qed
qed

text \<open>One call of \<^verbatim>\<open>read_samples\<close> with the report, and a whole round.\<close>

abbreviation with_session :: "session \<Rightarrow> phase \<Rightarrow> sampler" where
  "with_session s ph \<equiv> session.extend s \<lparr>sa_phase = ph\<rparr>"

lemma reader_report:
  assumes "sa_phase st = Reading nr n eof hup" and "\<not> (int n < sint nr \<and> \<not> eof)"
  shows "reader_step b st = Some (st\<lparr>se_ur := snd (smon_rb_flush (se_ur st)),
    se_rb := smon_rb_read (of_nat n) (fst (smon_rb_flush (se_ur st))) (se_rb st),
    sa_phase := (if hup then Ended 0 else Polling)\<rparr>)"
  unfolding reader_step_def assms(1) phase.case if_not_P [OF assms(2)] by (simp add: case_prod_unfold Let_def)

lemma session_read_advances:
  assumes "session_read nr s = Some (err, s')"
  shows "\<exists>k. advances b k (with_session s (Reading nr 0 False hup)) =
    Some (with_session s' (if err = 0 then (if hup then Ended 0 else Polling) else Ended err))"
proof -
  define st where "st = with_session s (Reading nr 0 False hup)"
  have f: "se_ur st = se_ur s" "se_rb st = se_rb s" "se_out st = se_out s @ []"
    "sa_phase st = Reading nr 0 False hup"
    by (simp_all add: st_def session.defs)
  from assms obtain ok n u out where l:
    "read_loop (mapped (ur_addr (se_ur s)) (se_rb s)) nr 0 False (se_ur s) [] = Some (ok, n, u, out)"
    by (auto simp: session_read_def read_samples_def split: bind_splits prod.splits)
  from loop_runsD [OF read_loop_advances [OF l], of st "se_out s" hup b] f obtain k st' where
    k: "advances b k st = Some st'" "loop_end nr hup (se_out s) (ok, n, u, out) st st'" by auto
  show ?thesis
  proof (cases ok)
    case True
    obtain eof where st': "st' = st\<lparr>se_ur := u, se_out := se_out s @ out, sa_phase := Reading nr n eof hup\<rparr>"
      "\<not> (int n < sint nr \<and> \<not> eof)" using k(2) True by auto
    have e: "err = 0" and s': "s' = \<lparr>se_rb = smon_rb_read (of_nat n) (fst (smon_rb_flush u)) (se_rb s),
        se_ur = snd (smon_rb_flush u), se_out = se_out s @ out\<rparr>"
      using assms l True by (auto simp: session_read_def read_samples_def Let_def split: prod.splits)
    have "sa_phase st' = Reading nr n eof hup" by (simp add: st'(1))
    from reader_report [OF this st'(2)]
    have "reader_step b st' = Some (with_session s' (if hup then Ended 0 else Polling))"
      by (simp add: st'(1) f s' session.defs st_def)
    then have "advances b 1 st' = Some (with_session s' (if hup then Ended 0 else Polling))" by simp
    from advances_trans [OF k(1) this] show ?thesis
      by (intro exI [of _ "k + 1"]) (use e in \<open>simp add: st_def\<close>)
  next
    case False
    have "err = - 1" and s': "s' = s\<lparr>se_ur := u, se_out := se_out s @ out\<rparr>"
      using assms l False by (auto simp: session_read_def read_samples_def Let_def split: prod.splits)
    moreover have "st' = with_session s' (Ended (- 1))"
      using k(2) False by (simp add: s' st_def session.defs)
    ultimately show ?thesis using k(1) unfolding st_def by auto
  qed
qed

lemma round_advances:
  assumes "sampling_round b s = Some (err, fin, s')"
  shows "\<exists>k. advances b k (with_session s Polling) =
    Some (with_session s' (if err \<noteq> 0 then Ended err else if fin then Ended 0 else Polling))"
proof -
  define r where "r = smon_poll (Some (se_rb s))"
  define st where "st = with_session s Polling"
  have f: "sa_phase st = Polling" "se_rb st = se_rb s" "se_ur st = se_ur s" "\<And>p. st\<lparr>sa_phase := p\<rparr> = with_session s p"
    by (simp_all add: st_def session.defs)
  consider (inn) "r AND POLLIN \<noteq> 0" | (hup) "r AND POLLIN = 0" "r AND POLLHUP \<noteq> 0"
    | (none) "r AND POLLIN = 0" "r AND POLLHUP = 0" by blast
  then show ?thesis
  proof cases
    case inn
    then have x: "session_read b s = Some (err, s')" "\<not> fin"
      using assms by (auto simp: sampling_round_def Let_def r_def split: bind_splits)
    from session_read_advances [OF x(1), of b False] obtain k where
      k: "advances b k (with_session s (Reading b 0 False False)) =
        Some (with_session s' (if err = 0 then Polling else Ended err))" by (auto simp only: if_False)
    have "reader_step b st = Some (with_session s (Reading b 0 False False))"
      using inn f by (simp add: reader_step_def r_def)
    from advances_one [OF this k] show ?thesis
      by (intro exI [of _ "Suc k"]) (use x(2) in \<open>simp add: st_def\<close>)
  next
    case hup
    then have x: "session_read (ur_size (se_ur s)) s = Some (err, s')" "fin"
      using assms by (auto simp: sampling_round_def Let_def r_def split: bind_splits)
    from session_read_advances [OF x(1), of b True] obtain k where
      k: "advances b k (with_session s (Reading (ur_size (se_ur s)) 0 False True)) =
        Some (with_session s' (if err = 0 then Ended 0 else Ended err))" by (auto simp only: if_True)
    have "reader_step b st = Some (with_session s (Reading (ur_size (se_ur s)) 0 False True))"
      using hup f by (simp add: reader_step_def r_def)
    from advances_one [OF this k] show ?thesis
      by (intro exI [of _ "Suc k"]) (use x(2) in \<open>simp add: st_def\<close>)
  next
    case none
    then have "err = 0" "\<not> fin" "s' = s" using assms by (simp_all add: sampling_round_def Let_def r_def)
    moreover have "advances b 0 st = Some st" by simp
    ultimately show ?thesis unfolding st_def by (auto intro!: exI [of _ 0])
  qed
qed

section \<open>Writes between the steps\<close>

text \<open>The items of a buffer, filler pages included; a write leaves them where they are.\<close>

definition stores :: "smon_ring_buffer \<Rightarrow> rb_item list \<Rightarrow> bool" where
  "stores rb zs \<longleftrightarrow> rb_holds rb zs \<and> unat (rb_items rb) = length (recs zs)"

lemma stores_other:
  "stores (rb\<lparr>rb_active := v\<rparr>) zs = stores rb zs" "stores (rb\<lparr>rb_irq := i\<rparr>) zs = stores rb zs"
  "stores (rb\<lparr>rb_batch := n\<rparr>) zs = stores rb zs"
  by (simp_all add: stores_def rb_holds_def rb_geom_def rb_cap_def flat_def [abs_def])

lemma stores_write:
  assumes s: "stores rb zs" and sz: "sample_size_of ty = Some n" "n \<le> length img"
  obtains rb' ws where "smon_rb_write ty img rb = Some rb'" "rb_same rb rb'" "stores rb' (zs @ ws)"
    "recs ws = (if rb_fits rb n then [Rec ty (take n img)] else [])"
proof -
  have h: "rb_holds rb zs" and it: "unat (rb_items rb) = length (recs zs)" using s by (simp_all add: stores_def)
  from rb_write_spec [OF h sz] obtain rb' ys where r: "smon_rb_write ty img rb = Some rb'"
    and z: "write_post rb zs n (Rec ty (take n img)) rb' ys" by blast
  define ws where "ws = drop (length zs) ys"
  have "take (length zs) ys = zs" using z unfolding write_post_def by blast
  then have ys: "ys = zs @ ws" unfolding ws_def by (metis append_take_drop_id)
  have ws: "recs ws = (if rb_fits rb n then [Rec ty (take n img)] else [])"
    using z by (auto simp: write_post_def ys split: if_splits)
  have "unat (rb_items rb') = length (recs ys)"
    using z it holds_length(2) [OF h] by (auto simp: write_post_def unat_word_ariths split: if_splits)
  then have "stores rb' (zs @ ws)" using z by (simp add: stores_def write_post_def ys)
  with r ws show thesis using z by (intro that) (simp_all add: write_post_def)
qed

text \<open>
  The buffer holds the items \<open>xs\<close> that the reader has passed in this round and \<open>ys\<close> that it has not;
  the records of \<open>ys\<close> are the samples \<open>ss\<close>, and the end of file if the last writer has gone (\<open>e\<close>).
\<close>

definition midway :: "i32 \<Rightarrow> bool \<Rightarrow> sampler \<Rightarrow> rb_item list \<Rightarrow> rb_item list \<Rightarrow> smon_sample list \<Rightarrow> bool" where
  "midway b e st xs ys ss \<longleftrightarrow>
     rb_holds (se_rb st) (xs @ ys) \<and> unat (rb_items (se_rb st)) = length (recs (xs @ ys)) \<and>
     list_all (\<lambda>r. \<exists>s. decodes r s) (recs xs) \<and>
     (\<exists>rs. recs ys = rs @ eof_rec e \<and> list_all2 decodes rs ss) \<and>
     at_pos (se_rb st) (span (unat (rb_tail (se_rb st))) xs) (se_ur st) \<and>
     ur_consumed (se_ur st) = of_nat (span (unat (rb_tail (se_rb st))) xs - unat (rb_tail (se_rb st))) \<and>
     (b \<noteq> 0 \<longrightarrow> rb_batch (se_rb st) = b)"

fun phase_ok :: "i32 \<Rightarrow> phase \<Rightarrow> rb_item list \<Rightarrow> smon_sample list \<Rightarrow> bool" where
  "phase_ok b Polling xs ss \<longleftrightarrow> xs = []"
| "phase_ok b (Reading nr n eof hup) xs ss \<longleftrightarrow> nr = b \<and> n = length (recs xs) \<and> \<not> eof \<and> \<not> hup \<and>
     n \<le> unat b \<and> unat b \<le> n + length ss"
| "phase_ok b (Ended err) xs ss \<longleftrightarrow> False"

definition on_track :: "i32 \<Rightarrow> bool \<Rightarrow> sampler \<Rightarrow> smon_sample list \<Rightarrow> bool" where
  "on_track b e st ss \<longleftrightarrow> (\<exists>xs ys. midway b e st xs ys ss \<and> phase_ok b (sa_phase st) xs ss)"

lemma midway_polling: "midway b e st [] ys ss \<Longrightarrow> synced b e (session.truncate st) ss"
  unfolding midway_def synced_def rb_inv_def session.defs by (simp, elim conjE exE, metis length_append)

lemma synced_on_track:
  assumes "synced b e s ss"
  shows "on_track b e (with_session s Polling) ss"
proof -
  from assms obtain rs ys where "rb_holds (se_rb s) ys" "recs ys = rs @ eof_rec e"
    "unat (rb_items (se_rb s)) = length (recs ys)" "list_all2 decodes rs ss"
    by (auto simp: synced_def rb_inv_def)
  then have "midway b e (with_session s Polling) [] ys ss"
    using assms by (auto simp: midway_def synced_def session.defs)
  then show ?thesis unfolding on_track_def by (intro exI [of _ "[]"] exI [of _ ys]) (simp add: session.defs)
qed

text \<open>A write leaves what the reader has passed and what it will read in place.\<close>

lemma write_on_track:
  assumes t: "on_track b False st ss" and w: "sample_wf s"
  obtains st' where "sampler_exec b (Write pad s) st = Some st'" "on_track b False st' (ss @ taken (Write pad s) st)"
    "se_out st' = se_out st" "rb_active (se_rb st') = rb_active (se_rb st)"
proof -
  from t obtain xs ys where m: "midway b False st xs ys ss" and p: "phase_ok b (sa_phase st) xs ss"
    by (auto simp: on_track_def)
  have d: "list_all2 decodes (recs ys) ss" and s: "stores (se_rb st) (xs @ ys)"
    using m by (auto simp: midway_def stores_def eof_rec_def)
  obtain rb' ws where r: "smon_rb_write (sample_type s) (sample_image pad s) (se_rb st) = Some rb'"
    and sm: "rb_same (se_rb st) rb'" "stores rb' ((xs @ ys) @ ws)"
    and ws: "recs ws = (if rb_fits (se_rb st) (length (sample_image pad s))
        then [Rec (sample_type s) (sample_image pad s)] else [])"
    by (rule stores_write [OF s sample_size_image [OF w] order_refl, of pad]) auto
  define more where "more = taken (Write pad s) st"
  have dw: "list_all2 decodes (recs ws) more" using decode_sample_image [OF w] by (simp add: ws more_def)
  define st' where "st' = st\<lparr>se_rb := rb'\<rparr>"
  have "midway b False st' xs (ys @ ws) (ss @ more)"
    using m sm dw d
    by (simp add: midway_def st'_def rb_same_def at_pos_def rb_cap_def eof_rec_def stores_def list_all2_appendI)
  moreover have "phase_ok b (sa_phase st') xs (ss @ more)"
    using p by (cases "sa_phase st") (simp_all add: st'_def)
  ultimately have "on_track b False st' (ss @ more)" by (auto simp: on_track_def)
  then show thesis
    using that [of st'] r sm(1) by (simp add: st'_def more_def rb_same_def)
qed

lemma read_on_track:
  assumes m: "midway b e st xs ys ss" and p: "phase_ok b (sa_phase st) xs ss"
    and ph: "sa_phase st = Reading nr n eof hup" and lt: "n < unat b"
  obtains st' y ys' ss' where "reader_step b st = Some st'" "ys = y # ys'" "midway b e st' (xs @ [y]) ys' ss'"
    "phase_ok b (sa_phase st') (xs @ [y]) ss'" "se_out st' @ ss' = se_out st @ ss" "se_rb st' = se_rb st"
    "sa_phase st' = Reading nr (length (recs (xs @ [y]))) False False"
proof -
  define rb u t where "rb = se_rb st" and "u = se_ur st" and "t = unat (rb_tail rb)"
  define q where "q = span t xs"
  from m obtain rs where rs: "recs ys = rs @ eof_rec e" "list_all2 decodes rs ss" by (auto simp: midway_def)
  have h: "rb_holds rb (xs @ ys)" and u: "at_pos rb q u" "ur_consumed u = of_nat (q - t)"
    using m by (simp_all add: midway_def rb_def u_def q_def t_def)
  have g: "rb_geom rb" using h by (simp add: rb_holds_def)
  have pp: "nr = b" "n = length (recs xs)" "\<not> eof" "\<not> hup" "unat b \<le> n + length ss" using p ph by simp_all
  have "length rs = length ss" using rs(2) by (rule list_all2_lengthD)
  then have b: "unat b \<le> length (recs (xs @ ys))" using pp(2,5) rs(1) by simp
  then have "unat b < 2 ^ 31" using holds_length(2) [OF h] by simp
  then have "sint b = int (unat b)" by (rule sint_small)
  then have go: "int n < sint nr \<and> \<not> eof" using lt pp(1,3) by (simp only: of_nat_less_iff simp_thms)
  have "ss \<noteq> []" using lt pp(2,5) by auto
  then have "rs \<noteq> []" using rs(2) by auto
  then obtain y ys' where ys: "ys = y # ys'" using rs(1) by (cases ys) auto
  have l: "item_at (flat rb) (rb_cap rb) q y" using h by (simp add: rb_holds_def ys q_def t_def)
  define v where "v = ur_advance rb q (item_end q y) u"
  have sp: "span t (xs @ [y]) = item_end q y" by (simp add: q_def)
  have le: "t \<le> q" "q \<le> item_end q y"
    using span_ge [of t xs] item_end_gt [of q y] by (simp_all add: q_def less_imp_le)
  have "ur_consumed v = of_nat (q - t + (item_end q y - q))" using u(2) by (simp add: v_def ur_advance_def)
  then have v: "at_pos rb (span t (xs @ [y])) v" "ur_consumed v = of_nat (span t (xs @ [y]) - t)"
    unfolding sp v_def using at_pos_advance [OF u(1)] le by simp_all
  have hy: "rb_holds rb ((xs @ [y]) @ ys')" using h ys by simp
  show thesis
  proof (cases y)
    case Pad
    have one: "read_one (mapped (ur_addr u) rb) u = Some (Next_page, v)"
      using read_one_pad [OF g u(1)] l Pad by (simp add: v_def)
    show thesis
    proof (rule that [OF _ ys])
      show "reader_step b st = Some (st\<lparr>se_ur := v\<rparr>)"
        using go one ph by (simp add: reader_step_def rb_def u_def)
      show "midway b e (st\<lparr>se_ur := v\<rparr>) (xs @ [y]) ys' ss"
        using m hy v rs Pad ys by (auto simp: midway_def rb_def t_def)
    qed (use p ph Pad pp in \<open>simp_all\<close>)
  next
    case (Rec ty bs)
    then obtain s ss' where ss: "ss = s # ss'" "decode_sample ty bs = Some s" "list_all2 decodes (tl rs) ss'"
      "recs ys' = tl rs @ eof_rec e"
      using rs ys \<open>rs \<noteq> []\<close> by (cases rs) (auto simp: list_all2_Cons1)
    have one: "read_one (mapped (ur_addr u) rb) u = Some (Printed s, v)"
      using read_one_rec [OF g u(1) _ ss(2)] l Rec by (simp add: v_def)
    define st' where "st' = st\<lparr>se_ur := v, se_out := se_out st @ [s], sa_phase := Reading nr (n + 1) eof hup\<rparr>"
    show thesis
    proof (rule that [OF _ ys])
      show "reader_step b st = Some st'"
        using go one ph by (simp add: reader_step_def rb_def u_def st'_def)
      show "midway b e st' (xs @ [y]) ys' ss'"
        using m hy v ss Rec ys by (auto simp: midway_def rb_def t_def st'_def)
    qed (use p ph Rec pp lt ss(1) in \<open>simp_all add: st'_def\<close>)
  qed
qed

text \<open>The report at the end of a round drops what was passed, and only that.\<close>

lemma report_on_track:
  assumes m: "midway b e st xs ys ss" and p: "phase_ok b (sa_phase st) xs ss"
    and ph: "sa_phase st = Reading nr n eof hup" and ge: "\<not> n < unat b"
  obtains st' where "reader_step b st = Some st'" "midway b e st' [] ys ss" "sa_phase st' = Polling"
    "se_out st' = se_out st" "rb_active (se_rb st') = rb_active (se_rb st)"
proof -
  define rb u t where "rb = se_rb st" and "u = se_ur st" and "t = unat (rb_tail rb)"
  have h: "rb_holds rb (xs @ ys)" and u: "at_pos rb (span t xs) u" "ur_consumed u = of_nat (span t xs - t)"
    and it: "unat (rb_items rb) = length (recs (xs @ ys))"
    using m by (simp_all add: midway_def rb_def u_def t_def)
  have g: "rb_geom rb" using h by (simp add: rb_holds_def)
  have pp: "nr = b" "n = length (recs xs)" "\<not> hup" "n = unat b" using p ph ge by simp_all
  have n31: "n < 2 ^ 31" using holds_length(2) [OF h] pp(2) by simp
  then have "unat b < 2 ^ 31" using pp(4) by simp
  then have "sint b = int (unat b)" by (rule sint_small)
  then have stop: "\<not> (int n < sint nr \<and> \<not> eof)" using pp(1,4) by (simp only: of_nat_less_iff simp_thms less_irrefl)
  have "span t xs \<le> span (span t xs) ys" by (rule span_ge)
  moreover have "span (span t xs) ys < t + rb_cap rb" using h by (simp add: rb_holds_def t_def)
  ultimately have "span t xs - t < 4194304" using rb_geom_bounds(9) [OF g] by linarith
  then have sz: "unat (fst (smon_rb_flush u)) = span t xs - t"
    using u(2) by (simp add: smon_rb_flush_def unat_of_nat)
  have nn: "unat (of_nat n :: u32) = length (recs xs)" using n31 pp(2) by (simp add: unat_of_nat)
  define rb' st' where "rb' = smon_rb_read (of_nat n) (fst (smon_rb_flush u)) rb"
    and "st' = st\<lparr>se_ur := snd (smon_rb_flush u), se_rb := rb', sa_phase := Polling\<rparr>"
  have s: "reader_step b st = Some st'"
    using reader_report [OF ph stop, of b] pp(3) by (simp add: st'_def rb'_def rb_def u_def)
  have hold: "rb_holds rb' ys" and tl: "unat (rb_tail rb') = span t xs mod rb_cap rb"
    using rb_read_prefix [OF h, of "fst (smon_rb_flush u)" "of_nat n"] sz
    by (simp_all add: rb'_def t_def)
  have items: "unat (rb_items rb') = length (recs ys)"
    using it nn by (simp add: rb'_def rb_read_same word_less_nat_alt unat_sub word_le_nat_alt)
  have "midway b e st' [] ys ss"
    using m hold items tl u(1)
    by (simp add: midway_def st'_def rb'_def rb_read_same at_pos_def rb_cap_def smon_rb_flush_def rb_def u_def Let_def)
  then show thesis using that [OF s] by (simp add: st'_def rb'_def rb_read_same rb_def)
qed

lemma midway_items:
  assumes "midway b e st xs ys ss"
  shows "unat (rb_items (se_rb st)) = length (recs xs) + length ss + (if e then 1 else 0)"
proof -
  from assms obtain rs where "recs ys = rs @ eof_rec e" "list_all2 decodes rs ss"
    "unat (rb_items (se_rb st)) = length (recs (xs @ ys))" by (auto simp: midway_def)
  then show ?thesis by (simp add: eof_rec_def list_all2_lengthD)
qed

lemma step_on_track:
  assumes t: "on_track b False st ss" and a: "smon_rb_is_active (se_rb st)" and w: "sampler_op_wf x"
  obtains st' ss' where "sampler_exec b x st = Some st'" "on_track b False st' ss'"
    "rb_active (se_rb st') = rb_active (se_rb st)" "se_out st' @ ss' = se_out st @ ss @ taken x st"
proof (cases x)
  case (Write pad s)
  with w have "sample_wf s" by simp
  from write_on_track [OF t this, of pad] Write that show thesis by auto
next
  case PollFails
  with w show thesis by simp
next
  case Advance
  from t obtain xs ys where m: "midway b False st xs ys ss" and p: "phase_ok b (sa_phase st) xs ss"
    by (auto simp: on_track_def)
  show thesis
  proof (cases "sa_phase st")
    case Polling
    define av where "av = smon_rb_batch_available (se_rb st)"
    have b: "av \<Longrightarrow> unat b \<le> length ss"
      using midway_items [OF m] m p Polling
      by (cases "b = 0") (auto simp: av_def smon_rb_batch_available_def word_le_nat_alt midway_def)
    have "\<not> smon_poll (Some (se_rb st)) AND POLLHUP \<noteq> 0" using a by (simp add: poll_hup)
    moreover have "smon_poll (Some (se_rb st)) AND POLLIN \<noteq> 0 \<longleftrightarrow> av"
      using a by (simp add: poll_in av_def)
    ultimately have s: "reader_step b st =
        Some (if av then st\<lparr>sa_phase := Reading b 0 False False\<rparr> else st)"
      using Polling by (simp add: reader_step_def)
    define st' where "st' = (if av then st\<lparr>sa_phase := Reading b 0 False False\<rparr> else st)"
    have "midway b False st' xs ys ss" using m by (simp add: st'_def midway_def)
    moreover have "phase_ok b (sa_phase st') xs ss" using p Polling b by (simp add: st'_def)
    ultimately have "on_track b False st' ss" by (auto simp: on_track_def)
    then show thesis using that [of st' ss] s Advance by (simp add: st'_def)
  next
    case (Reading nr n eof hup)
    show thesis
    proof (cases "n < unat b")
      case True
      show thesis
      proof (rule read_on_track [OF m p Reading True])
        fix st' y ys' ss' assume s: "reader_step b st = Some st'" "midway b False st' (xs @ [y]) ys' ss'"
          "phase_ok b (sa_phase st') (xs @ [y]) ss'" "se_out st' @ ss' = se_out st @ ss" "se_rb st' = se_rb st"
        then have "on_track b False st' ss'" unfolding on_track_def by blast
        then show thesis using that [of st' ss'] s(1,4,5) Advance by simp
      qed
    next
      case False
      show thesis
      proof (rule report_on_track [OF m p Reading False])
        fix st' assume s: "reader_step b st = Some st'" "midway b False st' [] ys ss" "sa_phase st' = Polling"
          "se_out st' = se_out st" "rb_active (se_rb st') = rb_active (se_rb st)"
        then have "on_track b False st' ss" unfolding on_track_def by (metis phase_ok.simps(1))
        then show thesis using that [of st' ss] s Advance by simp
      qed
    qed
  next
    case (Ended err)
    with p show thesis by simp
  qed
qed

lemma run_on_track:
  assumes "on_track b False st ss" and "smon_rb_is_active (se_rb st)" and "list_all sampler_op_wf xs"
  shows "\<exists>st' ss'. fold_opt (sampler_exec b) xs st = Some st' \<and> on_track b False st' ss' \<and>
    rb_active (se_rb st') = rb_active (se_rb st) \<and> se_out st' @ ss' = se_out st @ ss @ taken_all b xs st"
  using assms
proof (induction xs arbitrary: st ss)
  case Nil
  then show ?case by auto
next
  case (Cons x xs)
  have "sampler_op_wf x" using Cons.prems(3) by simp
  from step_on_track [OF Cons.prems(1,2) this] obtain st1 ss1 where 1: "sampler_exec b x st = Some st1"
    "on_track b False st1 ss1" "rb_active (se_rb st1) = rb_active (se_rb st)"
    "se_out st1 @ ss1 = se_out st @ ss @ taken x st" .
  have "smon_rb_is_active (se_rb st1)" using 1(3) Cons.prems(2) by (simp add: smon_rb_is_active_def)
  from Cons.IH [OF 1(2) this] Cons.prems(3) 1(3) obtain st' ss' where
    "fold_opt (sampler_exec b) xs st1 = Some st'" "on_track b False st' ss'"
    "rb_active (se_rb st') = rb_active (se_rb st)" "se_out st' @ ss' = se_out st1 @ ss1 @ taken_all b xs st1" by auto
  moreover from this(4) have "se_out st' @ ss' = (se_out st1 @ ss1) @ taken_all b xs st1" by simp
  ultimately show ?case using 1(1) unfolding 1(4) by auto
qed

section \<open>The end of the stream\<close>

text \<open>The last writer may release the buffer in the middle of a round.\<close>

lemma release_on_track:
  assumes t: "on_track b False st ss" and a: "rb_active (se_rb st) = 1" and f: "rb_fits (se_rb st) 0"
  obtains rb' where "smon_release_rb (se_rb st) = Some rb'" "rb_active rb' = 0" "on_track b True (st\<lparr>se_rb := rb'\<rparr>) ss"
proof -
  from t obtain xs ys where m: "midway b False st xs ys ss" and p: "phase_ok b (sa_phase st) xs ss"
    by (auto simp: on_track_def)
  define rb where "rb = (se_rb st)\<lparr>rb_active := 0\<rparr>"
  have d: "list_all2 decodes (recs ys) ss" and "stores (se_rb st) (xs @ ys)"
    using m by (auto simp: midway_def stores_def eof_rec_def)
  then have s: "stores rb (xs @ ys)" by (simp add: rb_def stores_other)
  have sz: "sample_size_of SAMPLE_TYPE_EOF = Some 0" by (simp add: sample_size_of_def sample_type_defs)
  obtain rb1 ws where r: "smon_rb_write SAMPLE_TYPE_EOF [] rb = Some rb1"
    and sm: "rb_same rb rb1" "stores rb1 ((xs @ ys) @ ws)"
    and "recs ws = (if rb_fits rb 0 then [Rec SAMPLE_TYPE_EOF []] else [])"
    by (rule stores_write [OF s sz, of "[]"]) auto
  then have ws: "recs ws = eof_rec True" using f by (simp add: rb_def rb_fits_active eof_rec_def)
  define rb' where "rb' = rb1\<lparr>rb_irq := True\<rparr>"
  have rel: "smon_release_rb (se_rb st) = Some rb'"
    using a r by (simp add: smon_release_rb_def smon_rb_write_eof_def rb'_def rb_def)
  have "stores rb' (xs @ ys @ ws)" using sm(2) by (simp add: rb'_def stores_other)
  then have "midway b True (st\<lparr>se_rb := rb'\<rparr>) xs (ys @ ws) ss"
    using m sm(1) ws d
    by (simp add: midway_def rb'_def rb_def rb_same_def at_pos_def rb_cap_def stores_def eof_rec_def)
  then have "on_track b True (st\<lparr>se_rb := rb'\<rparr>) ss" using p by (auto simp: on_track_def)
  then show thesis using that [OF rel] sm(1) by (simp add: rb'_def rb_def rb_same_def)
qed

text \<open>After that the reader alone finishes its round.\<close>

lemma finish_round:
  assumes "midway b e st xs ys ss" and "phase_ok b (sa_phase st) xs ss"
  shows "\<exists>k st' ys' ss'. advances b k st = Some st' \<and> midway b e st' [] ys' ss' \<and> sa_phase st' = Polling \<and>
    se_out st' @ ss' = se_out st @ ss \<and> rb_active (se_rb st') = rb_active (se_rb st)"
  using assms
proof (induction ys arbitrary: st xs ss rule: length_induct)
  case (1 ys)
  show ?case
  proof (cases "sa_phase st")
    case Polling
    then have "xs = []" using 1(3) by simp
    then show ?thesis using 1(2) Polling by (intro exI [of _ 0]) auto
  next
    case (Reading nr n eof hup)
    show ?thesis
    proof (cases "n < unat b")
      case True
      obtain st1 y ys1 ss1 where s: "reader_step b st = Some st1" "ys = y # ys1"
        "midway b e st1 (xs @ [y]) ys1 ss1" "phase_ok b (sa_phase st1) (xs @ [y]) ss1"
        "se_out st1 @ ss1 = se_out st @ ss" "se_rb st1 = se_rb st"
        by (rule read_on_track [OF 1(2,3) Reading True]) blast
      have "length ys1 < length ys" by (simp add: s(2))
      with 1(1) s(3,4) obtain k st' ys' ss' where k: "advances b k st1 = Some st'" "midway b e st' [] ys' ss'"
        "sa_phase st' = Polling" "se_out st' @ ss' = se_out st1 @ ss1" "rb_active (se_rb st') = rb_active (se_rb st1)"
        by metis
      from advances_one [OF s(1) k(1)] k(2-5) s(5,6) show ?thesis by metis
    next
      case False
      obtain st1 where s: "reader_step b st = Some st1" "midway b e st1 [] ys ss" "sa_phase st1 = Polling"
        "se_out st1 = se_out st" "rb_active (se_rb st1) = rb_active (se_rb st)"
        by (rule report_on_track [OF 1(2,3) Reading False])
      have "advances b 1 st = Some st1" using s(1) by simp
      then show ?thesis using s(2-5) by metis
    qed
  next
    case (Ended err)
    with 1(3) show ?thesis by simp
  qed
qed

lemma drained:
  assumes t: "on_track b True st ss" and a: "rb_active (se_rb st) = 0"
  obtains k st' where "advances b k st = Some st'" "sa_phase st' = Ended 0" "se_out st' = se_out st @ ss"
proof -
  from t finish_round obtain k st1 ys ss1 where 1: "advances b k st = Some st1" "midway b True st1 [] ys ss1"
    "sa_phase st1 = Polling" "se_out st1 @ ss1 = se_out st @ ss" "rb_active (se_rb st1) = 0"
    unfolding on_track_def using a by metis
  define s where "s = session.truncate st1"
  have st1: "st1 = with_session s Polling" using 1(3) by (simp add: s_def session.defs)
  have s: "synced b True s ss1" "rb_active (se_rb s) = 0" "se_out s = se_out st1"
    using midway_polling [OF 1(2)] 1(5) by (simp_all add: s_def session.defs)
  from round_hup [OF s(1,2)] obtain s' where r: "sampling_round b s = Some (0, True, s')" "se_out s' = se_out s @ ss1" .
  from round_advances [OF r(1)] obtain l where
    l: "advances b l (with_session s Polling) = Some (with_session s' (Ended 0))" by auto
  from advances_trans [OF 1(1) l [folded st1]] show thesis
    by (rule that) (use r(2) s(3) 1(4) in \<open>simp_all add: session.defs\<close>)
qed

text \<open>The start of a session.\<close>

abbreviation new_sampler :: "i32 \<Rightarrow> u64 \<Rightarrow> smon_ring_buffer \<Rightarrow> sampler" where
  "new_sampler b addr rb \<equiv> with_session (new_session b addr rb) Polling"

lemma new_sampler_on_track:
  assumes "smon_mmap p q ok junk vs ve d = Some (0, Some rb, ps)" and "drop_bit PAGE_SHIFT (ve - vs) < 2 ^ 32"
  shows "on_track b False (new_sampler b addr rb) []" "rb_active (se_rb (new_sampler b addr rb)) = 1"
    "se_out (new_sampler b addr rb) = []"
  using new_session_synced [OF assms, of b addr] synced_on_track [of b False "new_session b addr rb" "[]"]
  by (simp_all only: session.defs sampler.simps session.simps)

end
