(* ===== verification/System.thy ===== *)
theory System
  imports Driver_Safe Interleaving Kernel_Effects
begin

text \<open>
  The two programs together: the driver with all its hooks, timers and system calls at one end of a
  mapped buffer, the tool's reader at the other, interleaved at the grain of one event of the driver
  and one iteration of the reader's loop.
\<close>

section \<open>What a buffer holds\<close>

text \<open>The samples from the tail on, read off the memory as the reader would.\<close>

definition buffered :: "smon_ring_buffer \<Rightarrow> smon_sample list" where
  "buffered rb = (case read_loop (mapped 0 rb) (rb_items rb) 0 False
       \<lparr>ur_addr = 0, ur_tail = ucast (rb_tail rb), ur_size = rb_size rb, ur_n_pages = rb_n_pages rb, ur_consumed = 0\<rparr> []
     of None \<Rightarrow> [] | Some (ok, n, u, out) \<Rightarrow> out)"

lemma buffered_samples:
  assumes h: "rb_holds rb zs" and n: "unat (rb_items rb) = length (recs zs)" and d: "list_all2 decodes (recs zs) ss"
  shows "buffered rb = ss"
proof -
  define u where "u = \<lparr>ur_addr = 0, ur_tail = ucast (rb_tail rb), ur_size = rb_size rb,
      ur_n_pages = rb_n_pages rb, ur_consumed = 0\<rparr>"
  define p where "p = unat (rb_tail rb)"
  have g: "rb_geom rb" using h by (simp add: rb_holds_def)
  obtain xs ys where s: "zs = xs @ ys" "closed_run xs" "recs xs = recs zs"
    using closed_run_split [of "length (recs zs)" zs] by auto
  have l: "laid (flat rb) (rb_cap rb) p xs" using h s(1) by (simp add: rb_holds_def p_def)
  have "p < rb_cap rb" using g by (simp add: rb_geom_def p_def rb_cap_def)
  moreover have "(of_nat p :: u64) = ucast (rb_tail rb)" unfolding p_def by transfer simp
  ultimately have u: "at_pos rb p u" by (simp add: at_pos_def u_def)
  have "unat (rb_items rb) < 2 ^ 31" using n holds_length(2) [OF h] by simp
  then have "sint (rb_items rb) = int (unat (rb_items rb))" by (rule sint_small)
  then have i: "sint (rb_items rb) = int (length (recs xs))" by (simp only: n s(3))
  have d': "list_all2 decodes (recs xs) ss" using d by (simp only: s(3))
  have "read_loop (mapped (ur_addr u) rb) (rb_items rb) 0 False u [] =
      read_loop (mapped (ur_addr u) rb) (rb_items rb) (0 + length (recs xs)) False (ur_advance rb p (span p xs) u) ([] @ ss)"
    by (rule read_loop_skip [OF g l u]) (simp_all add: d' s(2) i)
  also have "\<dots> = Some (True, length (recs xs), ur_advance rb p (span p xs) u, ss)"
    by (rule trans [OF read_loop.simps]) (simp only: append_Nil add_0 i less_irrefl simp_thms if_False)
  also have "ur_addr u = 0" by (simp add: u_def)
  finally show ?thesis unfolding buffered_def u_def [symmetric] by simp
qed

text \<open>What the reader has not passed yet.\<close>

fun passed :: "phase \<Rightarrow> nat" where
  "passed (Reading nr n eof hup) = n"
| "passed _ = 0"

definition unread :: "sampler \<Rightarrow> smon_sample list" where
  "unread st = drop (passed (sa_phase st)) (buffered (se_rb st))"

lemma decodes_all:
  assumes "list_all (\<lambda>r. \<exists>s. decodes r s) rs"
  obtains ss where "list_all2 decodes rs ss"
proof -
  have "list_all2 decodes rs (map (\<lambda>r. SOME s. decodes r s) rs)"
    using assms by (auto simp: list_all2_conv_all_nth list_all_length intro: someI_ex)
  then show thesis by (rule that)
qed

lemma on_track_unread:
  assumes "on_track b False st ss"
  shows "unread st = ss"
proof -
  from assms obtain xs ys where m: "midway b False st xs ys ss" and p: "phase_ok b (sa_phase st) xs ss"
    by (auto simp: on_track_def)
  from m obtain ps where ps: "list_all2 decodes (recs xs) ps" by (auto simp: midway_def elim: decodes_all)
  have "list_all2 decodes (recs (xs @ ys)) (ps @ ss)"
    using m ps by (auto simp: midway_def eof_rec_def list_all2_appendI)
  then have "buffered (se_rb st) = ps @ ss" using m by (intro buffered_samples) (auto simp: midway_def)
  moreover have "passed (sa_phase st) = length ps"
    using p list_all2_lengthD [OF ps] by (cases "sa_phase st") auto
  ultimately show ?thesis by (simp add: unread_def)
qed

section \<open>The driver only adds samples\<close>

text \<open>What becomes of a buffer that keeps a writer.\<close>

definition extends :: "smon_ring_buffer \<Rightarrow> smon_ring_buffer \<Rightarrow> bool" where
  "extends rb rb' \<longleftrightarrow> (\<forall>zs. stores rb zs \<longrightarrow>
     rb_tail rb' = rb_tail rb \<and> rb_size rb' = rb_size rb \<and> rb_n_pages rb' = rb_n_pages rb \<and>
     (\<exists>ws. stores rb' (zs @ ws) \<and> list_all (\<lambda>r. \<exists>s. decodes r s) (recs ws)))"

lemma extends_trans: "extends rb rb1 \<Longrightarrow> extends rb1 rb2 \<Longrightarrow> extends rb rb2"
  unfolding extends_def
proof (intro allI impI)
  fix zs
  assume e: "\<forall>zs. stores rb zs \<longrightarrow>
     rb_tail rb1 = rb_tail rb \<and> rb_size rb1 = rb_size rb \<and> rb_n_pages rb1 = rb_n_pages rb \<and>
     (\<exists>ws. stores rb1 (zs @ ws) \<and> list_all (\<lambda>r. \<exists>s. decodes r s) (recs ws))"
    "\<forall>zs. stores rb1 zs \<longrightarrow>
     rb_tail rb2 = rb_tail rb1 \<and> rb_size rb2 = rb_size rb1 \<and> rb_n_pages rb2 = rb_n_pages rb1 \<and>
     (\<exists>ws. stores rb2 (zs @ ws) \<and> list_all (\<lambda>r. \<exists>s. decodes r s) (recs ws))" and "stores rb zs"
  then obtain ws where 1: "stores rb1 (zs @ ws)" "list_all (\<lambda>r. \<exists>s. decodes r s) (recs ws)"
    "rb_tail rb1 = rb_tail rb" "rb_size rb1 = rb_size rb" "rb_n_pages rb1 = rb_n_pages rb" by blast
  with e(2) obtain vs where 2: "stores rb2 ((zs @ ws) @ vs)" "list_all (\<lambda>r. \<exists>s. decodes r s) (recs vs)"
    "rb_tail rb2 = rb_tail rb1" "rb_size rb2 = rb_size rb1" "rb_n_pages rb2 = rb_n_pages rb1" by blast
  with 1 show "rb_tail rb2 = rb_tail rb \<and> rb_size rb2 = rb_size rb \<and> rb_n_pages rb2 = rb_n_pages rb \<and>
     (\<exists>ws. stores rb2 (zs @ ws) \<and> list_all (\<lambda>r. \<exists>s. decodes r s) (recs ws))"
    by (intro conjI exI [of _ "ws @ vs"]) simp_all
qed

lemma extends_refl: "extends rb rb"
  by (auto simp: extends_def intro: exI [of _ "[]"])

lemma extends_other: "extends rb (rb\<lparr>rb_active := a\<rparr>)" "extends rb (rb\<lparr>rb_batch := n\<rparr>)"
  "extends rb (rb\<lparr>rb_irq := q\<rparr>)"
  using extends_refl [of rb] by (simp_all add: extends_def stores_other)

lemma extends_write:
  assumes w: "sample_wf s" and r: "smon_rb_write (sample_type s) (sample_image pad s) rb = Some rb'"
  shows "extends rb rb'"
  unfolding extends_def
proof (intro allI impI)
  fix zs assume z: "stores rb zs"
  obtain ws where "rb_same rb rb'" "stores rb' (zs @ ws)"
    "recs ws = (if rb_fits rb (length (sample_image pad s)) then [Rec (sample_type s) (sample_image pad s)] else [])"
    by (rule stores_write [OF z sample_size_image [OF w] order_refl, of pad]) (use r in auto)
  moreover have "Ex (decodes (Rec (sample_type s) (sample_image pad s)))"
    using decode_sample_image [OF w] by (intro exI [of _ s]) simp
  ultimately show "rb_tail rb' = rb_tail rb \<and> rb_size rb' = rb_size rb \<and> rb_n_pages rb' = rb_n_pages rb \<and>
      (\<exists>ws. stores rb' (zs @ ws) \<and> list_all (\<lambda>r. \<exists>s. decodes r s) (recs ws))"
    by (auto simp: rb_same_def intro!: exI [of _ ws] simp del: decodes.simps)
qed

text \<open>Of the writers counted out none is the last one, since one is left in the end.\<close>

lemma grow_step_extends:
  assumes "grow_step up rb rb'" and "up \<or> rb_active rb' \<noteq> 0"
  shows "extends rb rb' \<and> (up \<or> rb_active rb \<noteq> 0)"
  using assms(1)
proof (cases rule: grow_step.cases)
  case (grow_write s pad)
  with assms(2) show ?thesis using extends_write rb_write_active by metis
next
  case grow_get
  then show ?thesis by (simp add: smon_get_rb_def extends_other)
next
  case grow_release
  then show ?thesis using assms(2)
    by (auto simp: smon_release_rb_def Let_def extends_other smon_rb_write_eof_def bind_eq_Some_conv
        dest!: rb_write_active split: if_splits)
next
  case (grow_batch n)
  then show ?thesis by (simp add: extends_other)
next
  case grow_wake
  then show ?thesis using assms(2) by (auto simp: smon_wake_up_reader_def extends_other)
qed

lemma grows_extends:
  assumes "grows up rb rb'" and "up \<or> rb_active rb' \<noteq> 0"
  shows "extends rb rb'"
  using assms
proof (induction rule: rtranclp_induct)
  case base
  show ?case by (rule extends_refl)
next
  case (step rb1 rb2)
  from grow_step_extends [OF step.hyps(2) step.prems] have "extends rb1 rb2" "up \<or> rb_active rb1 \<noteq> 0" by auto
  with step.IH show ?case by (blast intro: extends_trans)
qed

lemma extends_on_track:
  assumes t: "on_track b False st ss" and e: "extends (se_rb st) rb'" and b: "b \<noteq> 0 \<longrightarrow> rb_batch rb' = b"
  obtains ss' where "on_track b False (st\<lparr>se_rb := rb'\<rparr>) (ss @ ss')"
proof -
  from t obtain xs ys where m: "midway b False st xs ys ss" and p: "phase_ok b (sa_phase st) xs ss"
    by (auto simp: on_track_def)
  then have "stores (se_rb st) (xs @ ys)" by (simp add: midway_def stores_def)
  with e obtain ws where w: "stores rb' ((xs @ ys) @ ws)" "list_all (\<lambda>r. \<exists>s. decodes r s) (recs ws)"
    "rb_tail rb' = rb_tail (se_rb st)" "rb_size rb' = rb_size (se_rb st)" "rb_n_pages rb' = rb_n_pages (se_rb st)"
    unfolding extends_def by blast
  from w(2) obtain ss' where s: "list_all2 decodes (recs ws) ss'" by (rule decodes_all)
  have "midway b False (st\<lparr>se_rb := rb'\<rparr>) xs (ys @ ws) (ss @ ss')"
    using m w(1,3-5) s b by (simp add: midway_def stores_def at_pos_def rb_cap_def eof_rec_def list_all2_appendI)
  moreover have "phase_ok b (sa_phase st) xs (ss @ ss')" using p by (cases "sa_phase st") simp_all
  ultimately show thesis by (intro that [of ss']) (auto simp: on_track_def)
qed

section \<open>The driver and the reader\<close>

text \<open>
  The reader works on the buffer at the address \<open>r\<close> of the driver's heap, through its mapping; the
  report that ends its round changes the buffer there. \<open>b\<close> is the batch size of the environment.
\<close>

record system =
  sy_drv :: drv
  sy_ur :: smon_rb
  sy_out :: "smon_sample list"
  sy_phase :: phase

datatype system_op = Driver drv_event | Reader | PollFails

abbreviation buffer_at :: "addr \<Rightarrow> system \<Rightarrow> smon_ring_buffer option" where
  "buffer_at r s \<equiv> ks_rbs (drv_k (sy_drv s)) r"

definition reader_of :: "system \<Rightarrow> smon_ring_buffer \<Rightarrow> sampler" where
  "reader_of s rb = \<lparr>se_rb = rb, se_ur = sy_ur s, se_out = sy_out s, sa_phase = sy_phase s\<rparr>"

fun system_exec :: "i32 \<Rightarrow> addr \<Rightarrow> system_op \<Rightarrow> system \<Rightarrow> system option" where
  "system_exec b r (Driver ev) s = map_option (\<lambda>d. s\<lparr>sy_drv := d\<rparr>) (drv_exec ev (sy_drv s))"
| "system_exec b r Reader s = do {
     rb \<leftarrow> buffer_at r s;
     st \<leftarrow> reader_step b (reader_of s rb);
     Some \<lparr>sy_drv = (sy_drv s)\<lparr>drv_k := put_rb r (se_rb st) (drv_k (sy_drv s))\<rparr>,
           sy_ur = se_ur st, sy_out = se_out st, sy_phase = sa_phase st\<rparr>
   }"
| "system_exec b r PollFails s = Some (s\<lparr>sy_phase := poll_fails (sy_phase s)\<rparr>)"

text \<open>
  The conditions on a run: what \<open>drv_allowed\<close> asks of the rest of the system, the buffer stays mapped,
  no other file reports on it, and a writer is left that asked for the same batch size. A run in which
  \<^verbatim>\<open>poll\<close> fails is none of these: the reader leaves its loop then, and nobody empties the buffer.
\<close>

definition written :: "i32 \<Rightarrow> addr \<Rightarrow> system \<Rightarrow> bool" where
  "written b r s \<longleftrightarrow> (case buffer_at r s of None \<Rightarrow> False | Some rb \<Rightarrow> smon_rb_is_active rb \<and> (b \<noteq> 0 \<longrightarrow> rb_batch rb = b))"

fun attended :: "i32 \<Rightarrow> addr \<Rightarrow> system_op list \<Rightarrow> system \<Rightarrow> bool" where
  "attended b r [] s \<longleftrightarrow> True"
| "attended b r (x # xs) s \<longleftrightarrow>
     (case x of Reader \<Rightarrow> True
      | PollFails \<Rightarrow> False
      | Driver ev \<Rightarrow> drv_allowed ev (sy_drv s) \<and> \<not> removes ev r \<and> \<not> reports ev (sy_drv s) r) \<and>
     (case system_exec b r x s of None \<Rightarrow> True | Some s' \<Rightarrow> written b r s' \<and> attended b r xs s')"

text \<open>What is in the buffer and not yet passed, and what the events of a run put there.\<close>

definition unread_at :: "addr \<Rightarrow> system \<Rightarrow> smon_sample list" where
  "unread_at r s = (case buffer_at r s of None \<Rightarrow> [] | Some rb \<Rightarrow> unread (reader_of s rb))"

fun stored :: "i32 \<Rightarrow> addr \<Rightarrow> system_op list \<Rightarrow> system \<Rightarrow> smon_sample list" where
  "stored b r [] s = []"
| "stored b r (x # xs) s = (case system_exec b r x s of None \<Rightarrow> []
     | Some s' \<Rightarrow> (case x of Driver ev \<Rightarrow> drop (length (unread_at r s)) (unread_at r s') | _ \<Rightarrow> []) @
         stored b r xs s')"

definition coupled :: "i32 \<Rightarrow> addr \<Rightarrow> system \<Rightarrow> smon_sample list \<Rightarrow> bool" where
  "coupled b r s ss \<longleftrightarrow> kinv (drv_k (sy_drv s)) \<and>
     (\<exists>rb. buffer_at r s = Some rb \<and> smon_rb_is_active rb \<and> on_track b False (reader_of s rb) ss)"

lemma coupled_unread: "coupled b r s ss \<Longrightarrow> unread_at r s = ss"
  by (auto simp: coupled_def unread_at_def on_track_unread)

lemma driver_coupled:
  assumes c: "coupled b r s ss" and ev: "drv_allowed ev (sy_drv s)" "\<not> removes ev r" "\<not> reports ev (sy_drv s) r"
    and w: "\<And>s'. system_exec b r (Driver ev) s = Some s' \<Longrightarrow> written b r s'"
  obtains s' ss' where "system_exec b r (Driver ev) s = Some s'" "coupled b r s' (ss @ ss')" "sy_out s' = sy_out s"
proof -
  from c obtain rb where i: "kinv (drv_k (sy_drv s))" and rb: "buffer_at r s = Some rb"
    and t: "on_track b False (reader_of s rb) ss" by (auto simp: coupled_def)
  from drv_exec_safe [OF i ev(1)] obtain d where d: "drv_exec ev (sy_drv s) = Some d" "kinv (drv_k d)"
    "others_grow ev (sy_drv s) d" by (auto simp: drv_safe_def)
  then obtain rb' where rb': "ks_rbs (drv_k d) r = Some rb'" "grows (counts_up ev) rb rb'"
    using rb ev(2,3) by (auto simp: others_grow_def)
  define s' where "s' = s\<lparr>sy_drv := d\<rparr>"
  have s': "system_exec b r (Driver ev) s = Some s'" using d(1) by (simp add: s'_def)
  have a: "smon_rb_is_active rb'" "b \<noteq> 0 \<longrightarrow> rb_batch rb' = b"
    using w [OF s'] rb'(1) by (simp_all add: written_def s'_def)
  then have "extends rb rb'" by (intro grows_extends [OF rb'(2)]) (auto simp: smon_rb_is_active_def)
  then have "extends (se_rb (reader_of s rb)) rb'" by (simp add: reader_of_def)
  from extends_on_track [OF t this a(2)] obtain ss' where "on_track b False (reader_of s rb\<lparr>se_rb := rb'\<rparr>) (ss @ ss')" .
  moreover have "reader_of s rb\<lparr>se_rb := rb'\<rparr> = reader_of s' rb'" by (simp add: reader_of_def s'_def)
  ultimately have "coupled b r s' (ss @ ss')" using d(2) rb'(1) a(1) by (simp add: coupled_def s'_def)
  then show thesis using that [OF s'] by (simp add: s'_def)
qed

lemma reader_step_rb:
  assumes "reader_step b st = Some st'"
  shows "se_rb st' = se_rb st \<or> (\<exists>n w. se_rb st' = smon_rb_read n w (se_rb st))"
proof (cases "sa_phase st")
  case (Reading nr n eof hup)
  show ?thesis
  proof (cases "int n < sint nr \<and> \<not> eof")
    case True
    with assms Reading obtain r u where "read_one (mapped (ur_addr (se_ur st)) (se_rb st)) (se_ur st) = Some (r, u)"
      by (auto simp: reader_step_def split: bind_splits)
    then show ?thesis using assms Reading True by (cases r) (auto simp: reader_step_def Let_def)
  next
    case False
    from reader_report [OF Reading False, of b] assms show ?thesis by auto
  qed
qed (use assms in \<open>auto simp: reader_step_def Let_def split: if_splits\<close>)

lemma reader_coupled:
  assumes c: "coupled b r s ss"
  obtains s' ss' where "system_exec b r Reader s = Some s'" "coupled b r s' ss'" "sy_out s' @ ss' = sy_out s @ ss"
proof -
  from c obtain rb where i: "kinv (drv_k (sy_drv s))" and rb: "buffer_at r s = Some rb" "smon_rb_is_active rb"
    and t: "on_track b False (reader_of s rb) ss" by (auto simp: coupled_def)
  have a: "smon_rb_is_active (se_rb (reader_of s rb))" using rb(2) by (simp add: reader_of_def)
  obtain st ss' where st: "sampler_exec b Advance (reader_of s rb) = Some st" "on_track b False st ss'"
    "rb_active (se_rb st) = rb_active (se_rb (reader_of s rb))"
    "se_out st @ ss' = se_out (reader_of s rb) @ ss @ taken Advance (reader_of s rb)"
    by (rule step_on_track [OF t a, of Advance]) simp_all
  define s' where "s' = \<lparr>sy_drv = (sy_drv s)\<lparr>drv_k := put_rb r (se_rb st) (drv_k (sy_drv s))\<rparr>,
      sy_ur = se_ur st, sy_out = se_out st, sy_phase = sa_phase st\<rparr>"
  have s': "system_exec b r Reader s = Some s'" using st(1) rb(1) by (simp add: s'_def)
  have "kinv (put_rb r (se_rb st) (drv_k (sy_drv s)))"
    using reader_step_rb [of b "reader_of s rb" st] st(1) ioctl_read_safe [OF i rb(1)] i rb(1)
    by (auto simp: reader_of_def put_rb_def fun_upd_idem)
  moreover have "reader_of s' (se_rb st) = st" by (simp add: reader_of_def s'_def)
  moreover have "smon_rb_is_active (se_rb st)" using st(3) a by (simp add: smon_rb_is_active_def)
  ultimately have "coupled b r s' ss'" using st(2) by (simp add: coupled_def s'_def put_rb_def)
  then show thesis using that [OF s'] st(4) by (simp add: s'_def reader_of_def)
qed

lemma system_runs:
  assumes "coupled b r s ss" and "attended b r xs s"
  shows "\<exists>s'. fold_opt (system_exec b r) xs s = Some s' \<and> coupled b r s' (unread_at r s') \<and>
    sy_out s' @ unread_at r s' = sy_out s @ ss @ stored b r xs s"
  using assms
proof (induction xs arbitrary: s ss)
  case Nil
  then show ?case using coupled_unread [OF Nil.prems(1)] by simp
next
  case (Cons x xs)
  have "\<exists>s1 ss1 new. system_exec b r x s = Some s1 \<and> coupled b r s1 ss1 \<and> sy_out s1 @ ss1 = sy_out s @ ss @ new \<and>
      new = (case x of Driver ev \<Rightarrow> drop (length (unread_at r s)) (unread_at r s1) | _ \<Rightarrow> [])"
  proof (cases x)
    case PollFails
    then show ?thesis using Cons.prems(2) by simp
  next
    case Reader
    from reader_coupled [OF Cons.prems(1)] obtain s1 ss1 where
      "system_exec b r Reader s = Some s1" "coupled b r s1 ss1" "sy_out s1 @ ss1 = sy_out s @ ss" .
    then show ?thesis by (intro exI [of _ s1] exI [of _ ss1] exI [of _ "[]"]) (simp add: Reader)
  next
    case (Driver ev)
    have ev: "drv_allowed ev (sy_drv s)" "\<not> removes ev r" "\<not> reports ev (sy_drv s) r"
      using Cons.prems(2) Driver by simp_all
    have w: "written b r s'" if "system_exec b r (Driver ev) s = Some s'" for s'
      using Cons.prems(2) unfolding attended.simps Driver that option.case by blast
    from driver_coupled [OF Cons.prems(1) ev w] obtain s1 ss1 where
      1: "system_exec b r (Driver ev) s = Some s1" "coupled b r s1 (ss @ ss1)" "sy_out s1 = sy_out s" by blast
    then show ?thesis using coupled_unread [OF Cons.prems(1)] coupled_unread [OF 1(2)] Driver by auto
  qed
  then obtain s1 ss1 where 1: "system_exec b r x s = Some s1" "coupled b r s1 ss1"
    "sy_out s1 @ ss1 = sy_out s @ ss @ (case x of Driver ev \<Rightarrow> drop (length (unread_at r s)) (unread_at r s1) | _ \<Rightarrow> [])"
    by blast
  have "attended b r xs s1" using Cons.prems(2) 1(1) by simp
  from Cons.IH [OF 1(2) this] obtain s' where "fold_opt (system_exec b r) xs s1 = Some s'"
    "coupled b r s' (unread_at r s')" "sy_out s' @ unread_at r s' = sy_out s1 @ ss1 @ stored b r xs s1" by blast
  moreover from this(3) have "sy_out s' @ unread_at r s' = (sy_out s1 @ ss1) @ stored b r xs s1" by simp
  ultimately show ?case using 1(1) unfolding 1(3) by simp
qed

lemma coupled_start:
  assumes "kinv (drv_k (sy_drv s))" and rb: "buffer_at r s = Some rb" "written b r s" and inv: "rb_inv rb rs" "list_all2 decodes rs ss"
    and u: "at_pos rb (unat (rb_tail rb)) (sy_ur s)" "ur_consumed (sy_ur s) = 0" and p: "sy_phase s = Polling"
  shows "coupled b r s ss"
proof -
  define q where "q = \<lparr>se_rb = rb, se_ur = sy_ur s, se_out = sy_out s\<rparr>"
  have w: "smon_rb_is_active rb" "b \<noteq> 0 \<longrightarrow> rb_batch rb = b" using rb by (simp_all add: written_def)
  have "synced b False q ss" using inv u w(2) by (auto simp: synced_def q_def eof_rec_def)
  from synced_on_track [OF this] have "on_track b False (reader_of s rb) ss"
    by (simp add: q_def reader_of_def session.defs p)
  then show ?thesis using assms(1) rb(1) w(1) by (simp add: coupled_def)
qed

lemma coupled_not_ended: "coupled b r s ss \<Longrightarrow> sy_phase s \<noteq> Ended err"
  by (auto simp: coupled_def on_track_def reader_of_def)

text \<open>Switches, at least, never take the last writer away.\<close>

fun is_switching :: "system_op \<Rightarrow> bool" where
  "is_switching (Driver (Switch prev next rem)) \<longleftrightarrow> True"
| "is_switching Reader \<longleftrightarrow> True"
| "is_switching _ \<longleftrightarrow> False"

lemma coupled_written: "coupled b r s ss \<Longrightarrow> written b r s"
  by (auto simp: coupled_def written_def on_track_def midway_def reader_of_def)

lemma switch_written:
  assumes c: "coupled b r s ss" and x: "system_exec b r (Driver (Switch prev next rem)) s = Some s'"
  shows "written b r s'"
proof -
  from c obtain rb where i: "kinv (drv_k (sy_drv s))" and rb: "buffer_at r s = Some rb" by (auto simp: coupled_def)
  from switch_keeps [OF i, of prev "next" rem] x have "sim (drv_k (sy_drv s)) (drv_k (sy_drv s'))"
    by (auto simp: on_kernel_def elim!: keepsE)
  from simD(2) [OF this, of r] rb obtain rb' where "buffer_at r s' = Some rb'" "rb_sim rb rb'"
    by (auto simp: option_rel_Some1)
  then show ?thesis using coupled_written [OF c] rb by (simp add: written_def smon_rb_is_active_def rb_sim_def)
qed

lemma switching_attended:
  assumes "coupled b r s ss" and "list_all is_switching xs"
  shows "attended b r xs s"
  using assms
proof (induction xs arbitrary: s ss)
  case (Cons x xs)
  have "list_all is_switching xs" "is_switching x" using Cons.prems(2) by simp_all
  note IH = Cons.IH [OF _ this(1)]
  from \<open>is_switching x\<close> consider prev "next" rem where "x = Driver (Switch prev next rem)" | "x = Reader"
    by (rule is_switching.elims(2)) auto
  then show ?case
  proof cases
    case (1 prev "next" rem)
    note w = switch_written [OF Cons.prems(1), of prev "next" rem]
    obtain s' ss' where
      s': "system_exec b r (Driver (Switch prev next rem)) s = Some s'" "coupled b r s' (ss @ ss')"
      by (rule driver_coupled [OF Cons.prems(1), of "Switch prev next rem"]) (simp_all add: w del: system_exec.simps)
    show ?thesis unfolding attended.simps 1 s'(1) option.case using w [OF s'(1)] IH [OF s'(2)] by simp
  next
    case 2
    from reader_coupled [OF Cons.prems(1)] obtain s' ss' where
      s': "system_exec b r Reader s = Some s'" "coupled b r s' ss'" by metis
    show ?thesis unfolding attended.simps 2 s'(1) option.case using coupled_written [OF s'(2)] IH [OF s'(2)] by simp
  qed
qed simp

section \<open>The last task exits\<close>

lemma reader_runs:
  assumes "buffer_at r s = Some rb" and "advances b k (reader_of s rb) = Some st"
  shows "\<exists>s'. fold_opt (system_exec b r) (replicate k Reader) s = Some s' \<and> sy_out s' = se_out st \<and>
    sy_phase s' = sa_phase st"
  using assms
proof (induction k arbitrary: s rb)
  case 0
  then show ?case by (auto simp: reader_of_def)
next
  case (Suc k)
  from Suc.prems(2) obtain st1 where 1: "reader_step b (reader_of s rb) = Some st1" "advances b k st1 = Some st"
    by (auto simp: bind_eq_Some_conv)
  define s1 where "s1 = \<lparr>sy_drv = (sy_drv s)\<lparr>drv_k := put_rb r (se_rb st1) (drv_k (sy_drv s))\<rparr>,
      sy_ur = se_ur st1, sy_out = se_out st1, sy_phase = sa_phase st1\<rparr>"
  have s1: "system_exec b r Reader s = Some s1" using Suc.prems(1) 1(1) by (simp add: s1_def)
  have "buffer_at r s1 = Some (se_rb st1)" "reader_of s1 (se_rb st1) = st1"
    by (simp_all add: s1_def put_rb_def reader_of_def)
  from Suc.IH [OF this(1)] this(2) 1(2) obtain s' where
    "fold_opt (system_exec b r) (replicate k Reader) s1 = Some s'" "sy_out s' = se_out st" "sy_phase s' = sa_phase st"
    by auto
  with s1 show ?case by simp
qed

text \<open>
  The exit of the last writer's process, possibly in the middle of a round of the reader: it adds at most the
  last sample of the task, then the end of file, and the reader prints all that is left and ends.
\<close>

definition room_for_end :: "smon_ring_buffer \<Rightarrow> bool" where
  "room_for_end rb \<longleftrightarrow> (\<forall>img rb2. length img = sizeof_pmc \<longrightarrow> smon_rb_write SAMPLE_TYPE_PMC img rb = Some rb2 \<longrightarrow> rb_fits rb2 0)"

lemma last_exit:
  assumes c: "coupled b r s ss" and rb: "buffer_at r s = Some rb" "rb_active rb = 1" "room_for_end rb"
    and f: "find_entry (\<lambda>t. t_p t = Some p) k (ks_cpu_list k (ks_task_cpu k p)) = Some (Some a)"
    and t: "ks_tasks k a = Some t" "t_rb t = Some r" and k: "k = drv_k (sy_drv s)"
  shows "\<exists>s1 n s2 last. system_exec b r (Driver (Exit p)) s = Some s1 \<and>
    fold_opt (system_exec b r) (replicate n Reader) s1 = Some s2 \<and> sy_phase s2 = Ended 0 \<and>
    sy_out s2 = sy_out s @ ss @ last \<and>
    (\<exists>pm. counters_now t k = Some pm \<and>
      last = (if rb_fits rb sizeof_pmc then [PmcSample (finished_sample t (read_clock k) pm)] else []))"
proof -
  from c rb have i: "kinv k" and tr: "on_track b False (reader_of s rb) ss" by (simp_all add: coupled_def k)
  obtain k' t' rb' where e: "smon_sched_process_exit p k = Some k'" "ks_rbs k' r = Some rb'"
    and "\<exists>pm rb2. pmc_wf pm \<and> counters_now t k = Some pm \<and> smon_rb_write SAMPLE_TYPE_PMC (pmc_image (finished_sample t (read_clock k) pm)) rb = Some rb2 \<and>
       smon_release_rb rb2 = Some rb'"
    by (rule exit_effect [OF i f t]) (use rb(1) k in auto)
  then obtain pm rb2 where pm: "pmc_wf pm" "counters_now t k = Some pm"
    and w: "smon_rb_write SAMPLE_TYPE_PMC (pmc_image (finished_sample t (read_clock k) pm)) rb = Some rb2"
    and rel: "smon_release_rb rb2 = Some rb'" by blast
  define x where "x = PmcSample (finished_sample t (read_clock k) pm)"
  have wf: "sample_wf x" using pm(1) by (simp add: x_def finished_sample_def)
  obtain st2 where st2: "sampler_exec b (Write 0 x) (reader_of s rb) = Some st2"
    "on_track b False st2 (ss @ taken (Write 0 x) (reader_of s rb))" "se_out st2 = se_out (reader_of s rb)"
    "rb_active (se_rb st2) = rb_active (se_rb (reader_of s rb))"
    by (rule write_on_track [OF tr wf, of 0])
  have eq: "st2 = (reader_of s rb)\<lparr>se_rb := rb2\<rparr>"
    using st2(1) w by (simp add: x_def reader_of_def)
  have len: "length (pmc_image (finished_sample t (read_clock k) pm)) = sizeof_pmc"
    using sample_size_image [OF wf, of 0] by (simp add: x_def sample_size_of_def sample_type_defs)
  then have fits: "rb_fits (se_rb st2) 0" using rb(3) w by (auto simp: room_for_end_def eq)
  have "rb_active (se_rb st2) = 1" using st2(4) rb(2) by (simp add: reader_of_def)
  from release_on_track [OF st2(2) this fits] rel obtain
    "rb_active rb' = 0" "on_track b True (st2\<lparr>se_rb := rb'\<rparr>) (ss @ taken (Write 0 x) (reader_of s rb))"
    by (auto simp: eq)
  moreover from this(1) have "rb_active (se_rb (st2\<lparr>se_rb := rb'\<rparr>)) = 0" by simp
  ultimately obtain n st where n: "advances b n (st2\<lparr>se_rb := rb'\<rparr>) = Some st" "sa_phase st = Ended 0"
    "se_out st = se_out (st2\<lparr>se_rb := rb'\<rparr>) @ ss @ taken (Write 0 x) (reader_of s rb)"
    using drained by blast
  define s1 where "s1 = s\<lparr>sy_drv := (sy_drv s)\<lparr>drv_k := k'\<rparr>\<rparr>"
  have s1: "system_exec b r (Driver (Exit p)) s = Some s1" using e(1) by (simp add: s1_def on_kernel_def k)
  have "buffer_at r s1 = Some rb'" "reader_of s1 rb' = st2\<lparr>se_rb := rb'\<rparr>"
    using e(2) by (simp_all add: s1_def reader_of_def eq)
  from reader_runs [OF this(1), of b n st] n(1) this(2) obtain s2 where
    "fold_opt (system_exec b r) (replicate n Reader) s1 = Some s2" "sy_out s2 = se_out st" "sy_phase s2 = sa_phase st"
    by auto
  moreover have "taken (Write 0 x) (reader_of s rb) =
      (if rb_fits rb sizeof_pmc then [PmcSample (finished_sample t (read_clock k) pm)] else [])"
    using len by (simp add: x_def reader_of_def)
  ultimately show ?thesis using s1 n(2,3) pm(2)
    by (intro exI [of _ s1] exI [of _ n] exI [of _ s2] exI [of _ "taken (Write 0 x) (reader_of s rb)"])
      (auto simp: eq reader_of_def)
qed

end
