(* ===== verification/Spec2Isabelle.thy ===== *)
theory Spec2Isabelle
  imports Prop_Tables Prop_Buffer Prop_Kernel Prop_Locks Prop_Tool System
begin

text \<open>
  SchedMon (\<^verbatim>\<open>src/driver\<close>, \<^verbatim>\<open>src/tool/src\<close>) monitors processes on Linux. A kernel module hooks the
  scheduler, programs the performance counters whenever a monitored task gets a processor, and writes a
  sample at every timer tick, every scheduling period, migration and fork into a ring buffer of pages.
  A command line tool maps these pages, configures events, event-sets and environments through the
  ioctls of \<^verbatim>\<open>/dev/smon\<close>, starts the monitored program, and reads the samples until the last
  writer has gone. This development models the C code of both programs and proves them correct together.

  \<^bold>\<open>Conventions.\<close> A function of the code is a definition of the same name. A computation that may fault
  (NULL or a freed structure is followed, an array or a page is left, a string does not fit) or may not
  end has a result of type \<open>'a option\<close>, and \<open>None\<close> is the fault; an error code is an ordinary
  value. Machine integers are words of their width, with the wrap-around of the code. Structs are records,
  unions datatypes; the structures of the driver live in a heap of addresses (\<open>kstate\<close>). Answers of the
  kernel and of the C library that the code cannot know (allocations, the registers read, the order of
  interrupts) are arguments, so every statement holds for all of them.

  \<^bold>\<open>The driver.\<close>
  \<^item> \<open>Event\<close>, \<open>Evset\<close> (\<^verbatim>\<open>event.c\<close>, \<^verbatim>\<open>evset.c\<close>): the two tables. Both provide the contract
    of the locale \<open>id_table\<close> (theory \<open>Id_Table\<close>): ids are given in order and stay good.
    \<open>Envir\<close> (\<^verbatim>\<open>envir.c\<close>): environments, options, reference count, the turn of the event-sets.
  \<^item> \<open>Msr\<close>, \<open>Pmc\<close>, \<open>Rapl\<close> (\<^verbatim>\<open>msr.c\<close>, \<^verbatim>\<open>pmc.c\<close>, \<^verbatim>\<open>rapl.c\<close>): the registers of the processors and what
    is programmed into and read from them.
  \<^item> \<open>Sample_Data\<close>: the structs of the samples in \<^verbatim>\<open>smon.h\<close> and their bytes.
    \<open>Ring_Buffer\<close> (\<^verbatim>\<open>rb.c\<close>): the operations on the pages. \<open>Ring_Layout\<close>, \<open>Ring_Fifo\<close>: the bytes are
    a queue of records, and a write is an enqueue or a drop; the contract of the writers is the locale
    \<open>sample_fifo\<close>. \<open>Ring_Safe\<close>: no access leaves a page, whatever a reader reports.
    \<open>Buffer_Growth\<close>: what the driver may do to a buffer between two reports.
  \<^item> \<open>Kernel_State\<close>, \<open>Sample\<close>, \<open>Task\<close>, \<open>Sched\<close> (\<^verbatim>\<open>sample.c\<close>, \<^verbatim>\<open>task.c\<close>, \<^verbatim>\<open>sched.c\<close>): the heap, the
    lists of tasks, the five hooks on the scheduler, the two timers, the interrupt work, registration.
  \<^item> \<open>Device_Mmap\<close>, \<open>Device\<close> (\<^verbatim>\<open>main.c\<close>): mapping, polling, the ioctls, opening, loading and unloading.
  \<^item> \<open>Driver_Run\<close>: the driver as a transition system; \<open>drv_exec\<close> runs one event (a hook, a timer, interrupt
    work, the work that wakes a reader, open, close, mmap, poll, an ioctl, a page fault, an unmapping, or a
    change of the rest of the kernel), \<open>drv_unload\<close> unloads the module, \<open>drv_reach\<close> are the states reachable
    from loading it. Each function runs as one step. \<open>drv_allowed\<close> is what the rest of the system has to
    guarantee: timers and wake-ups run while they are queued; new structures are at unused addresses, open files at
    unused numbers, and there are fewer than \<open>2\<^sup>3\<^sup>1\<close> tasks; a mapping has fewer than \<open>2\<^sup>3\<^sup>2\<close> pages and gets its first page; a buffer is unmapped when no task refers to
    it and its wake-up has run; poll, page faults, reports and registrations reach a buffer that has not been
    unmapped; a registration names 1 to 32 registered event-sets and gets its extra data; a task is
    unregistered after it and its monitored descendants have exited and their interrupt work has run; ioctl
    arguments have the type of their command. The code relies on these without a test: \<open>Prop_Kernel\<close>
    (\<open>admitted_events_needed\<close>, \<open>unregister_running_dangles\<close>), \<open>Prop_Buffer\<close> (\<open>buffer_memory_safe\<close>,
    \<open>create_error_path\<close>) and \<open>Prop_Tool\<close> (\<open>empty_evset_list_accepted\<close>) prove what goes wrong otherwise.

  \<^item> \<open>Locked_Sched\<close>: the same functions with their spinlocks (\<^verbatim>\<open>task_lock\<close>, \<^verbatim>\<open>wait_lock\<close>,
    \<^verbatim>\<open>cpu_lock\<close>, \<^verbatim>\<open>lock_children\<close>, the lock of a buffer). Each records its lock operations and its
    accesses to what the locks guard, and an interference changes the state whenever it waits for a lock.
    \<open>Locks\<close>: processors that run lists of lock operations against one table of owners, the discipline of
    ranks, and the locale \<open>lock_order\<close> in which disciplined calls never deadlock or race.

  \<^bold>\<open>The tool.\<close>
  \<^item> \<open>C_Text\<close>: \<^verbatim>\<open>strtoul\<close>, \<^verbatim>\<open>strtok\<close>, \<^verbatim>\<open>getopt\<close>, \<^verbatim>\<open>getsubopt\<close> and the conversions of
    \<^verbatim>\<open>printf\<close> as far as the tool uses them. \<open>Cmd\<close>, \<open>Cmd_Facts\<close> (\<^verbatim>\<open>cmd.c\<close>): the five parsers.
  \<^item> \<open>User_Rb\<close> (\<^verbatim>\<open>tool/src/rb.c\<close>): the cursor over the mapping. \<open>Reader\<close>, \<open>Profile\<close>
    (\<^verbatim>\<open>profile.c\<close>): \<^verbatim>\<open>read_samples\<close>, the output file, the sampling loop.
  \<^item> \<open>Tool_Driver\<close>, \<open>Tool_Facts\<close> (\<^verbatim>\<open>tool/src/driver.c\<close>): the calls, each composed with the driver's own
    ioctl. \<open>Tool_Main\<close> (\<^verbatim>\<open>main.c\<close>, the processes of \<^verbatim>\<open>start_profile\<close>): a whole run of the tool;
    mapping, registering, sampling and unmapping reach the driver's own \<^verbatim>\<open>smon_mmap\<close>, ioctls, \<^verbatim>\<open>smon_poll\<close>
    and \<^verbatim>\<open>smon_vma_close\<close>; its \<open>sampling_loop\<close> follows \<open>start_sampling\<close> of \<open>Profile\<close> (\<open>sampling_loop_follows\<close>).

  \<^bold>\<open>The two together.\<close> \<open>Pipeline\<close> alternates writes with whole rounds of the reader, \<open>Interleaving\<close> with
  single iterations of its loop (\<open>reader_step\<close>, which is proved to make up the rounds), and \<open>System\<close>
  puts every event of the whole driver between the iterations. A failing \<^verbatim>\<open>poll\<close> ends the reader's loop
  (\<open>poll_fails\<close>); the properties of the stream are about readers whose polls do not fail.

  \<^bold>\<open>What is proved.\<close>
  \<^item> \<open>Kernel_Inv\<close> to \<open>Kernel_Effects\<close>, \<open>Driver_Safe\<close>: one invariant \<open>kinv\<close> of the heap (every pointer a hook
    follows leads to a live structure, the counts are the numbers of users, the rings of the children are
    closed, a task is on one list) holds in every reachable state, no event faults, no buffer is
    damaged, and the hooks do to the task they find what they are meant to do. The relation \<open>sim\<close>
    collects what sampling may change; every hook is a few such steps and one change of structure.
  \<^item> Here and in \<open>Prop_Buffer\<close>: the stream. What the driver accepts is what the reader prints, in order and
    once, under any interleaving, and the reader ends after the last writer has released the buffer; with the
    whole driver too, when the process of the last task exits.
    Writing refines enqueuing, reading takes the oldest records, images of samples are read back.
  \<^item> \<open>Prop_Kernel\<close>: safety of the driver up to its unloading, and the faults without what it relies on, counts, lists, registration, fork, exit, freeing a family, the tick
    of the timer, loading all or nothing.
  \<^item> \<open>Lock_Erase\<close>, \<open>Lock_Facts\<close>, \<open>Prop_Locks\<close>: forgetting the locks gives back the functions of \<open>Sched\<close>;
    every call keeps the order of the locks under any interference, so any number of processors finish their
    calls without deadlock; two places where the code does not keep to its locks: forks whose children are
    on each other's processors, and a task that is unregistered twice at the same time.
  \<^item> \<open>Prop_Tables\<close>: ids stay valid, event-sets refer to registered events, event-sets take turns, the counters
    of a task are restored, the units of energy.
  \<^item> \<open>Prop_Tool\<close>: what the parsers accept is what the driver maps and registers, one command traced from any argument to
    the driver's table, the tool's checks agree with the driver's, the listing is complete and ends, the
    processes and calls of a profiling run come in order, the output file determines the samples.
  Each property with a hypothesis is followed by a witness, on the states of \<open>Example_States\<close> or on
  states reached by a run of the driver.

  \<^bold>\<open>Loops.\<close> The loops that follow links or memory (\<open>unregister_loop\<close>, \<open>list_events_loop\<close>,
  \<open>list_evsets_loop\<close>, \<open>read_loop\<close>, \<open>start_sampling\<close>, \<open>sampling_loop\<close>) are partial functions: not ending is \<open>None\<close>, and each is
  proved to end (the first because the ring is finite and closed, the others because every turn uses up
  an entry of the table, a record or a round); \<open>locked_unregister_loop\<close> ends with \<open>unregister_loop\<close>. All other loops recurse on a counter or a list. No fuel
  is used.

  \<^bold>\<open>Not modelled.\<close> The help texts and error messages, prototypes, includes and constants that no code uses,
  the long names of the options, and the scripts and makefiles have no behaviour to verify.
  The safety and stream properties take each function as one step, which the locks justify for the lists and
  the buffers; between two sections of one call other processors are taken into account by the properties of
  the locks only. Waiting for a timer's callback (\<^verbatim>\<open>hrtimer_cancel\<close>) is no lock operation here: the callbacks
  take the lock of the buffer alone, which nobody holds while cancelling.
  \<^verbatim>\<open>smon_vma_open\<close> only logs, \<^verbatim>\<open>handler_exit\<close> only passes a signal on to the child, and nothing
  calls the tool's own \<^verbatim>\<open>rdtsc\<close>. The kernel (high resolution timers, tracepoints,
  interrupt work, lists, the allocator, the page tables) and the C library are modelled by their
  documented behaviour where the code uses it. The memory model is sequentially consistent: the code's
  reader shares bytes with the driver without barriers, which the strong ordering of its only target,
  x86, allows.
\<close>

text \<open>
  C1: the whole driver and the reader together. From any reachable state in which a buffer has a writer, its
  records are samples that the reader can decode and the reader stands at its tail before a poll: whatever
  events of the driver that \<open>drv_allowed\<close> admits happen between the steps of the reader, no step of either
  faults, the reader meets no unknown header and does not end, and what it has printed together with what
  it has still to read is what it had printed, what the buffer held and what the events have put there,
  in that order: no sample is lost, repeated, reordered or torn. The buffer must stay mapped, keep a
  writer and its batch size, and no other process may report on it; the reader's own polls must not fail.
  The events admitted are the hooks, timers, interrupt work, wake-ups, page faults and system calls of any
  process, under these conditions: timers expire and wake-ups run while they are queued; new tasks, environments and
  buffers are at unused addresses, open files at unused numbers, and there are fewer than \<open>2\<^sup>3\<^sup>1\<close> tasks; mappings have fewer than \<open>2\<^sup>3\<^sup>2\<close> pages and get their first page; a buffer is unmapped
  when no task refers to it and its wake-up has run; poll, page faults, \<^verbatim>\<open>SMON_IOCREAD\<close> and
  \<^verbatim>\<open>SMON_IOCSTSK\<close> reach a buffer that is still mapped; a registration names 1 to 32 registered event-sets
  and gets its extra data; a task is unregistered after it and its monitored descendants have exited and
  their interrupt work has run; ioctl arguments have the type of their command. The driver does not check
  them itself and faults without most of them (C11, C36).
\<close>

theorem system_stream:
  assumes "drv_reach (sy_drv s)" and "buffer_at r s = Some rb" and "written b r s"
    and "rb_inv rb rs" and "list_all2 decodes rs ss"
    and "at_pos rb (unat (rb_tail rb)) (sy_ur s)" and "ur_consumed (sy_ur s) = 0" and "sy_phase s = Polling"
    and "attended b r xs s"
  shows "\<exists>s'. fold_opt (system_exec b r) xs s = Some s' \<and>
    sy_out s' @ unread_at r s' = sy_out s @ ss @ stored b r xs s \<and> (\<forall>err. sy_phase s' \<noteq> Ended err)"
proof -
  have "coupled b r s ss" by (rule coupled_start [OF drv_reach_kinv [OF assms(1)] assms(2-8)])
  from system_runs [OF this assms(9)] coupled_not_ended show ?thesis by blast
qed

text \<open>The task of process 5 runs, is switched out and in again, and the reader polls in between.\<close>

definition ex_ops :: "system_op list" where
  "ex_ops = [Driver (Switch 6 5 0), Reader, Driver (Switch 5 6 0), Reader, Reader]"

theorem system_stream_witness:
  "\<exists>s b s'. drv_reach (sy_drv s) \<and> ks_task_list (drv_k (sy_drv s)) = [20] \<and>
    fold_opt (system_exec b 10) ex_ops s = Some s' \<and>
    (\<exists>ss. sy_out s' @ unread_at 10 s' = sy_out s @ ss @ stored b 10 ex_ops s)"
proof -
  obtain d rb where d: "drv_reach d" "ks_task_list (drv_k d) = [20]" "ks_rbs (drv_k d) 10 = Some rb"
    "smon_rb_is_active rb" "grows True (ex_rb 0) rb" by (rule ex_registered) blast
  define u where "u = \<lparr>ur_addr = 4096, ur_tail = of_nat (unat (rb_tail rb) mod rb_cap rb), ur_size = rb_size rb,
      ur_n_pages = rb_n_pages rb, ur_consumed = 0\<rparr>"
  define s where "s = \<lparr>sy_drv = d, sy_ur = u, sy_out = [], sy_phase = Polling\<rparr>"
  from ex_rb_inv [of 0] obtain zs where z: "stores (ex_rb 0) zs" "recs zs = []" by (auto simp: rb_inv_def stores_def)
  have "extends (ex_rb 0) rb" by (rule grows_extends [OF d(5)]) simp
  with z(1) obtain ws where w: "stores rb (zs @ ws)" "list_all (\<lambda>r. \<exists>s. decodes r s) (recs ws)"
    unfolding extends_def by blast
  obtain ss where ss: "list_all2 decodes (recs ws) ss" using w(2) by (rule decodes_all)
  have i: "rb_inv rb (recs ws)" using w(1) z(2) unfolding rb_inv_def stores_def by (intro exI [of _ "zs @ ws"]) simp
  have s: "drv_reach (sy_drv s)" "buffer_at 10 s = Some rb" "written (rb_batch rb) 10 s"
    "at_pos rb (unat (rb_tail rb)) (sy_ur s)" "ur_consumed (sy_ur s) = 0" "sy_phase s = Polling"
    using d by (simp_all add: s_def u_def written_def at_pos_def)
  have "attended (rb_batch rb) 10 ex_ops s"
    by (rule switching_attended [OF coupled_start [OF drv_reach_kinv [OF s(1)] s(2,3) i ss s(4-6)]]) (simp add: ex_ops_def)
  from system_stream [OF s(1-3) i ss s(4-6) this] obtain s' where
    "fold_opt (system_exec (rb_batch rb) 10) ex_ops s = Some s'"
    "sy_out s' @ unread_at 10 s' = sy_out s @ ss @ stored (rb_batch rb) 10 ex_ops s" by blast
  moreover have "ks_task_list (drv_k (sy_drv s)) = [20]" using d(2) by (simp add: s_def)
  ultimately show ?thesis using s(1) by blast
qed

text \<open>
  C2: the end of a monitoring session, with the whole driver. After any run as in C1, all of whose events
  \<open>drv_allowed\<close> admits under the conditions listed there, the process of the last task that writes to the buffer,
  which is on the list of its processor, exits, wherever the reader is in its round. If the end-of-file record finds room behind the last
  sample of the task, the reader goes on to the end of its loop without an error, and what it has printed
  then is everything that was in the buffer at the start, everything the events of the run have put there,
  and, unless the buffer has no room for it, the last sample of the task, which holds the counters of its
  current event-set as they are at the exit (\<open>counters_now\<close>).
\<close>

theorem system_ends:
  assumes "kinv (drv_k (sy_drv s))" and "buffer_at r s = Some rb" and "written b r s"
    and "rb_inv rb rs" and "list_all2 decodes rs ss"
    and "at_pos rb (unat (rb_tail rb)) (sy_ur s)" and "ur_consumed (sy_ur s) = 0" and "sy_phase s = Polling"
    and "attended b r xs s" and run: "fold_opt (system_exec b r) xs s = Some s'" and k: "k = drv_k (sy_drv s')"
    and rb': "buffer_at r s' = Some rb'" "rb_active rb' = 1" "room_for_end rb'"
    and f: "find_entry (\<lambda>t. t_p t = Some p) k (ks_cpu_list k (ks_task_cpu k p)) = Some (Some a)"
    and t: "ks_tasks k a = Some t" "t_rb t = Some r"
  shows "\<exists>s1 n s2 last. system_exec b r (Driver (Exit p)) s' = Some s1 \<and>
    fold_opt (system_exec b r) (replicate n Reader) s1 = Some s2 \<and> sy_phase s2 = Ended 0 \<and>
    sy_out s2 = sy_out s @ ss @ stored b r xs s @ last \<and>
    (\<exists>pm. counters_now t k = Some pm \<and>
      last = (if rb_fits rb' sizeof_pmc then [PmcSample (finished_sample t (read_clock k) pm)] else []))"
proof -
  have "coupled b r s ss" by (rule coupled_start [OF assms(1-8)])
  from system_runs [OF this assms(9)] run have c: "coupled b r s' (unread_at r s')"
    and out: "sy_out s' @ unread_at r s' = sy_out s @ ss @ stored b r xs s" by auto
  from last_exit [OF c rb' f t k] obtain s1 n s2 last where
    1: "system_exec b r (Driver (Exit p)) s' = Some s1" "fold_opt (system_exec b r) (replicate n Reader) s1 = Some s2"
    "sy_phase s2 = Ended 0" and o: "sy_out s2 = sy_out s' @ unread_at r s' @ last"
    and l: "\<exists>pm. counters_now t k = Some pm \<and>
      last = (if rb_fits rb' sizeof_pmc then [PmcSample (finished_sample t (read_clock k) pm)] else [])" by blast
  have "sy_out s2 = (sy_out s' @ unread_at r s') @ last" using o by simp
  then have "sy_out s2 = sy_out s @ ss @ stored b r xs s @ last" by (simp only: out append_assoc)
  with 1 l show ?thesis by blast
qed

text \<open>One task, whose process exits after the reader has polled an empty buffer.\<close>

definition ex_system :: system where
  "ex_system = \<lparr>sy_drv = \<lparr>drv_k = ex_kernel True, drv_files = Map.empty,
       drv_module = \<lparr>md_count = 1, md_major = 240, md_chrdev = True, md_cdev = True\<rparr>\<rparr>,
     sy_ur = \<lparr>ur_addr = 4096, ur_tail = 0, ur_size = 8192, ur_n_pages = 2, ur_consumed = 0\<rparr>, sy_out = [], sy_phase = Polling\<rparr>"

lemma ex_room: "room_for_end (ex_rb 1)"
  unfolding room_for_end_def
proof (intro allI impI)
  fix img rb2 assume "smon_rb_write SAMPLE_TYPE_PMC img (ex_rb 1) = Some rb2"
  then have "rb_head rb2 = 100 \<and> rb_tail rb2 = 0 \<and> rb_size rb2 = 8192"
    by (auto simp: ex_rb_def smon_rb_write_def rb_put_def rb_copy_def Let_def
      sample_size_of_def sample_type_defs sizeof_defs header_size_def HEAD_OFFSET_def HEAD_PAGE_def PAGE_SIZE_def
      PAGE_SHIFT_def RB_SPACE_def RB_SPACE_of_def RB_COUNT_of_def RB_PAGE_SPACE_def HEAD_TRIM_PAGE_def RB_PAGEMASK_def
      bind_eq_Some_conv split: if_splits)
  then show "rb_fits rb2 0"
    by (simp add: rb_fits_def rb_need_def RB_COUNT_def RB_COUNT_of_def header_size_def rb_cap_def)
qed

theorem system_ends_witness:
  "\<exists>s1 n s2 last. system_exec 1 10 (Driver (Exit 5)) ex_system = Some s1 \<and>
    fold_opt (system_exec 1 10) (replicate n Reader) s1 = Some s2 \<and> sy_phase s2 = Ended 0 \<and>
    sy_out s2 = sy_out ex_system @ [] @ stored 1 10 [Reader] ex_system @ last \<and>
    (\<exists>pm. counters_now (ex_task True) (ex_kernel True) = Some pm \<and>
      last = (if rb_fits (ex_rb 1) sizeof_pmc
        then [PmcSample (finished_sample (ex_task True) (read_clock (ex_kernel True)) pm)] else []))"
proof -
  have k: "drv_k (sy_drv ex_system) = ex_kernel True" by (simp add: ex_system_def)
  have rb: "buffer_at 10 ex_system = Some (ex_rb 1)" by (simp add: k ex_kernel_fields)
  have w: "written 1 10 ex_system" by (simp add: written_def rb smon_rb_is_active_def) (simp add: ex_rb_def)
  have "smon_poll (Some (ex_rb 1)) = 0"
    by (simp add: smon_poll_def smon_rb_batch_available_def smon_rb_is_empty_def RB_COUNT_def RB_COUNT_of_def ex_rb_def)
  then have step: "reader_step 1 (reader_of ex_system (ex_rb 1)) = Some (reader_of ex_system (ex_rb 1))"
    by (simp add: reader_step_def reader_of_def ex_system_def)
  have "put_rb 10 (ex_rb 1) (ex_kernel True) = ex_kernel True"
    by (simp add: put_rb_def fun_upd_idem ex_kernel_fields)
  then have one: "system_exec 1 10 Reader ex_system = Some ex_system"
    using rb step by (simp add: k reader_of_def)
  have att: "attended 1 10 [Reader] ex_system" and run: "fold_opt (system_exec 1 10) [Reader] ex_system = Some ex_system"
    by (simp_all add: one w del: system_exec.simps)
  have u: "at_pos (ex_rb 1) (unat (rb_tail (ex_rb 1))) (sy_ur ex_system)" "ur_consumed (sy_ur ex_system) = 0"
    "sy_phase ex_system = Polling" "rb_active (ex_rb 1) = 1"
    by (simp_all add: at_pos_def ex_system_def ex_rb_def rb_cap_def)
  show ?thesis
    by (rule system_ends [OF _ rb w ex_rb_inv _ u(1-3) att run k [symmetric] rb u(4) ex_room])
      (simp_all add: k ex_kernel_inv ex_kernel_fields ex_task_fields)
qed

text \<open>
  C3: from the mapping of the buffer on, any interleaving of writes and of the reader's rounds runs
  without a fault, what has been printed together with what is still buffered is exactly the
  sequence of accepted samples, and once the last writer releases the buffer and the end-of-file
  record finds room, the next round prints the rest and ends the reader's loop.
\<close>

theorem sampled_stream:
  assumes m: "smon_mmap p q ok junk vs ve d = Some (0, Some rb, ps)"
    and sz: "drop_bit PAGE_SHIFT (ve - vs) < 2 ^ 32"
    and w: "list_all pipe_op_wf xs"
  shows "\<exists>st' ss. fold_opt (pipe_exec b) xs (new_session b addr rb) = Some st' \<and>
    se_out st' @ ss = accepted b xs (new_session b addr rb) \<and>
    (rb_fits (se_rb st') 0 \<longrightarrow>
      (\<exists>rb' st''. smon_release_rb (se_rb st') = Some rb' \<and>
         sampling_round b (st'\<lparr>se_rb := rb'\<rparr>) = Some (0, True, st'') \<and>
         se_out st'' = accepted b xs (new_session b addr rb)))"
proof -
  define st where "st = new_session b addr rb"
  note n = new_session_synced [OF m sz, of b addr, folded st_def]
  have "smon_rb_is_active (se_rb st)" using n(2) by (simp add: smon_rb_is_active_def)
  from pipe_run [OF n(1) this w] obtain st' ss where r: "fold_opt (pipe_exec b) xs st = Some st'"
    "synced b False st' ss" "rb_active (se_rb st') = 1" "se_out st' @ ss = accepted b xs st"
    using n(2,3) by auto
  have "\<exists>rb' st''. smon_release_rb (se_rb st') = Some rb' \<and>
      sampling_round b (st'\<lparr>se_rb := rb'\<rparr>) = Some (0, True, st'') \<and> se_out st'' = accepted b xs st"
    if "rb_fits (se_rb st') 0"
  proof -
    from release_last [OF r(2,3) that] obtain rb' where l: "smon_release_rb (se_rb st') = Some rb'"
      "rb_active rb' = 0" "synced b True (st'\<lparr>se_rb := rb'\<rparr>) ss" .
    from round_hup [OF l(3)] l(2) obtain st'' where
      "sampling_round b (st'\<lparr>se_rb := rb'\<rparr>) = Some (0, True, st'')"
      "se_out st'' = se_out st' @ ss" by auto
    with l(1) r(4) show ?thesis by auto
  qed
  with r(1,4) show ?thesis unfolding st_def by blast
qed

lemma mmap_two_pages:
  "\<exists>rb ps. smon_mmap True True (\<lambda>_. True) (\<lambda>_ _. 0) 0 8192 None = Some (0, Some rb, ps)"
  by (simp add: smon_mmap_def PAGE_SHIFT_def is_power_of_2_def smon_create_rb_def SMON_MAX_PAGES_def
      first_failure_None [THEN iffD2])

theorem sampled_stream_witness:
  "\<exists>rb st' ss. fold_opt (pipe_exec 1) [Emit 0 (ForkSample \<lparr>sf_timestamp = 7, sf_parent = 3, sf_child = 4\<rparr>), Round]
      (new_session 1 4096 rb) = Some st' \<and>
    se_out st' @ ss = accepted 1 [Emit 0 (ForkSample \<lparr>sf_timestamp = 7, sf_parent = 3, sf_child = 4\<rparr>), Round]
      (new_session 1 4096 rb)"
proof -
  from mmap_two_pages obtain rb ps where
    m: "smon_mmap True True (\<lambda>_. True) (\<lambda>_ _. 0) 0 8192 None = Some (0, Some rb, ps)" by blast
  have s: "drop_bit PAGE_SHIFT ((8192 :: u64) - 0) < 2 ^ 32" by (simp add: PAGE_SHIFT_def)
  have w: "list_all pipe_op_wf
      [Emit 0 (ForkSample \<lparr>sf_timestamp = 7, sf_parent = 3, sf_child = 4\<rparr>), Round]" by simp
  from sampled_stream [OF m s w] show ?thesis by blast
qed

text \<open>
  C4: the driver may write between any two iterations of the reader's loop, before its report and before
  its next poll: no step faults, no unknown header is met, what has been printed together with what the
  reader has still to pass is exactly the sequence of accepted samples, and once the last writer releases
  the buffer, even in the middle of a round, and the end-of-file record finds room, the reader comes to
  the end of its loop without an error, having printed all of it.
\<close>

theorem interleaved_stream:
  assumes m: "smon_mmap p q ok junk vs ve d = Some (0, Some rb, ps)"
    and sz: "drop_bit PAGE_SHIFT (ve - vs) < 2 ^ 32"
    and w: "list_all sampler_op_wf xs"
  shows "\<exists>st' ss. fold_opt (sampler_exec b) xs (new_sampler b addr rb) = Some st' \<and>
    se_out st' @ ss = taken_all b xs (new_sampler b addr rb) \<and>
    (rb_fits (se_rb st') 0 \<longrightarrow>
      (\<exists>rb' k st''. smon_release_rb (se_rb st') = Some rb' \<and>
         advances b k (st'\<lparr>se_rb := rb'\<rparr>) = Some st'' \<and> sa_phase st'' = Ended 0 \<and>
         se_out st'' = taken_all b xs (new_sampler b addr rb)))"
proof -
  define st where "st = new_sampler b addr rb"
  note n = new_sampler_on_track [OF m sz, of b addr, folded st_def]
  have "smon_rb_is_active (se_rb st)" using n(2) by (simp add: smon_rb_is_active_def)
  from run_on_track [OF n(1) this w] obtain st' ss where r: "fold_opt (sampler_exec b) xs st = Some st'"
    "on_track b False st' ss" "rb_active (se_rb st') = 1" "se_out st' @ ss = taken_all b xs st"
    using n(2,3) by auto
  have "\<exists>rb' k st''. smon_release_rb (se_rb st') = Some rb' \<and> advances b k (st'\<lparr>se_rb := rb'\<rparr>) = Some st'' \<and>
      sa_phase st'' = Ended 0 \<and> se_out st'' = taken_all b xs st" if f: "rb_fits (se_rb st') 0"
  proof -
    from release_on_track [OF r(2,3) f] obtain rb' where l: "smon_release_rb (se_rb st') = Some rb'"
      "rb_active rb' = 0" "on_track b True (st'\<lparr>se_rb := rb'\<rparr>) ss" .
    then have "rb_active (se_rb (st'\<lparr>se_rb := rb'\<rparr>)) = 0" by simp
    from drained [OF l(3) this] obtain k st'' where "advances b k (st'\<lparr>se_rb := rb'\<rparr>) = Some st''"
      "sa_phase st'' = Ended 0" "se_out st'' = se_out (st'\<lparr>se_rb := rb'\<rparr>) @ ss" .
    with l(1) r(4) show ?thesis by auto
  qed
  with r(1,4) show ?thesis unfolding st_def by blast
qed

theorem interleaved_stream_witness:
  "\<exists>rb st' ss. fold_opt (sampler_exec 1) [Write 0 ex_fork, Advance, Write 0 ex_fork, Advance, Write 0 ex_fork]
      (new_sampler 1 4096 rb) = Some st' \<and>
    se_out st' @ ss = taken_all 1 [Write 0 ex_fork, Advance, Write 0 ex_fork, Advance, Write 0 ex_fork]
      (new_sampler 1 4096 rb)"
proof -
  from mmap_two_pages obtain rb ps where
    m: "smon_mmap True True (\<lambda>_. True) (\<lambda>_ _. 0) 0 8192 None = Some (0, Some rb, ps)" by blast
  have s: "drop_bit PAGE_SHIFT ((8192 :: u64) - 0) < 2 ^ 32" by (simp add: PAGE_SHIFT_def)
  have w: "list_all sampler_op_wf [Write 0 ex_fork, Advance, Write 0 ex_fork, Advance, Write 0 ex_fork]" by simp
  from interleaved_stream [OF m s w] show ?thesis by blast
qed

end
